(* ===== verification/Vault_Prelude.thy ===== *)
theory Vault_Prelude
  imports Complex_Main "HOL-Library.Char_ord" "HOL-Library.List_Lexorder"
    "HOL-Library.Product_Lexorder"
begin

text \<open>
  Shared material of the development.

  \<^item> Keyed tables: a database table is a list of rows; \<open>lookup_by\<close>, \<open>update_by\<close> and
    \<open>remove_by\<close> are the primary-key accesses the metadata code makes, with the laws that
    the component proofs use.
  \<^item> Actions: a Python method that may raise and that changes its state even when it raises
    is a function from a state to a result and a state. \<open>bindA\<close> sequences, \<open>catchA\<close> is
    \<open>try/except\<close>, \<open>forA\<close> is a loop over a list. \<open>keeps\<close> says that an action preserves a
    predicate whether it returns or raises; \<open>hoare\<close> is the usual triple with a separate
    postcondition for exceptions.
  \<^item> Ordered queries: \<open>ORDER BY\<close> as \<open>sort_key\<close>.
\<close>

named_theorems table_simps \<open>laws of keyed tables\<close>
named_theorems keeps_rules \<open>introduction rules for preservation by actions\<close>
named_theorems raises_rules \<open>introduction rules for preservation by failing actions\<close>
named_theorems returns_rules \<open>introduction rules for preservation by returning actions\<close>
named_theorems exn_rules \<open>introduction rules for the exceptions an action can raise\<close>
named_theorems hoare_rules \<open>introduction rules for triples\<close>

subsection \<open>Keyed tables\<close>

definition lookup_by :: "('r \<Rightarrow> 'k) \<Rightarrow> 'k \<Rightarrow> 'r list \<Rightarrow> 'r option" where
  "lookup_by key k t = find (\<lambda>r. key r = k) t"

definition update_by :: "('r \<Rightarrow> 'k) \<Rightarrow> 'k \<Rightarrow> ('r \<Rightarrow> 'r) \<Rightarrow> 'r list \<Rightarrow> 'r list" where
  "update_by key k f t = map (\<lambda>r. if key r = k then f r else r) t"

definition remove_by :: "('r \<Rightarrow> 'k) \<Rightarrow> 'k \<Rightarrow> 'r list \<Rightarrow> 'r list" where
  "remove_by key k t = filter (\<lambda>r. key r \<noteq> k) t"

lemma lookup_by_simps [simp]:
  "lookup_by key k [] = None"
  "lookup_by key k (r # t) = (if key r = k then Some r else lookup_by key k t)"
  by (simp_all add: lookup_by_def)

lemma update_by_simps [simp]:
  "update_by key k f [] = []"
  "update_by key k f (r # t) = (if key r = k then f r else r) # update_by key k f t"
  by (simp_all add: update_by_def)

lemma remove_by_simps [simp]:
  "remove_by key k [] = []"
  "remove_by key k (r # t) = (if key r = k then remove_by key k t else r # remove_by key k t)"
  by (simp_all add: remove_by_def)

lemma lookup_by_SomeD:
  assumes "lookup_by key k t = Some r"
  shows "r \<in> set t" and "key r = k"
  using assms by (induction t) (auto split: if_splits)

lemma lookup_by_keyD: "lookup_by key k t = Some r \<Longrightarrow> k \<in> key ` set t"
  using lookup_by_SomeD [of key k t r] by blast

lemma lookup_by_None_iff [table_simps]: "lookup_by key k t = None \<longleftrightarrow> k \<notin> key ` set t"
  by (induction t) auto

lemma lookup_by_Some_iff:
  assumes "distinct (map key t)"
  shows "lookup_by key k t = Some r \<longleftrightarrow> r \<in> set t \<and> key r = k"
  using assms by (induction t) (auto simp: rev_image_eqI)

lemma lookup_by_ex: "k \<in> key ` set t \<Longrightarrow> \<exists>r. lookup_by key k t = Some r"
  using lookup_by_None_iff [of key k t] by (cases "lookup_by key k t") auto

lemma lookup_by_append:
  "lookup_by key k (t @ u) =
     (case lookup_by key k t of None \<Rightarrow> lookup_by key k u | Some r \<Rightarrow> Some r)"
  by (induction t) auto

lemma lookup_update_by:
  assumes "\<And>r. key (f r) = key r"
  shows "lookup_by key k' (update_by key k f t) =
     (if k' = k then map_option f (lookup_by key k t) else lookup_by key k' t)"
  using assms by (induction t) auto

lemma lookup_remove_by [table_simps]:
  "lookup_by key k' (remove_by key k t) = (if k' = k then None else lookup_by key k' t)"
  by (induction t) auto

lemma map_update_by [table_simps]:
  assumes "\<And>r. g (f r) = g r"
  shows "map g (update_by key k f t) = map g t"
  using assms by (simp add: update_by_def)

lemma image_update_by [table_simps]:
  assumes "\<And>r. g (f r) = g r"
  shows "g ` set (update_by key k f t) = g ` set t"
  using map_update_by [of g f key k t] assms by (metis list.set_map)

lemma set_update_by:
  "set (update_by key k f t) = (\<lambda>r. if key r = k then f r else r) ` set t"
  by (simp add: update_by_def)

lemma in_update_byE:
  assumes "x \<in> set (update_by key k f t)"
  obtains (same) "x \<in> set t" "key x \<noteq> k"
    | (changed) r where "r \<in> set t" "key r = k" "x = f r"
  using assms by (auto simp: set_update_by split: if_splits)

lemma set_remove_by [table_simps]: "set (remove_by key k t) = {r \<in> set t. key r \<noteq> k}"
  by (simp add: remove_by_def)

lemma distinct_map_remove_by: "distinct (map g t) \<Longrightarrow> distinct (map g (remove_by key k t))"
  by (simp add: remove_by_def distinct_map_filter)

lemma update_by_idle: "k \<notin> key ` set t \<Longrightarrow> update_by key k f t = t"
  by (induction t) auto

lemma length_update_by [simp]: "length (update_by key k f t) = length t"
  by (simp add: update_by_def)

definition count_rows :: "('r \<Rightarrow> bool) \<Rightarrow> 'r list \<Rightarrow> nat" where
  "count_rows P t = length (filter P t)"

lemma count_rows_simps [simp]:
  "count_rows P [] = 0"
  "count_rows P (r # t) = (if P r then Suc (count_rows P t) else count_rows P t)"
  "count_rows P (t @ u) = count_rows P t + count_rows P u"
  by (simp_all add: count_rows_def)

lemma count_rows_cong: "(\<And>r. r \<in> set t \<Longrightarrow> P r = Q r) \<Longrightarrow> count_rows P t = count_rows Q t"
  unfolding count_rows_def by (metis filter_cong)

lemma count_rows_0_iff: "count_rows P t = 0 \<longleftrightarrow> (\<forall>r\<in>set t. \<not> P r)"
  by (auto simp: count_rows_def filter_empty_conv)

text \<open>How one updated or removed row changes a count.\<close>

lemma count_update_by:
  assumes "distinct (map key t)" "lookup_by key k t = Some r"
  shows "count_rows P (update_by key k f t) + (if P r then 1 else 0) =
         count_rows P t + (if P (f r) then 1 else 0)"
  using assms
proof (induction t)
  case (Cons x t)
  show ?case
  proof (cases "key x = k")
    case True
    with Cons.prems have "x = r" and "k \<notin> key ` set t" by auto
    then show ?thesis using True by (simp add: update_by_idle)
  next
    case False
    with Cons show ?thesis by (auto split: if_splits)
  qed
qed simp

lemma count_remove_by:
  assumes "distinct (map key t)" "lookup_by key k t = Some r"
  shows "count_rows P (remove_by key k t) + (if P r then 1 else 0) = count_rows P t"
  using assms
proof (induction t)
  case (Cons x t)
  show ?case
  proof (cases "key x = k")
    case True
    with Cons.prems have "x = r" and "k \<notin> key ` set t" by auto
    then have "remove_by key k t = t" by (auto simp: remove_by_def filter_id_conv)
    then show ?thesis using True \<open>x = r\<close> by simp
  next
    case False
    with Cons show ?thesis by (auto split: if_splits)
  qed
qed simp

lemma count_update_by_same:
  assumes "\<And>r. P (f r) = P r"
  shows "count_rows P (update_by key k f t) = count_rows P t"
  using assms by (induction t) auto

subsection \<open>Ordered queries\<close>

lemma sort_key_filter_empty: "sort_key f xs = [] \<longleftrightarrow> xs = []"
  by (metis length_0_conv length_sort)

lemma take_sort_key_minimal:
  assumes "x \<in> set (take n (sort_key f xs))" "y \<in> set xs" "y \<notin> set (take n (sort_key f xs))"
  shows "f x \<le> f y"
proof -
  let ?s = "sort_key f xs"
  have y: "y \<in> set (drop n ?s)"
    using assms(2,3) by (metis Un_iff append_take_drop_id set_append set_sort)
  have "sorted (map f (take n ?s @ drop n ?s))" by simp
  then have "sorted (map f (take n ?s) @ map f (drop n ?s))" by (simp only: map_append)
  then show ?thesis using assms(1) y by (auto simp: sorted_append)
qed

lemma distinct_sort_key_take: "distinct xs \<Longrightarrow> distinct (take n (sort_key f xs))"
  by simp

subsection \<open>Results\<close>

definition bindE :: "'e + 'a \<Rightarrow> ('a \<Rightarrow> 'e + 'b) \<Rightarrow> 'e + 'b" where
  "bindE x f = (case x of Inl e \<Rightarrow> Inl e | Inr y \<Rightarrow> f y)"

definition some_or :: "'e \<Rightarrow> 'a option \<Rightarrow> 'e + 'a" where
  "some_or e x = (case x of None \<Rightarrow> Inl e | Some y \<Rightarrow> Inr y)"

lemma bindE_simps [simp]: "bindE (Inl e) f = Inl e" "bindE (Inr x) f = f x"
  by (simp_all add: bindE_def)

lemma bindE_Inr_iff: "bindE x f = Inr z \<longleftrightarrow> (\<exists>y. x = Inr y \<and> f y = Inr z)"
  by (cases x) simp_all

lemma some_or_simps [simp]: "some_or e None = Inl e" "some_or e (Some x) = Inr x"
  by (simp_all add: some_or_def)

lemma some_or_Inr_iff: "some_or e x = Inr y \<longleftrightarrow> x = Some y"
  by (cases x) simp_all

lemmas result_iffs = bindE_Inr_iff some_or_Inr_iff

subsection \<open>Actions: state, exceptions, loops\<close>

type_synonym ('e, 's, 'a) action = "'s \<Rightarrow> ('e + 'a) \<times> 's"

definition retA :: "'a \<Rightarrow> ('e, 's, 'a) action" where
  "retA x s = (Inr x, s)"

definition raiseA :: "'e \<Rightarrow> ('e, 's, 'a) action" where
  "raiseA e s = (Inl e, s)"

definition bindA :: "('e, 's, 'a) action \<Rightarrow> ('a \<Rightarrow> ('e, 's, 'b) action) \<Rightarrow> ('e, 's, 'b) action" where
  "bindA m f s = (case m s of (Inl e, s') \<Rightarrow> (Inl e, s') | (Inr x, s') \<Rightarrow> f x s')"

definition thenA :: "('e, 's, 'a) action \<Rightarrow> ('e, 's, 'b) action \<Rightarrow> ('e, 's, 'b) action" where
  "thenA m n = bindA m (\<lambda>_. n)"

definition catchA :: "('e, 's, 'a) action \<Rightarrow> ('e \<Rightarrow> ('e, 's, 'a) action) \<Rightarrow> ('e, 's, 'a) action" where
  "catchA m h s = (case m s of (Inl e, s') \<Rightarrow> h e s' | (Inr x, s') \<Rightarrow> (Inr x, s'))"

text \<open>The outcome of an action as a value, for \<open>asyncio.gather(..., return_exceptions=True)\<close>.\<close>

definition tryA :: "('e, 's, 'a) action \<Rightarrow> ('f, 's, 'e + 'a) action" where
  "tryA m s = (case m s of (r, s') \<Rightarrow> (Inr r, s'))"

primrec forA :: "('x \<Rightarrow> ('e, 's, 'a) action) \<Rightarrow> 'x list \<Rightarrow> ('e, 's, 'a list) action" where
  "forA f [] = retA []"
| "forA f (x # xs) = bindA (f x) (\<lambda>y. bindA (forA f xs) (\<lambda>ys. retA (y # ys)))"

lemmas action_defs = retA_def raiseA_def bindA_def thenA_def catchA_def tryA_def

lemma bindA_assoc: "bindA (bindA m f) g = bindA m (\<lambda>x. bindA (f x) g)"
  by (rule ext) (auto simp: bindA_def split: prod.splits sum.splits)

lemma bindA_retA [simp]: "bindA (retA x) f = f x" "bindA m retA = m"
  by (rule ext, auto simp: bindA_def retA_def split: prod.splits sum.splits)+

lemma bindA_raiseA [simp]: "bindA (raiseA e) f = raiseA e"
  by (rule ext) (simp add: bindA_def raiseA_def)

lemma bindA_InrE:
  assumes "bindA m f s = (Inr y, t)"
  obtains x u where "m s = (Inr x, u)" "f x u = (Inr y, t)"
  using assms by (auto simp: bindA_def split: prod.splits sum.splits)

lemma thenA_InrE:
  assumes "thenA m n s = (Inr y, t)"
  obtains x u where "m s = (Inr x, u)" "n u = (Inr y, t)"
  using assms by (auto simp: thenA_def elim: bindA_InrE)

lemma guard_InrE:
  assumes "(if b then raiseA e else m) s = (Inr y, t)"
  obtains "\<not> b" "m s = (Inr y, t)"
  using assms by (auto simp: raiseA_def split: if_splits)

lemma catchA_InrE:
  assumes "catchA m h s = (Inr y, t)"
  obtains (ok) "m s = (Inr y, t)" | (handled) e u where "m s = (Inl e, u)" "h e u = (Inr y, t)"
  using assms by (auto simp: catchA_def split: prod.splits sum.splits)

lemma bindA_cases:
  obtains (err) e t where "m s = (Inl e, t)" "bindA m f s = (Inl e, t)"
    | (ok) x t where "m s = (Inr x, t)" "bindA m f s = f x t"
proof (cases "m s")
  case (Pair r t)
  then show thesis using err ok by (cases r) (auto simp: bindA_def)
qed

lemma forA_ConsE:
  assumes "forA f (x # xs) s = (Inr ys, t)"
  obtains y zs u where "f x s = (Inr y, u)" "forA f xs u = (Inr zs, t)" "ys = y # zs"
  using assms by (auto simp: retA_def elim!: bindA_InrE)

lemma bindA_InlE:
  assumes "bindA m f w = (Inl e, w')"
  obtains (first) "m w = (Inl e, w')" | (second) x u where "m w = (Inr x, u)" "f x u = (Inl e, w')"
  using assms by (auto simp: bindA_def split: prod.splits sum.splits)

lemma forA_induct_ok:
  assumes "forA f xs s = (Inr ys, t)" "I s"
    and "\<And>x s y t. I s \<Longrightarrow> f x s = (Inr y, t) \<Longrightarrow> I t \<and> R x y"
  shows "I t \<and> list_all2 R xs ys"
  using assms(1,2)
proof (induction xs arbitrary: s ys)
  case (Cons x xs)
  then show ?case using assms(3) by (elim forA_ConsE) (fastforce)
qed (simp add: retA_def)

definition keeps :: "('s \<Rightarrow> bool) \<Rightarrow> ('e, 's, 'a) action \<Rightarrow> bool" where
  "keeps I m \<longleftrightarrow> (\<forall>s. I s \<longrightarrow> I (snd (m s)))"

lemma keepsD: "keeps I m \<Longrightarrow> I s \<Longrightarrow> m s = (r, t) \<Longrightarrow> I t"
  by (auto simp: keeps_def)

lemma keeps_retA [keeps_rules]: "keeps I (retA x)"
  by (simp add: keeps_def retA_def)

lemma keeps_raiseA [keeps_rules]: "keeps I (raiseA e)"
  by (simp add: keeps_def raiseA_def)

lemma keeps_bindA [keeps_rules]:
  assumes "keeps I m" "\<And>x. keeps I (f x)"
  shows "keeps I (bindA m f)"
  using assms by (fastforce simp: keeps_def bindA_def split: prod.splits sum.splits)

lemma keeps_thenA [keeps_rules]: "keeps I m \<Longrightarrow> keeps I n \<Longrightarrow> keeps I (thenA m n)"
  by (simp add: thenA_def keeps_bindA)

lemma keeps_catchA [keeps_rules]:
  assumes "keeps I m" "\<And>e. keeps I (h e)"
  shows "keeps I (catchA m h)"
  using assms by (fastforce simp: keeps_def catchA_def split: prod.splits sum.splits)

lemma keeps_tryA [keeps_rules]: "keeps I m \<Longrightarrow> keeps I (tryA m)"
  by (fastforce simp: keeps_def tryA_def split: prod.splits)

lemma keeps_forA [keeps_rules]:
  assumes "\<And>x. keeps I (f x)"
  shows "keeps I (forA f xs)"
  by (induction xs) (auto intro!: keeps_rules assms)

lemma keeps_bindA_when:
  assumes "keeps I m" "\<And>s x t. I s \<Longrightarrow> m s = (Inr x, t) \<Longrightarrow> G x" "\<And>x. G x \<Longrightarrow> keeps I (f x)"
  shows "keeps I (bindA m f)"
  using assms by (fastforce simp: keeps_def bindA_def split: prod.splits sum.splits)

lemma keeps_forA_in: "(\<And>x. x \<in> set xs \<Longrightarrow> keeps I (f x)) \<Longrightarrow> keeps I (forA f xs)"
  by (induction xs) (auto intro!: keeps_rules)

lemma keeps_if [keeps_rules]:
  "(b \<Longrightarrow> keeps I m) \<Longrightarrow> (\<not> b \<Longrightarrow> keeps I n) \<Longrightarrow> keeps I (if b then m else n)"
  by simp

lemma keeps_case_option [keeps_rules]:
  "(x = None \<Longrightarrow> keeps I m) \<Longrightarrow> (\<And>y. x = Some y \<Longrightarrow> keeps I (f y)) \<Longrightarrow>
   keeps I (case x of None \<Rightarrow> m | Some y \<Rightarrow> f y)"
  by (cases x) simp_all

lemma keeps_case_sum [keeps_rules]:
  "(\<And>y. x = Inl y \<Longrightarrow> keeps I (f y)) \<Longrightarrow> (\<And>y. x = Inr y \<Longrightarrow> keeps I (g y)) \<Longrightarrow>
   keeps I (case x of Inl y \<Rightarrow> f y | Inr y \<Rightarrow> g y)"
  by (cases x) simp_all

lemma keeps_case_list [keeps_rules]:
  "(x = [] \<Longrightarrow> keeps I m) \<Longrightarrow> (\<And>y ys. x = y # ys \<Longrightarrow> keeps I (f y ys)) \<Longrightarrow>
   keeps I (case x of [] \<Rightarrow> m | y # ys \<Rightarrow> f y ys)"
  by (cases x) simp_all

lemma keeps_case_prod [keeps_rules]:
  "(\<And>y z. x = (y, z) \<Longrightarrow> keeps I (f y z)) \<Longrightarrow> keeps I (case x of (y, z) \<Rightarrow> f y z)"
  by (cases x) simp_all

lemma keeps_Let [keeps_rules]: "(\<And>y. y = x \<Longrightarrow> keeps I (f y)) \<Longrightarrow> keeps I (Let x f)"
  by (simp add: Let_def)

text \<open>Preservation when the action raises.\<close>

definition raises_keep :: "('s \<Rightarrow> bool) \<Rightarrow> ('e, 's, 'a) action \<Rightarrow> bool" where
  "raises_keep I m \<longleftrightarrow> (\<forall>s e t. I s \<longrightarrow> m s = (Inl e, t) \<longrightarrow> I t)"

lemma raises_keepD: "raises_keep I m \<Longrightarrow> I s \<Longrightarrow> m s = (Inl e, t) \<Longrightarrow> I t"
  by (auto simp: raises_keep_def)

lemma raises_retA [raises_rules]: "raises_keep I (retA x)"
  by (simp add: raises_keep_def retA_def)

lemma raises_raiseA [raises_rules]: "raises_keep I (raiseA e)"
  by (simp add: raises_keep_def raiseA_def)

lemma raises_bindA [raises_rules]:
  assumes "keeps I m" "\<And>x. raises_keep I (f x)"
  shows "raises_keep I (bindA m f)"
  using assms by (fastforce simp: raises_keep_def keeps_def bindA_def split: prod.splits sum.splits)

lemma raises_thenA_last: "raises_keep I m \<Longrightarrow> raises_keep I (thenA m (retA x))"
  by (auto simp: raises_keep_def thenA_def bindA_def retA_def split: prod.splits sum.splits)

lemma raises_thenA [raises_rules]: "keeps I m \<Longrightarrow> raises_keep I n \<Longrightarrow> raises_keep I (thenA m n)"
  unfolding thenA_def by (rule raises_bindA)

lemma raises_if [raises_rules]:
  "(b \<Longrightarrow> raises_keep I m) \<Longrightarrow> (\<not> b \<Longrightarrow> raises_keep I n) \<Longrightarrow> raises_keep I (if b then m else n)"
  by simp

lemma raises_case_option [raises_rules]:
  "(x = None \<Longrightarrow> raises_keep I m) \<Longrightarrow> (\<And>y. x = Some y \<Longrightarrow> raises_keep I (f y)) \<Longrightarrow>
   raises_keep I (case x of None \<Rightarrow> m | Some y \<Rightarrow> f y)"
  by (cases x) simp_all

lemma raises_case_list [raises_rules]:
  "(x = [] \<Longrightarrow> raises_keep I m) \<Longrightarrow> (\<And>y ys. x = y # ys \<Longrightarrow> raises_keep I (f y ys)) \<Longrightarrow>
   raises_keep I (case x of [] \<Rightarrow> m | y # ys \<Rightarrow> f y ys)"
  by (cases x) simp_all

lemma raises_case_prod [raises_rules]:
  "(\<And>y z. x = (y, z) \<Longrightarrow> raises_keep I (f y z)) \<Longrightarrow> raises_keep I (case x of (y, z) \<Rightarrow> f y z)"
  by (cases x) simp_all

lemma raises_catchA:
  assumes "raises_keep I m" "\<And>e. raises_keep I (h e)"
  shows "raises_keep I (catchA m h)"
  unfolding raises_keep_def
proof (intro allI impI)
  fix s e t
  assume s: "I s" "catchA m h s = (Inl e, t)"
  then obtain e' u where "m s = (Inl e', u)" "h e' u = (Inl e, t)"
    by (auto simp: catchA_def split: prod.splits sum.splits)
  then show "I t" using s(1) assms by (auto dest: raises_keepD)
qed

text \<open>Preservation when the action returns.\<close>

definition returns_keep :: "('s \<Rightarrow> bool) \<Rightarrow> ('e, 's, 'a) action \<Rightarrow> bool" where
  "returns_keep I m \<longleftrightarrow> (\<forall>s x t. I s \<longrightarrow> m s = (Inr x, t) \<longrightarrow> I t)"

lemma returns_keepD: "returns_keep I m \<Longrightarrow> I s \<Longrightarrow> m s = (Inr x, t) \<Longrightarrow> I t"
  by (auto simp: returns_keep_def)

lemma returns_of_keeps: "keeps I m \<Longrightarrow> returns_keep I m"
  unfolding returns_keep_def keeps_def by (metis snd_conv)

lemma returns_retA [returns_rules]: "returns_keep I (retA x)"
  by (simp add: returns_keep_def retA_def)

lemma returns_raiseA [returns_rules]: "returns_keep I (raiseA e)"
  by (simp add: returns_keep_def raiseA_def)

lemma returns_bindA [returns_rules]:
  assumes "returns_keep I m" "\<And>x. returns_keep I (f x)"
  shows "returns_keep I (bindA m f)"
  unfolding returns_keep_def using assms by (auto elim!: bindA_InrE dest: returns_keepD)

lemma returns_thenA [returns_rules]: "returns_keep I m \<Longrightarrow> returns_keep I n \<Longrightarrow> returns_keep I (thenA m n)"
  unfolding thenA_def by (rule returns_bindA)

lemma returns_catchA:
  assumes "returns_keep I m" "\<And>e s. isl (fst (h e s))"
  shows "returns_keep I (catchA m h)"
  unfolding returns_keep_def
proof (intro allI impI)
  fix s x t
  assume s: "I s" "catchA m h s = (Inr x, t)"
  from s(2) show "I t"
  proof (cases rule: catchA_InrE)
    case ok
    with s(1) assms(1) show ?thesis by (auto dest: returns_keepD)
  next
    case (handled e u)
    with assms(2) [of e u] show ?thesis by simp
  qed
qed

lemma returns_forA [returns_rules]:
  assumes "\<And>x. returns_keep I (f x)"
  shows "returns_keep I (forA f xs)"
  by (induction xs) (auto intro!: returns_rules assms)

lemma returns_if [returns_rules]:
  "(b \<Longrightarrow> returns_keep I m) \<Longrightarrow> (\<not> b \<Longrightarrow> returns_keep I n) \<Longrightarrow> returns_keep I (if b then m else n)"
  by simp

lemma returns_case_option [returns_rules]:
  "(x = None \<Longrightarrow> returns_keep I m) \<Longrightarrow> (\<And>y. x = Some y \<Longrightarrow> returns_keep I (f y)) \<Longrightarrow>
   returns_keep I (case x of None \<Rightarrow> m | Some y \<Rightarrow> f y)"
  by (cases x) simp_all

lemma returns_case_list [returns_rules]:
  "(x = [] \<Longrightarrow> returns_keep I m) \<Longrightarrow> (\<And>y ys. x = y # ys \<Longrightarrow> returns_keep I (f y ys)) \<Longrightarrow>
   returns_keep I (case x of [] \<Rightarrow> m | y # ys \<Rightarrow> f y ys)"
  by (cases x) simp_all

text \<open>The exceptions an action can raise.\<close>

definition raises_in :: "('e \<Rightarrow> bool) \<Rightarrow> ('e, 's, 'a) action \<Rightarrow> bool" where
  "raises_in E m \<longleftrightarrow> (\<forall>s e t. m s = (Inl e, t) \<longrightarrow> E e)"

lemma raises_inD: "raises_in E m \<Longrightarrow> m s = (Inl e, t) \<Longrightarrow> E e"
  by (auto simp: raises_in_def)

lemma raises_in_retA [exn_rules]: "raises_in E (retA x)"
  by (simp add: raises_in_def retA_def)

lemma raises_in_raiseA [exn_rules]: "E e \<Longrightarrow> raises_in E (raiseA e)"
  by (simp add: raises_in_def raiseA_def)

lemma raises_in_bindA [exn_rules]:
  "raises_in E m \<Longrightarrow> (\<And>x. raises_in E (f x)) \<Longrightarrow> raises_in E (bindA m f)"
  by (fastforce simp: raises_in_def bindA_def split: prod.splits sum.splits)

lemma raises_in_thenA [exn_rules]: "raises_in E m \<Longrightarrow> raises_in E n \<Longrightarrow> raises_in E (thenA m n)"
  unfolding thenA_def by (rule raises_in_bindA)

lemma raises_in_catchA:
  "raises_in F m \<Longrightarrow> (\<And>e. F e \<Longrightarrow> raises_in E (h e)) \<Longrightarrow> raises_in E (catchA m h)"
  by (fastforce simp: raises_in_def catchA_def split: prod.splits sum.splits)

lemma raises_in_forA [exn_rules]: "(\<And>x. raises_in E (f x)) \<Longrightarrow> raises_in E (forA f xs)"
  by (induction xs) (auto intro!: exn_rules)

lemma raises_in_if [exn_rules]:
  "(b \<Longrightarrow> raises_in E m) \<Longrightarrow> (\<not> b \<Longrightarrow> raises_in E n) \<Longrightarrow> raises_in E (if b then m else n)"
  by simp

lemma raises_in_case_option [exn_rules]:
  "(x = None \<Longrightarrow> raises_in E m) \<Longrightarrow> (\<And>y. x = Some y \<Longrightarrow> raises_in E (f y)) \<Longrightarrow>
   raises_in E (case x of None \<Rightarrow> m | Some y \<Rightarrow> f y)"
  by (cases x) simp_all

lemma raises_in_case_list [exn_rules]:
  "(x = [] \<Longrightarrow> raises_in E m) \<Longrightarrow> (\<And>y ys. x = y # ys \<Longrightarrow> raises_in E (f y ys)) \<Longrightarrow>
   raises_in E (case x of [] \<Rightarrow> m | y # ys \<Rightarrow> f y ys)"
  by (cases x) simp_all

definition hoare ::
  "('s \<Rightarrow> bool) \<Rightarrow> ('e, 's, 'a) action \<Rightarrow> ('a \<Rightarrow> 's \<Rightarrow> bool) \<Rightarrow> ('e \<Rightarrow> 's \<Rightarrow> bool) \<Rightarrow> bool" where
  "hoare P m Q E \<longleftrightarrow>
     (\<forall>s. P s \<longrightarrow> (case m s of (Inl e, s') \<Rightarrow> E e s' | (Inr x, s') \<Rightarrow> Q x s'))"

lemma hoareI:
  assumes "\<And>s x t. P s \<Longrightarrow> m s = (Inr x, t) \<Longrightarrow> Q x t"
    and "\<And>s e t. P s \<Longrightarrow> m s = (Inl e, t) \<Longrightarrow> E e t"
  shows "hoare P m Q E"
  using assms by (auto simp: hoare_def split: prod.splits sum.splits)

lemma hoareD_Inr: "hoare P m Q E \<Longrightarrow> P s \<Longrightarrow> m s = (Inr x, t) \<Longrightarrow> Q x t"
  by (auto simp: hoare_def)

lemma hoareD_Inl: "hoare P m Q E \<Longrightarrow> P s \<Longrightarrow> m s = (Inl e, t) \<Longrightarrow> E e t"
  by (auto simp: hoare_def)

lemma hoare_bindA:
  assumes "hoare P m R E" "\<And>x. hoare (R x) (f x) Q E"
  shows "hoare P (bindA m f) Q E"
  using assms by (fastforce simp: hoare_def bindA_def split: prod.splits sum.splits)

lemma hoare_keeps: "keeps I m \<longleftrightarrow> hoare I m (\<lambda>_. I) (\<lambda>_. I)"
  by (simp add: keeps_def hoare_def split_beta split: sum.split)

lemma hoare_weaken:
  assumes "hoare P' m Q' E'" "\<And>s. P s \<Longrightarrow> P' s" "\<And>x s. Q' x s \<Longrightarrow> Q x s" "\<And>e s. E' e s \<Longrightarrow> E e s"
  shows "hoare P m Q E"
  using assms by (fastforce simp: hoare_def split: prod.splits sum.splits)

lemma hoare_raises_in: "raises_in (\<lambda>e. \<not> F e) m \<Longrightarrow> hoare P m (\<lambda>_ _. True) (\<lambda>e s. F e \<longrightarrow> Q s)"
  by (auto simp: hoare_def raises_in_def split: prod.splits sum.splits)

text \<open>Sequencing when the precondition is framed through and is also the exceptional outcome.\<close>

lemma hoare_frame_bind: "keeps P m \<Longrightarrow> (\<And>x. hoare P (f x) Q (\<lambda>_. P)) \<Longrightarrow> hoare P (bindA m f) Q (\<lambda>_. P)"
  by (rule hoare_bindA [where R = "\<lambda>_. P"]) (simp_all add: hoare_keeps)

lemma hoare_frame_then: "keeps P m \<Longrightarrow> hoare P n Q (\<lambda>_. P) \<Longrightarrow> hoare P (thenA m n) Q (\<lambda>_. P)"
  unfolding thenA_def by (rule hoare_frame_bind)

lemma hoare_frame_if: "hoare P m Q (\<lambda>_. P) \<Longrightarrow> hoare P n Q (\<lambda>_. P) \<Longrightarrow> hoare P (if b then m else n) Q (\<lambda>_. P)"
  by simp

lemma hoare_frame_raise: "hoare P (raiseA e) Q (\<lambda>_. P)"
  by (simp add: hoare_def raiseA_def)

lemmas hoare_frame = hoare_frame_bind hoare_frame_then hoare_frame_if hoare_frame_raise

text \<open>The same with a weaker exceptional outcome.\<close>

lemma hoare_through_bind:
  "keeps P m \<Longrightarrow> (\<And>x. hoare P (f x) Q E) \<Longrightarrow> (\<And>e s. P s \<Longrightarrow> E e s) \<Longrightarrow> hoare P (bindA m f) Q E"
  by (rule hoare_bindA [where R = "\<lambda>_. P"]) (auto simp: hoare_keeps intro: hoare_weaken)

lemma hoare_through_then:
  "keeps P m \<Longrightarrow> hoare P n Q E \<Longrightarrow> (\<And>e s. P s \<Longrightarrow> E e s) \<Longrightarrow> hoare P (thenA m n) Q E"
  unfolding thenA_def by (rule hoare_through_bind)

lemma hoare_through_if: "hoare P m Q E \<Longrightarrow> hoare P n Q E \<Longrightarrow> hoare P (if b then m else n) Q E"
  by simp

lemma hoare_through_option:
  "hoare P m Q E \<Longrightarrow> (\<And>y. hoare P (f y) Q E) \<Longrightarrow> hoare P (case x of None \<Rightarrow> m | Some y \<Rightarrow> f y) Q E"
  by (cases x) simp_all

lemma hoare_through_raise: "(\<And>e s. P s \<Longrightarrow> E e s) \<Longrightarrow> hoare P (raiseA e) Q E"
  by (simp add: hoare_def raiseA_def)

lemmas hoare_through = hoare_through_bind hoare_through_then hoare_through_if hoare_through_option
  hoare_through_raise

end
