(* ===== verification/Vault_Common.thy ===== *)
theory Vault_Common
  imports Vault_Prelude
begin

text \<open>
  The package \<^verbatim>\<open>common\<close>: the state enumerations and lifecycle tables of
  \<^verbatim>\<open>common/constants.py\<close>, the exception hierarchy of \<^verbatim>\<open>common/errors.py\<close> together
  with the storage-client exceptions of \<^verbatim>\<open>replication/node_client.py\<close>, and the string
  rules of \<^verbatim>\<open>common/validation.py\<close> and \<^verbatim>\<open>common/ids.py\<close>.

  Strings are lists of \<open>char\<close>, so the code points 0 to 255; \<open>str.strip\<close> and
  \<open>str.lower\<close> are written out on that range. Exceptions keep their class and their
  structured arguments; the text of a message is not modelled.
\<close>

section \<open>Enumerations\<close>

type_synonym uuid = nat

datatype object_state = OS_ACTIVE | OS_DELETING | OS_DELETED

datatype version_state = VS_PREPARING | VS_COMMITTED | VS_FAILED

datatype replica_state =
    RS_PENDING | RS_COPYING | RS_HEALTHY | RS_STALE | RS_CORRUPTED | RS_UNAVAILABLE
  | RS_REPAIRING | RS_FAILED

datatype node_state =
    NS_JOINING | NS_HEALTHY | NS_SUSPECT | NS_UNAVAILABLE | NS_RECOVERING | NS_DRAINING
  | NS_REMOVED

datatype job_status = JS_PENDING | JS_RUNNING | JS_SUCCEEDED | JS_FAILED

datatype error_code =
    OBJECT_NOT_FOUND | OBJECT_ALREADY_EXISTS | VERSION_CONFLICT | NODE_UNAVAILABLE
  | INSUFFICIENT_REPLICAS | CHECKSUM_MISMATCH | REPAIR_IN_PROGRESS | STORAGE_FULL
  | INVALID_REQUEST | UNAUTHORIZED | PAYLOAD_TOO_LARGE | INTERNAL_ERROR

section \<open>Lifecycle tables\<close>

fun OBJECT_STATE_TRANSITIONS :: "object_state \<Rightarrow> object_state set" where
  "OBJECT_STATE_TRANSITIONS OS_ACTIVE = {OS_DELETING}"
| "OBJECT_STATE_TRANSITIONS OS_DELETING = {OS_DELETED}"
| "OBJECT_STATE_TRANSITIONS OS_DELETED = {}"

fun NODE_STATE_TRANSITIONS :: "node_state \<Rightarrow> node_state set" where
  "NODE_STATE_TRANSITIONS NS_JOINING = {NS_HEALTHY}"
| "NODE_STATE_TRANSITIONS NS_HEALTHY = {NS_SUSPECT, NS_DRAINING}"
| "NODE_STATE_TRANSITIONS NS_SUSPECT = {NS_HEALTHY, NS_UNAVAILABLE}"
| "NODE_STATE_TRANSITIONS NS_UNAVAILABLE = {NS_RECOVERING}"
| "NODE_STATE_TRANSITIONS NS_RECOVERING = {NS_HEALTHY, NS_SUSPECT}"
| "NODE_STATE_TRANSITIONS NS_DRAINING = {NS_REMOVED}"
| "NODE_STATE_TRANSITIONS NS_REMOVED = {}"

text \<open>
  The rule both lifecycle operations share: writing the current state is a no-op, an edge
  of the table is taken, anything else is refused.
\<close>

definition move_state :: "('s \<Rightarrow> 's set) \<Rightarrow> 's \<Rightarrow> 's \<Rightarrow> 's option" where
  "move_state edges s t =
     (if t = s then Some s else if t \<in> edges s then Some t else None)"

primrec run_moves :: "('s \<Rightarrow> 's set) \<Rightarrow> 's \<Rightarrow> 's list \<Rightarrow> 's option" where
  "run_moves edges s [] = Some s"
| "run_moves edges s (t # ts) =
     (case move_state edges s t of None \<Rightarrow> None | Some u \<Rightarrow> run_moves edges u ts)"

section \<open>Exceptions\<close>

datatype ident = UuidId uuid | TextId string | TextIds "string list" | UuidIds "uuid list"

datatype vault_error =
    ObjectNotFound ident
  | ObjectAlreadyExists ident
  | VersionConflict "int option" "int option"
  | InvalidState
  | ChecksumMismatch string string
  | Unauthorized
  | PayloadTooLarge int
  | VaultError error_code int

fun error_code_of :: "vault_error \<Rightarrow> error_code" where
  "error_code_of (ObjectNotFound _) = OBJECT_NOT_FOUND"
| "error_code_of (ObjectAlreadyExists _) = OBJECT_ALREADY_EXISTS"
| "error_code_of (VersionConflict _ _) = VERSION_CONFLICT"
| "error_code_of InvalidState = INVALID_REQUEST"
| "error_code_of (ChecksumMismatch _ _) = CHECKSUM_MISMATCH"
| "error_code_of Unauthorized = UNAUTHORIZED"
| "error_code_of (PayloadTooLarge _) = PAYLOAD_TOO_LARGE"
| "error_code_of (VaultError c _) = c"

fun status_code_of :: "vault_error \<Rightarrow> int" where
  "status_code_of (ObjectNotFound _) = 404"
| "status_code_of (ObjectAlreadyExists _) = 409"
| "status_code_of (VersionConflict _ _) = 409"
| "status_code_of InvalidState = 409"
| "status_code_of (ChecksumMismatch _ _) = 409"
| "status_code_of Unauthorized = 401"
| "status_code_of (PayloadTooLarge _) = 413"
| "status_code_of (VaultError _ st) = st"

datatype client_error =
    StorageNodeClientError
  | StorageNodeUnavailableError
  | StorageNodeInvalidRequestError
  | StorageObjectNotFoundError
  | StorageObjectAlreadyExistsError
  | StorageNodeInsufficientCapacityError
  | StorageNodeProtocolError
  | StorageNodeIntegrityError

text \<open>
  The Python exceptions the modelled code can raise. \<open>DbError\<close> is an exception of the
  database layer (a violated constraint), \<open>HttpError\<close> one of the HTTP library that the
  storage-node client passes on, \<open>DetachedInstanceError\<close> the one that SQLAlchemy raises when an
  expired attribute is read after its session has been closed.
\<close>

datatype exn = VaultE vault_error | ClientE client_error | ValueError | TypeError | DbError | HttpError
  | DetachedInstanceError

fun is_vault_error :: "exn \<Rightarrow> bool" where
  "is_vault_error (VaultE _) = True"
| "is_vault_error _ = False"

fun is_client_error :: "exn \<Rightarrow> bool" where
  "is_client_error (ClientE _) = True"
| "is_client_error _ = False"

section \<open>Strings\<close>

definition is_space :: "char \<Rightarrow> bool" where
  "is_space c \<longleftrightarrow> (let n = (of_char c :: nat) in
     9 \<le> n \<and> n \<le> 13 \<or> 28 \<le> n \<and> n \<le> 32 \<or> n = 133 \<or> n = 160)"

definition strip :: "string \<Rightarrow> string" where
  "strip s = rev (dropWhile is_space (rev (dropWhile is_space s)))"

definition rstrip_slash :: "string \<Rightarrow> string" where
  "rstrip_slash s = rev (dropWhile (\<lambda>c. c = CHR ''/'') (rev s))"

definition lower_char :: "char \<Rightarrow> char" where
  "lower_char c = (let n = (of_char c :: nat) in
     if 65 \<le> n \<and> n \<le> 90 \<or> 192 \<le> n \<and> n \<le> 222 \<and> n \<noteq> 215 then char_of (n + 32) else c)"

definition lower :: "string \<Rightarrow> string" where
  "lower s = map lower_char s"

definition hexdigits :: string where
  "hexdigits = ''0123456789abcdef''"

lemma strip_strip [simp]: "strip (strip s) = strip s"
proof -
  have 1: "dropWhile P (dropWhile P xs) = dropWhile P xs" for P :: "char \<Rightarrow> bool" and xs
    by (induction xs) auto
  have 2: "dropWhile P (rev (dropWhile P (rev (dropWhile P xs)))) =
           rev (dropWhile P (rev (dropWhile P xs)))" for P :: "char \<Rightarrow> bool" and xs
  proof (cases "dropWhile P xs")
    case (Cons y ys)
    then have "\<not> P y" by (metis hd_dropWhile list.discI list.sel(1))
    then have "dropWhile P (rev ys @ [y]) \<noteq> []" by (simp add: dropWhile_eq_Nil_conv)
    moreover have "last (dropWhile P (rev ys @ [y])) = y"
      using \<open>\<not> P y\<close> by (induction "rev ys") (auto simp: dropWhile_append)
    ultimately have "hd (rev (dropWhile P (rev (y # ys)))) = y" by (simp add: hd_rev)
    moreover have "rev (dropWhile P (rev (y # ys))) \<noteq> []"
      using \<open>dropWhile P (rev ys @ [y]) \<noteq> []\<close> by simp
    ultimately show ?thesis using \<open>\<not> P y\<close> Cons
      by (cases "rev (dropWhile P (rev (y # ys)))") auto
  next
    case Nil
    then show ?thesis by (simp only: rev.simps dropWhile.simps)
  qed
  show ?thesis unfolding strip_def by (simp only: 2 rev_rev_ident 1)
qed

lemma length_lower [simp]: "length (lower s) = length s"
  by (simp add: lower_def)

lemma lower_char_idem [simp]: "lower_char (lower_char c) = lower_char c"
  by (auto simp: lower_char_def Let_def)

lemma lower_lower [simp]: "lower (lower s) = lower s"
  by (simp add: lower_def comp_def)

lemma lower_char_hex: "c \<in> set hexdigits \<Longrightarrow> lower_char c = c"
  by (auto simp: hexdigits_def lower_char_def)

lemma lower_hex: "set s \<subseteq> set hexdigits \<Longrightarrow> lower s = s"
  unfolding lower_def by (rule map_idI) (auto intro: lower_char_hex)

section \<open>Object names (common/validation.py)\<close>

definition MAX_OBJECT_NAME_LENGTH :: nat where
  "MAX_OBJECT_NAME_LENGTH = 255"

definition is_control :: "char \<Rightarrow> bool" where
  "is_control c \<longleftrightarrow> (of_char c :: nat) < 32 \<or> (of_char c :: nat) = 127"

definition normalize_object_name :: "string \<Rightarrow> exn + string" where
  "normalize_object_name value =
     (let normalized = strip value in
      if normalized = [] then Inl ValueError
      else if length normalized > MAX_OBJECT_NAME_LENGTH then Inl ValueError
      else if list_ex is_control normalized then Inl ValueError
      else Inr normalized)"

definition canonical_name :: "string \<Rightarrow> bool" where
  "canonical_name s \<longleftrightarrow> strip s = s \<and> s \<noteq> [] \<and> length s \<le> 255 \<and> (\<forall>c\<in>set s. \<not> is_control c)"

lemma normalize_object_name_eq:
  "normalize_object_name v = (if canonical_name (strip v) then Inr (strip v) else Inl ValueError)"
  by (auto simp: normalize_object_name_def canonical_name_def MAX_OBJECT_NAME_LENGTH_def Let_def
      list_ex_iff)

section \<open>Identifiers (common/ids.py)\<close>

definition hex_digit :: "nat \<Rightarrow> char" where
  "hex_digit n = hexdigits ! (n mod 16)"

primrec hex_string :: "nat \<Rightarrow> nat \<Rightarrow> string" where
  "hex_string 0 n = []"
| "hex_string (Suc k) n = hex_string k (n div 16) @ [hex_digit n]"

text \<open>\<open>UUID.hex\<close> and \<open>str(UUID)\<close> of the 128-bit value \<open>u\<close>.\<close>

definition uuid_hex :: "uuid \<Rightarrow> string" where
  "uuid_hex u = hex_string 32 u"

definition uuid_str :: "uuid \<Rightarrow> string" where
  "uuid_str u = (let h = uuid_hex u in
     take 8 h @ ''-'' @ take 4 (drop 8 h) @ ''-'' @ take 4 (drop 12 h) @ ''-'' @
     take 4 (drop 16 h) @ ''-'' @ drop 20 h)"

definition request_id_chars :: string where
  "request_id_chars =
     ''ABCDEFGHIJKLMNOPQRSTUVWXYZabcdefghijklmnopqrstuvwxyz0123456789_.:-''"

definition request_id_match :: "string \<Rightarrow> bool" where
  "request_id_match s \<longleftrightarrow> 1 \<le> length s \<and> length s \<le> 64 \<and> (\<forall>c\<in>set s. c \<in> set request_id_chars)"

definition new_request_id :: "uuid \<Rightarrow> string" where
  "new_request_id u = ''req_'' @ uuid_hex u"

definition validate_request_id :: "string \<Rightarrow> exn + string" where
  "validate_request_id value = (if request_id_match value then Inr value else Inl ValueError)"

definition normalize_request_id :: "uuid \<Rightarrow> string option \<Rightarrow> string" where
  "normalize_request_id fresh value =
     (let candidate = (case value of Some v \<Rightarrow> strip v | None \<Rightarrow> []) in
      if request_id_match candidate then candidate else new_request_id fresh)"

lemma length_hex_string [simp]: "length (hex_string k n) = k"
  by (induction k arbitrary: n) auto

lemma hex_digit_in: "hex_digit n \<in> set hexdigits"
proof -
  have "n mod 16 < length hexdigits" by (simp add: hexdigits_def)
  then show ?thesis unfolding hex_digit_def by (rule nth_mem)
qed

lemma set_hex_string: "set (hex_string k n) \<subseteq> set hexdigits"
  by (induction k arbitrary: n) (auto simp: hex_digit_in)

lemma hex_digit_inj: "hex_digit a = hex_digit b \<Longrightarrow> a mod 16 = b mod 16"
proof -
  have d: "distinct hexdigits" by (simp add: hexdigits_def)
  have l: "x mod 16 < length hexdigits" for x :: nat by (simp add: hexdigits_def)
  show "hex_digit a = hex_digit b \<Longrightarrow> a mod 16 = b mod 16"
    unfolding hex_digit_def using nth_eq_iff_index_eq [OF d l l] by blast
qed

lemma hex_string_inj:
  "hex_string k a = hex_string k b \<Longrightarrow> a < 16 ^ k \<Longrightarrow> b < 16 ^ k \<Longrightarrow> a = b"
proof (induction k arbitrary: a b)
  case (Suc k)
  then have h: "hex_string k (a div 16) = hex_string k (b div 16)" and m: "a mod 16 = b mod 16"
    by (auto dest: hex_digit_inj)
  have "a div 16 < 16 ^ k" "b div 16 < 16 ^ k"
    using Suc.prems by (simp_all add: less_mult_imp_div_less mult.commute)
  with h have "a div 16 = b div 16" by (rule Suc.IH)
  with m show ?case by (metis div_mult_mod_eq)
qed simp

lemma uuid_hex_facts: "length (uuid_hex u) = 32" "set (uuid_hex u) \<subseteq> set hexdigits"
  by (simp_all add: uuid_hex_def set_hex_string)

lemma hexdigits_not_space: "c \<in> set hexdigits \<Longrightarrow> \<not> is_space c"
  by (auto simp: hexdigits_def is_space_def)

lemma strip_no_space: "(\<And>c. c \<in> set s \<Longrightarrow> \<not> is_space c) \<Longrightarrow> strip s = s"
  unfolding strip_def by (metis dropWhile_eq_self_iff hd_in_set rev_rev_ident set_rev)

lemma strip_uuid_hex: "strip (uuid_hex u) = uuid_hex u" "uuid_hex u \<noteq> []"
  using strip_no_space [of "uuid_hex u"] hexdigits_not_space uuid_hex_facts [of u] by auto

lemma uuid_str_inj:
  assumes "uuid_str a = uuid_str b" "a < 2 ^ 128" "b < 2 ^ 128"
  shows "a = b"
proof -
  define g :: "string \<Rightarrow> string" where
    "g s = take 8 s @ take 4 (drop 9 s) @ take 4 (drop 14 s) @ take 4 (drop 19 s) @ drop 24 s" for s
  have g: "g (uuid_str u) = uuid_hex u" for u
  proof -
    let ?h = "uuid_hex u"
    have j: "take 4 (drop n ?h) @ drop (4 + n) ?h = drop n ?h" for n
      by (metis append_take_drop_id drop_drop)
    have "g (uuid_str u) = take 8 ?h @ take 4 (drop 8 ?h) @ take 4 (drop 12 ?h) @
       take 4 (drop 16 ?h) @ drop 20 ?h"
      using uuid_hex_facts(1) [of u] by (simp add: g_def uuid_str_def Let_def)
    also have "\<dots> = ?h"
      using j [of 16] j [of 12] j [of 8] by simp
    finally show ?thesis .
  qed
  from assms(1) have "uuid_hex a = uuid_hex b" by (metis g)
  then show ?thesis using assms(2,3) hex_string_inj [of 32 a b] by (simp add: uuid_hex_def)
qed

section \<open>Lifecycles without cycles\<close>

text \<open>
  A lifecycle table is acyclic when some rank grows along every edge. Then a run of
  transitions never returns to a state it has left.
\<close>

locale acyclic_lifecycle =
  fixes edges :: "'s \<Rightarrow> 's set" and rank :: "'s \<Rightarrow> nat"
  assumes edge_rank: "t \<in> edges s \<Longrightarrow> rank s < rank t"
begin

lemma move_rank: "move_state edges s t = Some u \<Longrightarrow> rank s \<le> rank u \<and> (rank u = rank s \<longrightarrow> u = s)"
  using edge_rank [of t s] by (auto simp: move_state_def split: if_splits)

lemma run_rank: "run_moves edges s ts = Some u \<Longrightarrow> rank s \<le> rank u"
proof (induction ts arbitrary: s)
  case (Cons t ts)
  then obtain v where v: "move_state edges s t = Some v" "run_moves edges v ts = Some u"
    by (auto split: option.splits)
  from v(1) have "rank s \<le> rank v" using move_rank by blast
  also have "\<dots> \<le> rank u" using v(2) by (rule Cons.IH)
  finally show ?case .
qed simp

lemma run_no_return: "run_moves edges s ts = Some s \<Longrightarrow> set ts \<subseteq> {s}"
proof (induction ts)
  case (Cons t ts)
  then obtain v where v: "move_state edges s t = Some v" "run_moves edges v ts = Some s"
    by (auto split: option.splits)
  have "rank v \<le> rank s" using v(2) by (rule run_rank)
  with move_rank [OF v(1)] have "v = s" by simp
  with v(1) have "t = s" by (auto simp: move_state_def split: if_splits)
  with v \<open>v = s\<close> Cons.IH show ?case by simp
qed simp

end

fun object_rank :: "object_state \<Rightarrow> nat" where
  "object_rank OS_ACTIVE = 0"
| "object_rank OS_DELETING = 1"
| "object_rank OS_DELETED = 2"

interpretation object_lc: acyclic_lifecycle OBJECT_STATE_TRANSITIONS object_rank
proof unfold_locales
  fix s t
  assume "t \<in> OBJECT_STATE_TRANSITIONS s"
  then show "object_rank s < object_rank t" by (cases s) auto
qed

section \<open>Guarantees\<close>

text \<open>A name that passes validation is trimmed, non-empty, at most 255 characters long and free
  of control characters, and validating it again returns it unchanged.\<close>

theorem normalize_object_name_canonical:
  "normalize_object_name v = Inr s \<Longrightarrow>
     canonical_name s \<and> s = strip v \<and> normalize_object_name s = Inr s"
  by (auto simp: normalize_object_name_eq split: if_splits)

theorem normalize_object_name_canonical_witness:
  "canonical_name ''a b'' \<and> normalize_object_name ''a b'' = Inr ''a b''"
proof -
  have "normalize_object_name '' a b '' = Inr ''a b''" by code_simp
  from normalize_object_name_canonical [OF this] show ?thesis by blast
qed

lemma request_id_hex: "set hexdigits \<subseteq> set request_id_chars"
  by (simp add: hexdigits_def request_id_chars_def)

lemma new_request_id_match: "request_id_match (new_request_id u)"
proof -
  have "set ''req_'' \<subseteq> set request_id_chars" by (simp add: request_id_chars_def)
  then show ?thesis using uuid_hex_facts [of u] request_id_hex
    unfolding request_id_match_def new_request_id_def by (auto simp del: set_append simp add: set_append)
qed

text \<open>Whatever a client sends as a request id, the id that is logged and echoed has 1 to 64
  characters from the safe alphabet; a well-formed id is kept as it is.\<close>

theorem normalize_request_id_safe:
  "request_id_match (normalize_request_id u v) \<and>
   (request_id_match s \<and> strip s = s \<longrightarrow> normalize_request_id u (Some s) = s)"
  by (auto simp: normalize_request_id_def Let_def new_request_id_match)

theorem normalize_request_id_safe_witness:
  "request_id_match (normalize_request_id 7 (Some ''bad id'')) \<and>
   normalize_request_id 7 (Some ''req-1'') = ''req-1''"
proof -
  have "request_id_match ''req-1'' \<and> strip ''req-1'' = ''req-1''" by code_simp
  then show ?thesis using normalize_request_id_safe [of 7 "Some ''bad id''" "''req-1''"] by simp
qed

text \<open>The object lifecycle has no way back: a run of allowed transitions that ends in the state
  it started in never left that state.\<close>

theorem object_lifecycle_no_return:
  "run_moves OBJECT_STATE_TRANSITIONS s ts = Some s \<Longrightarrow> set ts \<subseteq> {s}"
  by (rule object_lc.run_no_return)

theorem object_lifecycle_no_return_witness:
  "run_moves OBJECT_STATE_TRANSITIONS OS_DELETING [OS_DELETING] = Some OS_DELETING \<and>
   set [OS_DELETING] \<subseteq> {OS_DELETING}"
proof -
  have "run_moves OBJECT_STATE_TRANSITIONS OS_DELETING [OS_DELETING] = Some OS_DELETING"
    by (simp add: move_state_def)
  with object_lifecycle_no_return [OF this] show ?thesis by simp
qed

end
