(* ===== verification/Metadata_Model.thy ===== *)
theory Metadata_Model
  imports Vault_Common
begin

text \<open>
  The tables of \<^verbatim>\<open>metadata/models.py\<close>: one record per row class, one list per table.
  Times are microseconds in UTC. The audit columns \<open>created_at\<close>/\<open>updated_at\<close> are kept
  only for the job tables, where queries order by them. The schema's constraints and the
  agreements between tables that the control plane relies on form \<open>db_inv\<close>; the lemmas of
  the second half say which elementary table changes preserve it.
\<close>

type_synonym time = int

section \<open>Rows and tables\<close>

record object_row =
  o_id :: uuid
  o_name :: string
  o_current_version_id :: "uuid option"
  o_state :: object_state

record version_row =
  v_id :: uuid
  v_object_id :: uuid
  v_number :: int
  v_size :: int
  v_checksum :: string
  v_state :: version_state
  v_committed_at :: "time option"

record node_row =
  n_id :: string
  n_address :: string
  n_status :: node_state
  n_capacity :: int
  n_used :: int
  n_last_heartbeat_at :: "time option"

record replica_row =
  r_id :: uuid
  r_version_id :: uuid
  r_node_id :: string
  r_status :: replica_state
  r_checksum :: "string option"
  r_size :: "int option"
  r_last_verified_at :: "time option"

text \<open>What \<open>last_error\<close> holds: a fixed text or the text of an exception.\<close>

datatype err_text = ErrLit string | ErrExn exn

record repair_job =
  rp_id :: uuid
  rp_version_id :: uuid
  rp_source :: string
  rp_target :: string
  rp_reason :: string
  rp_status :: job_status
  rp_attempts :: int
  rp_last_error :: "err_text option"
  rp_created_at :: time

record integrity_job =
  ig_id :: uuid
  ig_node_id :: "string option"
  ig_version_id :: "uuid option"
  ig_status :: job_status
  ig_attempts :: int
  ig_checked :: int
  ig_corrupted :: int
  ig_last_error :: "err_text option"
  ig_created_at :: time

record rebalance_job =
  rb_id :: uuid
  rb_version_id :: uuid
  rb_source :: string
  rb_target :: string
  rb_status :: job_status
  rb_attempts :: int
  rb_last_error :: "err_text option"
  rb_created_at :: time

record db =
  objects :: "object_row list"
  versions :: "version_row list"
  nodes :: "node_row list"
  replicas :: "replica_row list"
  repair_jobs :: "repair_job list"
  integrity_jobs :: "integrity_job list"
  rebalance_jobs :: "rebalance_job list"

definition empty_db :: db where
  "empty_db = \<lparr>objects = [], versions = [], nodes = [], replicas = [], repair_jobs = [],
     integrity_jobs = [], rebalance_jobs = []\<rparr>"

definition free_bytes :: "node_row \<Rightarrow> int" where
  "free_bytes n = max 0 (n_capacity n - n_used n)"

section \<open>Primary-key access\<close>

abbreviation get_object_row :: "db \<Rightarrow> uuid \<Rightarrow> object_row option" where
  "get_object_row d i \<equiv> lookup_by o_id i (objects d)"

abbreviation get_version_row :: "db \<Rightarrow> uuid \<Rightarrow> version_row option" where
  "get_version_row d i \<equiv> lookup_by v_id i (versions d)"

abbreviation get_node_row :: "db \<Rightarrow> string \<Rightarrow> node_row option" where
  "get_node_row d i \<equiv> lookup_by n_id i (nodes d)"

abbreviation get_replica_row :: "db \<Rightarrow> uuid \<Rightarrow> replica_row option" where
  "get_replica_row d i \<equiv> lookup_by r_id i (replicas d)"

definition upd_object :: "uuid \<Rightarrow> (object_row \<Rightarrow> object_row) \<Rightarrow> db \<Rightarrow> db" where
  "upd_object i f d = d\<lparr>objects := update_by o_id i f (objects d)\<rparr>"

definition upd_version :: "uuid \<Rightarrow> (version_row \<Rightarrow> version_row) \<Rightarrow> db \<Rightarrow> db" where
  "upd_version i f d = d\<lparr>versions := update_by v_id i f (versions d)\<rparr>"

definition upd_node :: "string \<Rightarrow> (node_row \<Rightarrow> node_row) \<Rightarrow> db \<Rightarrow> db" where
  "upd_node i f d = d\<lparr>nodes := update_by n_id i f (nodes d)\<rparr>"

definition upd_replica :: "uuid \<Rightarrow> (replica_row \<Rightarrow> replica_row) \<Rightarrow> db \<Rightarrow> db" where
  "upd_replica i f d = d\<lparr>replicas := update_by r_id i f (replicas d)\<rparr>"

lemmas upd_defs = upd_object_def upd_version_def upd_node_def upd_replica_def

text \<open>The replica of a version on a node, unique by \<open>uq_replicas_version_node\<close>.\<close>

definition replica_on :: "db \<Rightarrow> uuid \<Rightarrow> string \<Rightarrow> replica_row option" where
  "replica_on d vid nid = lookup_by (\<lambda>r. (r_version_id r, r_node_id r)) (vid, nid) (replicas d)"

definition healthy_count :: "db \<Rightarrow> uuid \<Rightarrow> nat" where
  "healthy_count d vid =
     count_rows (\<lambda>r. r_version_id r = vid \<and> r_status r = RS_HEALTHY) (replicas d)"

section \<open>The invariant\<close>

definition keys_ok :: "db \<Rightarrow> bool" where
  "keys_ok d \<longleftrightarrow>
     distinct (map o_id (objects d)) \<and> distinct (map o_name (objects d)) \<and>
     distinct (map v_id (versions d)) \<and>
     distinct (map (\<lambda>v. (v_object_id v, v_number v)) (versions d)) \<and>
     distinct (map n_id (nodes d)) \<and> distinct (map n_address (nodes d)) \<and>
     distinct (map r_id (replicas d)) \<and>
     distinct (map (\<lambda>r. (r_version_id r, r_node_id r)) (replicas d))"

definition refs_ok :: "db \<Rightarrow> bool" where
  "refs_ok d \<longleftrightarrow>
     v_object_id ` set (versions d) \<subseteq> o_id ` set (objects d) \<and>
     r_version_id ` set (replicas d) \<subseteq> v_id ` set (versions d) \<and>
     r_node_id ` set (replicas d) \<subseteq> n_id ` set (nodes d)"

definition checksum_ok :: "string \<Rightarrow> bool" where
  "checksum_ok c \<longleftrightarrow> length c = 64 \<and> set c \<subseteq> set hexdigits"

definition vals_ok :: "db \<Rightarrow> bool" where
  "vals_ok d \<longleftrightarrow>
     (\<forall>ob\<in>set (objects d). canonical_name (o_name ob)) \<and>
     (\<forall>v\<in>set (versions d). 0 < v_number v \<and> 0 \<le> v_size v \<and> checksum_ok (v_checksum v)) \<and>
     (\<forall>n\<in>set (nodes d). n_id n \<noteq> [] \<and> strip (n_id n) = n_id n \<and> 0 \<le> n_used n \<and> n_used n \<le> n_capacity n)"

definition current_for :: "version_row list \<Rightarrow> object_row \<Rightarrow> bool" where
  "current_for vs ob \<longleftrightarrow>
     (case o_current_version_id ob of
        None \<Rightarrow> \<forall>v\<in>set vs. v_object_id v = o_id ob \<longrightarrow> v_state v \<noteq> VS_COMMITTED
      | Some c \<Rightarrow> \<exists>v\<in>set vs. v_id v = c \<and> v_object_id v = o_id ob \<and> v_state v = VS_COMMITTED \<and>
          (\<forall>w\<in>set vs. v_object_id w = o_id ob \<longrightarrow> v_state w = VS_COMMITTED \<longrightarrow> v_number w \<le> v_number v))"

definition current_ok :: "db \<Rightarrow> bool" where
  "current_ok d \<longleftrightarrow> (\<forall>ob\<in>set (objects d). current_for (versions d) ob)"

definition healthy_for :: "version_row list \<Rightarrow> replica_row \<Rightarrow> bool" where
  "healthy_for vs r \<longleftrightarrow> (r_status r = RS_HEALTHY \<longrightarrow>
     (\<exists>v\<in>set vs. v_id v = r_version_id r \<and> r_checksum r = Some (v_checksum v) \<and>
        r_size r = Some (v_size v)) \<and> r_last_verified_at r \<noteq> None)"

definition healthy_ok :: "db \<Rightarrow> bool" where
  "healthy_ok d \<longleftrightarrow> (\<forall>r\<in>set (replicas d). healthy_for (versions d) r)"

definition jobs_ok :: "db \<Rightarrow> bool" where
  "jobs_ok d \<longleftrightarrow>
     distinct (map rp_id (repair_jobs d)) \<and> distinct (map ig_id (integrity_jobs d)) \<and>
     distinct (map rb_id (rebalance_jobs d)) \<and>
     (\<forall>j\<in>set (repair_jobs d). rp_version_id j \<in> v_id ` set (versions d) \<and>
        rp_source j \<in> n_id ` set (nodes d) \<and> rp_target j \<in> n_id ` set (nodes d) \<and> 0 \<le> rp_attempts j) \<and>
     (\<forall>j\<in>set (rebalance_jobs d). rb_version_id j \<in> v_id ` set (versions d) \<and>
        rb_source j \<in> n_id ` set (nodes d) \<and> rb_target j \<in> n_id ` set (nodes d) \<and> 0 \<le> rb_attempts j)"

definition db_inv :: "db \<Rightarrow> bool" where
  "db_inv d \<longleftrightarrow> keys_ok d \<and> refs_ok d \<and> vals_ok d \<and> current_ok d \<and> healthy_ok d \<and> jobs_ok d"

lemmas inv_defs = db_inv_def keys_ok_def refs_ok_def vals_ok_def current_ok_def healthy_ok_def
  jobs_ok_def

lemma db_inv_empty: "db_inv empty_db"
  by (simp add: inv_defs empty_db_def)

lemma db_inv_distinct:
  assumes "db_inv d"
  shows "distinct (map o_id (objects d))" "distinct (map o_name (objects d))"
    "distinct (map v_id (versions d))" "distinct (map n_id (nodes d))"
    "distinct (map n_address (nodes d))" "distinct (map r_id (replicas d))"
    "distinct (map (\<lambda>r. (r_version_id r, r_node_id r)) (replicas d))"
    "distinct (map rp_id (repair_jobs d))" "distinct (map rb_id (rebalance_jobs d))"
    "distinct (map ig_id (integrity_jobs d))"
  using assms by (simp_all add: inv_defs)

lemma replica_version_exists:
  "db_inv d \<Longrightarrow> r \<in> set (replicas d) \<Longrightarrow> \<exists>v. get_version_row d (r_version_id r) = Some v"
  by (rule lookup_by_ex) (auto simp: inv_defs)

lemma replica_node_exists:
  "db_inv d \<Longrightarrow> r \<in> set (replicas d) \<Longrightarrow> \<exists>n. get_node_row d (r_node_id r) = Some n"
  by (rule lookup_by_ex) (auto simp: inv_defs)

text \<open>A HEALTHY replica carries the checksum and the size of its version.\<close>

lemma healthy_replicaD:
  assumes "db_inv d" "r \<in> set (replicas d)" "r_status r = RS_HEALTHY"
    "get_version_row d (r_version_id r) = Some v"
  shows "r_checksum r = Some (v_checksum v)" "r_size r = Some (v_size v)"
    "r_last_verified_at r \<noteq> None"
proof -
  from assms(1-3) obtain w where w: "w \<in> set (versions d)" "v_id w = r_version_id r"
    "r_checksum r = Some (v_checksum w)" "r_size r = Some (v_size w)" "r_last_verified_at r \<noteq> None"
    by (auto simp: inv_defs healthy_for_def)
  have "w = v"
    using w(1,2) assms(4) lookup_by_Some_iff [OF db_inv_distinct(3) [OF assms(1)]]
    by (metis option.inject)
  with w show "r_checksum r = Some (v_checksum v)" "r_size r = Some (v_size v)"
    "r_last_verified_at r \<noteq> None" by simp_all
qed

section \<open>Elementary changes that keep the invariant\<close>

lemma inv_add_object:
  assumes "db_inv d" "o_id ob \<notin> o_id ` set (objects d)" "o_name ob \<notin> o_name ` set (objects d)"
    "canonical_name (o_name ob)" "o_current_version_id ob = None"
    "\<forall>v\<in>set (versions d). v_object_id v \<noteq> o_id ob"
  shows "db_inv (d\<lparr>objects := objects d @ [ob]\<rparr>)"
  using assms by (auto simp: inv_defs current_for_def)

lemma current_for_irrelevant:
  assumes "v_state v \<noteq> VS_COMMITTED"
  shows "current_for (vs @ [v]) ob \<longleftrightarrow> current_for vs ob"
  using assms by (auto simp: current_for_def split: option.splits)

lemma healthy_for_mono: "set vs \<subseteq> set ws \<Longrightarrow> healthy_for vs r \<Longrightarrow> healthy_for ws r"
  by (auto simp: healthy_for_def)

lemma healthy_for_update:
  assumes "\<And>v. v_id (f v) = v_id v" "\<And>v. v_checksum (f v) = v_checksum v"
    "\<And>v. v_size (f v) = v_size v" "healthy_for vs r"
  shows "healthy_for (update_by v_id i f vs) r"
proof -
  have "\<exists>w\<in>set (update_by v_id i f vs). v_id w = v_id v \<and> v_checksum w = v_checksum v \<and> v_size w = v_size v"
    if "v \<in> set vs" for v
    using that assms(1-3) unfolding set_update_by by (intro bexI [OF _ imageI [OF that]]) simp
  with assms(4) show ?thesis unfolding healthy_for_def by metis
qed

lemma inv_add_version:
  assumes "db_inv d" "v_id v \<notin> v_id ` set (versions d)" "v_object_id v \<in> o_id ` set (objects d)"
    "\<forall>w\<in>set (versions d). v_object_id w = v_object_id v \<longrightarrow> v_number w < v_number v"
    "0 < v_number v" "0 \<le> v_size v" "checksum_ok (v_checksum v)" "v_state v \<noteq> VS_COMMITTED"
  shows "db_inv (d\<lparr>versions := versions d @ [v]\<rparr>)"
proof -
  have "(v_object_id v, v_number v) \<notin> (\<lambda>v. (v_object_id v, v_number v)) ` set (versions d)"
    using assms(4) by force
  moreover have "\<forall>r\<in>set (replicas d). healthy_for (versions d @ [v]) r"
    using assms(1) by (auto simp: db_inv_def healthy_ok_def intro: healthy_for_mono [rotated])
  ultimately show ?thesis using assms by (auto simp: inv_defs current_for_irrelevant)
qed

lemma inv_add_node:
  assumes "db_inv d" "n_id n \<notin> n_id ` set (nodes d)" "n_address n \<notin> n_address ` set (nodes d)"
    "n_id n \<noteq> []" "strip (n_id n) = n_id n" "0 \<le> n_used n" "n_used n \<le> n_capacity n"
  shows "db_inv (d\<lparr>nodes := nodes d @ [n]\<rparr>)"
  using assms by (auto simp: inv_defs)

lemma inv_add_replica:
  assumes "db_inv d" "r_id r \<notin> r_id ` set (replicas d)" "r_version_id r \<in> v_id ` set (versions d)"
    "r_node_id r \<in> n_id ` set (nodes d)" "replica_on d (r_version_id r) (r_node_id r) = None"
    "r_status r \<noteq> RS_HEALTHY"
  shows "db_inv (d\<lparr>replicas := replicas d @ [r]\<rparr>)"
  using assms by (auto simp: inv_defs healthy_for_def replica_on_def lookup_by_None_iff)

lemma inv_remove_replica: "db_inv d \<Longrightarrow> db_inv (d\<lparr>replicas := remove_by r_id i (replicas d)\<rparr>)"
  by (auto simp: inv_defs set_remove_by distinct_map_remove_by)

text \<open>Updates of one row that leave its keys and its references alone.\<close>

lemma current_for_state [simp]: "current_for vs (ob\<lparr>o_state := st\<rparr>) = current_for vs ob"
  by (simp add: current_for_def split: option.split)

lemma inv_upd_object_state:
  assumes "db_inv d"
  shows "db_inv (upd_object i (\<lambda>ob. ob\<lparr>o_state := st\<rparr>) d)"
  using assms by (auto simp: inv_defs upd_object_def map_update_by image_update_by
      elim!: in_update_byE)

lemma inv_upd_node:
  assumes "db_inv d" "\<And>n. n_id (f n) = n_id n" "\<And>n. n_address (f n) = n_address n"
    "\<And>n. n \<in> set (nodes d) \<Longrightarrow> n_id n = i \<Longrightarrow> 0 \<le> n_used (f n) \<and> n_used (f n) \<le> n_capacity (f n)"
  shows "db_inv (upd_node i f d)"
  using assms by (auto simp: inv_defs upd_node_def map_update_by image_update_by elim!: in_update_byE)

lemma inv_map_replicas:
  assumes "db_inv d" "\<And>r. r_id (g r) = r_id r" "\<And>r. r_version_id (g r) = r_version_id r"
    "\<And>r. r_node_id (g r) = r_node_id r"
    "\<And>r. r \<in> set (replicas d) \<Longrightarrow> healthy_for (versions d) (g r)"
  shows "db_inv (d\<lparr>replicas := map g (replicas d)\<rparr>)"
  using assms by (auto simp: inv_defs comp_def image_image)

lemma inv_upd_replica:
  assumes "db_inv d" "\<And>r. r_id (f r) = r_id r" "\<And>r. r_version_id (f r) = r_version_id r"
    "\<And>r. r_node_id (f r) = r_node_id r"
    "\<And>r. r \<in> set (replicas d) \<Longrightarrow> r_id r = i \<Longrightarrow> healthy_for (versions d) (f r)"
  shows "db_inv (upd_replica i f d)"
  unfolding upd_replica_def update_by_def
  by (rule inv_map_replicas) (use assms in \<open>auto simp: db_inv_def healthy_ok_def\<close>)

lemma inv_fail_version:
  assumes "db_inv d" "get_version_row d i = Some v" "v_state v \<noteq> VS_COMMITTED" "st \<noteq> VS_COMMITTED"
  shows "db_inv (upd_version i (\<lambda>v. v\<lparr>v_state := st\<rparr>) d)"
proof -
  let ?f = "\<lambda>v :: version_row. v\<lparr>v_state := st\<rparr>"
  let ?u = "update_by v_id i ?f (versions d)"
  have only: "w = v" if "w \<in> set (versions d)" "v_id w = i" for w
    using that assms(2) lookup_by_Some_iff [OF db_inv_distinct(3) [OF assms(1)]]
    by (metis option.inject)
  have cur: "current_for ?u ob" if c: "current_for (versions d) ob" for ob
  proof (cases "o_current_version_id ob")
    case None
    with c assms(4) show ?thesis by (auto simp: current_for_def elim!: in_update_byE)
  next
    case (Some cv)
    with c obtain w where w: "w \<in> set (versions d)" "v_id w = cv" "v_object_id w = o_id ob"
      "v_state w = VS_COMMITTED"
      "\<forall>x\<in>set (versions d). v_object_id x = o_id ob \<longrightarrow> v_state x = VS_COMMITTED \<longrightarrow> v_number x \<le> v_number w"
      by (auto simp: current_for_def)
    then have "v_id w \<noteq> i" using only assms(3) by blast
    then have "w \<in> set ?u" using w(1) by (auto simp: set_update_by)
    moreover have "\<forall>x\<in>set ?u. v_object_id x = o_id ob \<longrightarrow> v_state x = VS_COMMITTED \<longrightarrow>
        v_number x \<le> v_number w"
      using w(5) assms(4) by (auto elim!: in_update_byE)
    ultimately show ?thesis using w Some by (auto simp: current_for_def)
  qed
  have hl: "healthy_for ?u r" if "healthy_for (versions d) r" for r
    using that by (simp add: healthy_for_update)
  have "\<forall>w\<in>set ?u. 0 < v_number w \<and> 0 \<le> v_size w \<and> checksum_ok (v_checksum w)"
    using assms(1) by (auto simp: inv_defs elim!: in_update_byE)
  then show ?thesis using assms(1) cur hl
    by (auto simp: inv_defs upd_version_def map_update_by image_update_by)
qed

end
