(* ===== verification/Metadata_Manager.thy ===== *)
theory Metadata_Manager
  imports Metadata_Model
begin

text \<open>
  The operations of \<^verbatim>\<open>metadata/manager.py\<close>. Each public method runs one transaction; its
  model is a function from the tables to an exception or to the returned row and the new
  tables, so a raise leaves the tables as they were. Fresh UUIDs and the current time are
  arguments. A primary key that is already taken is the database's \<open>DbError\<close>.

  The second half proves that every operation preserves \<open>db_inv\<close>, and the behaviours the
  control plane relies on: optimistic concurrency of commits, the replica lifecycle,
  monotone heartbeats, and the agreement of the batched and the single state change.
\<close>

section \<open>Operations\<close>

definition validate_checksum :: "string \<Rightarrow> exn + string" where
  "validate_checksum checksum =
     (if length checksum \<noteq> 64 then Inl ValueError
      else let normalized = lower checksum in
        if \<exists>ch\<in>set normalized. ch \<notin> set hexdigits then Inl ValueError else Inr normalized)"

definition get_object :: "string \<Rightarrow> db \<Rightarrow> exn + object_row option" where
  "get_object name d = bindE (normalize_object_name name) (\<lambda>nm. Inr (lookup_by o_name nm (objects d)))"

definition get_object_or_raise :: "string \<Rightarrow> db \<Rightarrow> exn + object_row" where
  "get_object_or_raise name d =
     bindE (get_object name d) (\<lambda>ob. some_or (VaultE (ObjectNotFound (TextId (strip name)))) ob)"

definition create_object :: "uuid \<Rightarrow> string \<Rightarrow> db \<Rightarrow> exn + object_row \<times> db" where
  "create_object new_id name d =
     bindE (normalize_object_name name) (\<lambda>nm.
       case lookup_by o_name nm (objects d) of
         Some _ \<Rightarrow> Inl (VaultE (ObjectAlreadyExists (TextId nm)))
       | None \<Rightarrow>
           if new_id \<in> o_id ` set (objects d) then Inl DbError
           else let ob = \<lparr>o_id = new_id, o_name = nm, o_current_version_id = None, o_state = OS_ACTIVE\<rparr>
             in Inr (ob, d\<lparr>objects := objects d @ [ob]\<rparr>))"

definition lock_object :: "uuid \<Rightarrow> db \<Rightarrow> exn + object_row" where
  "lock_object i d = some_or (VaultE (ObjectNotFound (UuidId i))) (get_object_row d i)"

definition current_version_number :: "object_row \<Rightarrow> db \<Rightarrow> exn + int option" where
  "current_version_number ob d =
     (case o_current_version_id ob of
        None \<Rightarrow> Inr None
      | Some c \<Rightarrow> bindE (some_or (VaultE InvalidState) (get_version_row d c)) (\<lambda>v. Inr (Some (v_number v))))"

definition validate_expected_version :: "int option \<Rightarrow> exn + unit" where
  "validate_expected_version value =
     (case value of None \<Rightarrow> Inr () | Some n \<Rightarrow> if n < 0 then Inl ValueError else Inr ())"

definition expected_matches :: "int option \<Rightarrow> int option \<Rightarrow> bool" where
  "expected_matches expected current =
     (case expected of
        None \<Rightarrow> True
      | Some e \<Rightarrow> (case current of None \<Rightarrow> 0 | Some n \<Rightarrow> n) = e)"

definition max_version_number :: "db \<Rightarrow> uuid \<Rightarrow> int option" where
  "max_version_number d i =
     (case map v_number (filter (\<lambda>v. v_object_id v = i) (versions d)) of
        [] \<Rightarrow> None
      | n # ns \<Rightarrow> Some (fold max ns n))"

definition create_version ::
  "uuid \<Rightarrow> uuid \<Rightarrow> int \<Rightarrow> string \<Rightarrow> int option \<Rightarrow> db \<Rightarrow> exn + version_row \<times> db" where
  "create_version new_id i size_bytes checksum expected d =
     (if size_bytes < 0 then Inl ValueError else
      bindE (validate_checksum checksum) (\<lambda>cs.
      bindE (validate_expected_version expected) (\<lambda>_.
      bindE (lock_object i d) (\<lambda>ob.
      if o_state ob \<noteq> OS_ACTIVE then Inl (VaultE InvalidState) else
      bindE (current_version_number ob d) (\<lambda>current.
      if \<not> expected_matches expected current then Inl (VaultE (VersionConflict expected current)) else
      let next_version = (case max_version_number d i of None \<Rightarrow> 0 | Some m \<Rightarrow> m) + 1;
          v = \<lparr>v_id = new_id, v_object_id = i, v_number = next_version, v_size = size_bytes,
               v_checksum = cs, v_state = VS_PREPARING, v_committed_at = None\<rparr>
      in if new_id \<in> v_id ` set (versions d) then Inl DbError
         else Inr (v, d\<lparr>versions := versions d @ [v]\<rparr>))))))"

definition commit_version :: "time \<Rightarrow> uuid \<Rightarrow> int option \<Rightarrow> db \<Rightarrow> exn + version_row \<times> db" where
  "commit_version now vid expected d =
     bindE (validate_expected_version expected) (\<lambda>_.
     bindE (some_or (VaultE (ObjectNotFound (UuidId vid))) (get_version_row d vid)) (\<lambda>v.
     bindE (lock_object (v_object_id v) d) (\<lambda>ob.
     bindE (current_version_number ob d) (\<lambda>current.
     if \<not> expected_matches expected current then Inl (VaultE (VersionConflict expected current))
     else if v_state v \<noteq> VS_PREPARING then Inl (VaultE InvalidState)
     else if (case current of None \<Rightarrow> False | Some n \<Rightarrow> v_number v \<le> n)
       then Inl (VaultE (VersionConflict (Some (v_number v)) current))
     else let v' = v\<lparr>v_state := VS_COMMITTED, v_committed_at := Some now\<rparr>
       in Inr (v', upd_object (o_id ob)
            (\<lambda>x. x\<lparr>o_current_version_id := Some (v_id v), o_state := OS_ACTIVE\<rparr>)
            (upd_version vid (\<lambda>x. x\<lparr>v_state := VS_COMMITTED, v_committed_at := Some now\<rparr>) d))))))"

definition transition_object_state :: "uuid \<Rightarrow> object_state \<Rightarrow> db \<Rightarrow> exn + object_row \<times> db" where
  "transition_object_state i st d =
     bindE (lock_object i d) (\<lambda>ob.
     if st = o_state ob then Inr (ob, d)
     else if st \<notin> OBJECT_STATE_TRANSITIONS (o_state ob) then Inl (VaultE InvalidState)
     else Inr (ob\<lparr>o_state := st\<rparr>, upd_object i (\<lambda>x. x\<lparr>o_state := st\<rparr>) d))"

definition fail_version :: "uuid \<Rightarrow> db \<Rightarrow> exn + version_row \<times> db" where
  "fail_version vid d =
     bindE (some_or (VaultE (ObjectNotFound (UuidId vid))) (get_version_row d vid)) (\<lambda>v.
     if v_state v = VS_COMMITTED then Inl (VaultE InvalidState)
     else Inr (v\<lparr>v_state := VS_FAILED\<rparr>, upd_version vid (\<lambda>x. x\<lparr>v_state := VS_FAILED\<rparr>) d))"

definition transition_node_state :: "string \<Rightarrow> node_state \<Rightarrow> db \<Rightarrow> exn + node_row \<times> db" where
  "transition_node_state node_id st d =
     (if strip node_id = [] then Inl ValueError else
      let nid = strip node_id in
      bindE (some_or (VaultE (ObjectNotFound (TextId nid))) (get_node_row d nid)) (\<lambda>n.
      if st = n_status n then Inr (n, d)
      else if st \<notin> NODE_STATE_TRANSITIONS (n_status n) then Inl (VaultE InvalidState)
      else Inr (n\<lparr>n_status := st\<rparr>, upd_node nid (\<lambda>x. x\<lparr>n_status := st\<rparr>) d)))"

definition new_replica :: "uuid \<Rightarrow> uuid \<Rightarrow> string \<Rightarrow> replica_row" where
  "new_replica i vid nid = \<lparr>r_id = i, r_version_id = vid, r_node_id = nid, r_status = RS_PENDING,
     r_checksum = None, r_size = None, r_last_verified_at = None\<rparr>"

definition new_replicas :: "uuid list \<Rightarrow> uuid \<Rightarrow> string list \<Rightarrow> replica_row list" where
  "new_replicas new_ids vid nids = map (\<lambda>(i, x). new_replica i vid x) (zip new_ids nids)"

definition create_replicas ::
  "uuid list \<Rightarrow> uuid \<Rightarrow> string list \<Rightarrow> db \<Rightarrow> exn + replica_row list \<times> db" where
  "create_replicas new_ids vid raw_node_ids d =
     (if raw_node_ids = [] \<or> (\<exists>x\<in>set raw_node_ids. strip x = []) then Inl ValueError else
      let normalized = map strip raw_node_ids in
      if length normalized \<noteq> card (set normalized) then Inl ValueError else
      if get_version_row d vid = None then Inl (VaultE (ObjectNotFound (UuidId vid))) else
      let missing = filter (\<lambda>x. x \<notin> n_id ` set (nodes d)) normalized in
      if missing \<noteq> [] then Inl (VaultE (ObjectNotFound (TextIds missing))) else
      if \<exists>x\<in>set normalized. replica_on d vid x \<noteq> None then Inl (VaultE InvalidState) else
      let rs = new_replicas new_ids vid normalized in
      if \<not> distinct (map r_id rs) \<or> (\<exists>r\<in>set rs. r_id r \<in> r_id ` set (replicas d)) then Inl DbError
      else Inr (rs, d\<lparr>replicas := replicas d @ rs\<rparr>))"

text \<open>The table both replica state operations carry.\<close>

fun replica_allowed :: "replica_state \<Rightarrow> replica_state set" where
  "replica_allowed RS_PENDING = {RS_REPAIRING, RS_COPYING, RS_FAILED}"
| "replica_allowed RS_COPYING = {RS_FAILED}"
| "replica_allowed RS_HEALTHY = {RS_STALE, RS_CORRUPTED, RS_UNAVAILABLE}"
| "replica_allowed RS_STALE = {RS_REPAIRING}"
| "replica_allowed RS_CORRUPTED = {RS_REPAIRING}"
| "replica_allowed RS_UNAVAILABLE = {RS_REPAIRING}"
| "replica_allowed RS_REPAIRING = {RS_COPYING, RS_FAILED}"
| "replica_allowed RS_FAILED = {}"

definition set_replica_states ::
  "uuid list \<Rightarrow> replica_state \<Rightarrow> db \<Rightarrow> exn + replica_row list \<times> db" where
  "set_replica_states ids st d =
     (if ids = [] then Inr ([], d) else
      if st = RS_HEALTHY then Inl (VaultE InvalidState) else
      let rs = filter (\<lambda>r. r_id r \<in> set ids) (replicas d) in
      if length rs \<noteq> card (set ids)
      then Inl (VaultE (ObjectNotFound (UuidIds (filter (\<lambda>i. i \<notin> r_id ` set rs) ids))))
      else if \<exists>r\<in>set rs. r_status r \<noteq> st \<and> st \<notin> replica_allowed (r_status r)
      then Inl (VaultE InvalidState)
      else Inr (map (\<lambda>r. r\<lparr>r_status := st\<rparr>) rs,
                d\<lparr>replicas := map (\<lambda>r. if r_id r \<in> set ids then r\<lparr>r_status := st\<rparr> else r) (replicas d)\<rparr>))"

definition create_replica :: "uuid \<Rightarrow> uuid \<Rightarrow> string \<Rightarrow> db \<Rightarrow> exn + replica_row \<times> db" where
  "create_replica new_id vid node_id d =
     (if strip node_id = [] then Inl ValueError else
      let nid = strip node_id in
      if get_version_row d vid = None then Inl (VaultE (ObjectNotFound (UuidId vid))) else
      if get_node_row d nid = None then Inl (VaultE (ObjectNotFound (TextId nid))) else
      if replica_on d vid nid \<noteq> None then Inl (VaultE InvalidState) else
      if new_id \<in> r_id ` set (replicas d) then Inl DbError
      else Inr (new_replica new_id vid nid, d\<lparr>replicas := replicas d @ [new_replica new_id vid nid]\<rparr>))"

definition lock_replica :: "uuid \<Rightarrow> db \<Rightarrow> exn + replica_row" where
  "lock_replica i d = some_or (VaultE (ObjectNotFound (UuidId i))) (get_replica_row d i)"

definition set_replica_state :: "uuid \<Rightarrow> replica_state \<Rightarrow> db \<Rightarrow> exn + replica_row \<times> db" where
  "set_replica_state rid st d =
     bindE (lock_replica rid d) (\<lambda>r.
     if r_status r = st then Inr (r, d)
     else if st \<notin> replica_allowed (r_status r) then Inl (VaultE InvalidState)
     else if st = RS_HEALTHY then Inl (VaultE InvalidState)
     else Inr (r\<lparr>r_status := st\<rparr>, upd_replica rid (\<lambda>x. x\<lparr>r_status := st\<rparr>) d))"

definition record_replica_verification ::
  "time \<Rightarrow> uuid \<Rightarrow> string \<Rightarrow> int \<Rightarrow> db \<Rightarrow> exn + replica_row \<times> db" where
  "record_replica_verification now rid checksum size_bytes d =
     bindE (validate_checksum checksum) (\<lambda>actual.
     if size_bytes < 0 then Inl ValueError else
     bindE (lock_replica rid d) (\<lambda>r.
     bindE (some_or (VaultE (ObjectNotFound (UuidId (r_version_id r)))) (get_version_row d (r_version_id r))) (\<lambda>v.
     if r_status r \<noteq> RS_HEALTHY then Inl (VaultE InvalidState)
     else if actual \<noteq> v_checksum v then Inl (VaultE (ChecksumMismatch (v_checksum v) actual))
     else if size_bytes \<noteq> v_size v then Inl (VaultE InvalidState)
     else let f = (\<lambda>x. x\<lparr>r_checksum := Some actual, r_size := Some size_bytes, r_last_verified_at := Some now\<rparr>)
       in Inr (f r, upd_replica rid f d))))"

definition mark_replica_healthy ::
  "time \<Rightarrow> uuid \<Rightarrow> string \<Rightarrow> int \<Rightarrow> db \<Rightarrow> exn + replica_row \<times> db" where
  "mark_replica_healthy now rid checksum size_bytes d =
     bindE (validate_checksum checksum) (\<lambda>actual.
     if size_bytes < 0 then Inl ValueError else
     bindE (lock_replica rid d) (\<lambda>r.
     bindE (some_or (VaultE (ObjectNotFound (UuidId (r_version_id r)))) (get_version_row d (r_version_id r))) (\<lambda>v.
     if actual \<noteq> v_checksum v then Inl (VaultE (ChecksumMismatch (v_checksum v) actual))
     else if size_bytes \<noteq> v_size v then Inl (VaultE InvalidState)
     else if r_status r \<notin> {RS_COPYING, RS_REPAIRING} then Inl (VaultE InvalidState)
     else let f = (\<lambda>x. x\<lparr>r_status := RS_HEALTHY, r_checksum := Some actual, r_size := Some size_bytes,
                          r_last_verified_at := Some now\<rparr>)
       in Inr (f r, upd_replica rid f d))))"

definition remove_replica :: "uuid \<Rightarrow> db \<Rightarrow> exn + replica_row \<times> db" where
  "remove_replica rid d =
     bindE (lock_replica rid d) (\<lambda>r.
     if r_status r \<notin> {RS_HEALTHY, RS_CORRUPTED, RS_STALE, RS_UNAVAILABLE} then Inl (VaultE InvalidState)
     else Inr (r, d\<lparr>replicas := remove_by r_id rid (replicas d)\<rparr>))"

definition register_node ::
  "uuid \<Rightarrow> string option \<Rightarrow> string \<Rightarrow> int \<Rightarrow> node_state \<Rightarrow> db \<Rightarrow> exn + node_row \<times> db" where
  "register_node fresh node_id address capacity st d =
     (if strip address = [] then Inl ValueError else
      if capacity < 0 then Inl ValueError else
      let addr = rstrip_slash (strip address) in
      case lookup_by n_address addr (nodes d) of
        Some existing \<Rightarrow>
          (case node_id of
             Some i \<Rightarrow> if n_id existing \<noteq> strip i then Inl (VaultE (ObjectAlreadyExists (TextId addr)))
                       else Inr (existing, d)
           | None \<Rightarrow> Inr (existing, d))
      | None \<Rightarrow>
          let nid = (case node_id of Some i \<Rightarrow> strip i | None \<Rightarrow> uuid_hex fresh) in
          if nid = [] then Inl ValueError else
          if get_node_row d nid \<noteq> None then Inl (VaultE (ObjectAlreadyExists (TextId nid))) else
          let n = \<lparr>n_id = nid, n_address = addr, n_status = st, n_capacity = capacity, n_used = 0,
                   n_last_heartbeat_at = None\<rparr>
          in Inr (n, d\<lparr>nodes := nodes d @ [n]\<rparr>))"

text \<open>A Python \<open>datetime\<close>: wall-clock microseconds and, when aware, the UTC offset.\<close>

datatype datetime = Datetime int "int option"

fun as_utc :: "datetime \<Rightarrow> time" where
  "as_utc (Datetime wall None) = wall"
| "as_utc (Datetime wall (Some offset)) = wall - offset"

definition process_node_heartbeat ::
  "string \<Rightarrow> int option \<Rightarrow> int option \<Rightarrow> datetime \<Rightarrow> db \<Rightarrow> exn + (node_row \<times> bool) \<times> db" where
  "process_node_heartbeat node_id capacity used heartbeat_at d =
     (if strip node_id = [] then Inl ValueError else
      if (case capacity of Some c \<Rightarrow> c < 0 | None \<Rightarrow> False) then Inl ValueError else
      if (case used of Some u \<Rightarrow> u < 0 | None \<Rightarrow> False) then Inl ValueError else
      let timestamp = as_utc heartbeat_at; nid = strip node_id in
      bindE (some_or (VaultE (ObjectNotFound (TextId nid))) (get_node_row d nid)) (\<lambda>n.
      if n_status n = NS_REMOVED then Inl (VaultE InvalidState) else
      if (case n_last_heartbeat_at n of None \<Rightarrow> False | Some current \<Rightarrow> timestamp \<le> current)
      then Inr ((n, False), d) else
      let next_capacity = (case capacity of None \<Rightarrow> n_capacity n | Some c \<Rightarrow> c);
          next_used = (case used of None \<Rightarrow> n_used n | Some u \<Rightarrow> u) in
      if next_capacity < next_used then Inl ValueError else
      let f = (\<lambda>x. x\<lparr>n_capacity := next_capacity, n_used := next_used, n_last_heartbeat_at := Some timestamp\<rparr>)
      in Inr ((f n, True), upd_node nid f d)))"

definition update_node_heartbeat ::
  "string \<Rightarrow> int option \<Rightarrow> int option \<Rightarrow> node_state option \<Rightarrow> datetime \<Rightarrow> db \<Rightarrow> (exn + node_row) \<times> db" where
  "update_node_heartbeat node_id capacity used st heartbeat_at d =
     (case process_node_heartbeat node_id capacity used heartbeat_at d of
        Inl e \<Rightarrow> (Inl e, d)
      | Inr ((n, accepted), d1) \<Rightarrow>
          (case st of
             None \<Rightarrow> (Inr n, d1)
           | Some s \<Rightarrow>
               if accepted \<and> n_status n \<noteq> s
               then (case transition_node_state (n_id n) s d1 of
                       Inl e \<Rightarrow> (Inl e, d1)
                     | Inr (n', d2) \<Rightarrow> (Inr n', d2))
               else (Inr n, d1)))"

section \<open>Every operation preserves the invariant\<close>

lemma validate_checksum_Inr: "validate_checksum c = Inr c' \<Longrightarrow> checksum_ok c' \<and> c' = lower c"
  by (auto simp: validate_checksum_def checksum_ok_def Let_def split: if_splits)

named_theorems op_inv \<open>preservation of the database invariant by the operations\<close>

lemma refs_object: "db_inv d \<Longrightarrow> v \<in> set (versions d) \<Longrightarrow> v_object_id v \<in> o_id ` set (objects d)"
  by (auto simp: inv_defs)

lemma create_object_inv [op_inv]:
  "create_object i nm d = Inr (x, d') \<Longrightarrow> db_inv d \<Longrightarrow> db_inv d'"
  by (auto simp: create_object_def result_iffs normalize_object_name_eq lookup_by_None_iff Let_def
      split: if_splits option.splits intro!: inv_add_object dest: refs_object)

lemma fold_max_ge: "n \<le> fold max ns n \<and> (\<forall>m\<in>set ns. m \<le> fold max ns n)" for n :: int
proof (induction ns arbitrary: n)
  case (Cons m ns)
  from Cons.IH [of "max m n"] show ?case by auto
qed simp

lemma max_version_number_ge:
  assumes "v \<in> set (versions d)" "v_object_id v = i"
  shows "\<exists>m. max_version_number d i = Some m \<and> v_number v \<le> m"
proof -
  have "v_number v \<in> set (map v_number (filter (\<lambda>v. v_object_id v = i) (versions d)))"
    using assms by auto
  then show ?thesis
    unfolding max_version_number_def
    by (cases "map v_number (filter (\<lambda>v. v_object_id v = i) (versions d))")
      (use fold_max_ge in \<open>auto simp del: set_map\<close>)
qed

lemma max_version_number_None: "max_version_number d i = None \<Longrightarrow> \<forall>v\<in>set (versions d). v_object_id v \<noteq> i"
  using max_version_number_ge by fastforce

lemma max_version_number_nonneg:
  assumes "db_inv d" "max_version_number d i = Some m"
  shows "0 < m"
proof -
  from assms(2) have "filter (\<lambda>v. v_object_id v = i) (versions d) \<noteq> []"
    by (auto simp: max_version_number_def)
  then obtain v where "v \<in> set (versions d)" "v_object_id v = i"
    by (auto simp: filter_empty_conv)
  with assms max_version_number_ge [of v d i] show ?thesis by (force simp: inv_defs)
qed

lemma create_version_inv [op_inv]:
  assumes "create_version new i s c e d = Inr (x, d')" "db_inv d"
  shows "db_inv d'"
proof -
  let ?n = "(case max_version_number d i of None \<Rightarrow> 0 | Some m \<Rightarrow> m) + 1"
  have x: "d' = d\<lparr>versions := versions d @ [x]\<rparr>" "v_id x \<notin> v_id ` set (versions d)"
      "v_object_id x = i" "v_number x = ?n" "0 \<le> v_size x" "checksum_ok (v_checksum x)"
      "v_state x = VS_PREPARING" "i \<in> o_id ` set (objects d)"
    using assms(1) by (auto simp: create_version_def lock_object_def result_iffs Let_def
        split: if_splits dest!: validate_checksum_Inr dest: lookup_by_keyD)
  have "\<forall>w\<in>set (versions d). v_object_id w = i \<longrightarrow> v_number w < ?n"
    using max_version_number_ge [of _ d i] by fastforce
  moreover have "0 < ?n" using max_version_number_nonneg [OF assms(2), of i] by (fastforce split: option.splits)
  ultimately show ?thesis unfolding x(1) using x assms(2) by (intro inv_add_version) auto
qed

lemma fail_version_inv [op_inv]: "fail_version i d = Inr (x, d') \<Longrightarrow> db_inv d \<Longrightarrow> db_inv d'"
  by (auto simp: fail_version_def result_iffs split: if_splits intro!: inv_fail_version)

lemma transition_object_state_inv [op_inv]:
  "transition_object_state i st d = Inr (x, d') \<Longrightarrow> db_inv d \<Longrightarrow> db_inv d'"
  by (auto simp: transition_object_state_def result_iffs split: if_splits intro!: inv_upd_object_state)

lemma transition_node_state_inv [op_inv]:
  "transition_node_state i st d = Inr (x, d') \<Longrightarrow> db_inv d \<Longrightarrow> db_inv d'"
  by (auto simp: transition_node_state_def result_iffs Let_def split: if_splits intro!: inv_upd_node)
    (auto simp: inv_defs)

lemma create_replica_inv [op_inv]:
  "create_replica i vid n d = Inr (x, d') \<Longrightarrow> db_inv d \<Longrightarrow> db_inv d'"
  by (auto simp: create_replica_def Let_def lookup_by_None_iff new_replica_def split: if_splits
      intro!: inv_add_replica)

lemma replica_on_append:
  "replica_on (d\<lparr>replicas := replicas d @ rs\<rparr>) vid nid =
     (case replica_on d vid nid of None \<Rightarrow>
        lookup_by (\<lambda>r. (r_version_id r, r_node_id r)) (vid, nid) rs | Some r \<Rightarrow> Some r)"
  by (simp add: replica_on_def lookup_by_append)

lemma inv_add_replicas:
  assumes "db_inv d" "distinct (map r_id rs)" "distinct (map r_node_id rs)"
    "\<forall>r\<in>set rs. r_id r \<notin> r_id ` set (replicas d) \<and> r_version_id r \<in> v_id ` set (versions d) \<and>
       r_node_id r \<in> n_id ` set (nodes d) \<and> replica_on d (r_version_id r) (r_node_id r) = None \<and>
       r_status r \<noteq> RS_HEALTHY"
  shows "db_inv (d\<lparr>replicas := replicas d @ rs\<rparr>)"
  using assms
proof (induction rs rule: rev_induct)
  case (snoc r rs)
  let ?d = "d\<lparr>replicas := replicas d @ rs\<rparr>"
  have "db_inv ?d" using snoc by simp
  moreover have "replica_on ?d (r_version_id r) (r_node_id r) = None"
    using snoc.prems unfolding replica_on_append
    by (auto simp: lookup_by_None_iff rev_image_eqI)
  ultimately have "db_inv (?d\<lparr>replicas := replicas ?d @ [r]\<rparr>)"
    using snoc.prems by (intro inv_add_replica) (auto simp: rev_image_eqI)
  then show ?case by simp
qed simp

lemma create_replicas_shape:
  assumes "create_replicas ids vid ns d = Inr (rs, d')"
  shows "d' = d\<lparr>replicas := replicas d @ rs\<rparr>" "distinct (map r_id rs)"
    "distinct (map strip ns)" "\<forall>r\<in>set rs. r_id r \<notin> r_id ` set (replicas d)"
    "rs = new_replicas ids vid (map strip ns)" "get_version_row d vid \<noteq> None"
    "\<forall>x\<in>set (map strip ns). x \<in> n_id ` set (nodes d) \<and> replica_on d vid x = None"
  using assms by (auto simp: create_replicas_def Let_def filter_empty_conv card_distinct
      split: if_splits)

lemma new_replicas_facts:
  "map r_node_id (new_replicas ids vid ns) = take (length ids) ns"
  "map r_id (new_replicas ids vid ns) = take (length ns) ids"
  "r \<in> set (new_replicas ids vid ns) \<Longrightarrow>
     r_version_id r = vid \<and> r_node_id r \<in> set ns \<and> r_status r = RS_PENDING"
proof -
  show "map r_node_id (new_replicas ids vid ns) = take (length ids) ns"
    by (induction ids ns rule: list_induct2') (simp_all add: new_replicas_def new_replica_def)
  show "map r_id (new_replicas ids vid ns) = take (length ns) ids"
    by (induction ids ns rule: list_induct2') (simp_all add: new_replicas_def new_replica_def)
  show "r \<in> set (new_replicas ids vid ns) \<Longrightarrow>
     r_version_id r = vid \<and> r_node_id r \<in> set ns \<and> r_status r = RS_PENDING"
    by (auto simp: new_replicas_def new_replica_def dest: set_zip_rightD)
qed

lemma create_replicas_inv [op_inv]:
  assumes "create_replicas ids vid ns d = Inr (rs, d')" "db_inv d"
  shows "db_inv d'"
proof -
  note s = create_replicas_shape [OF assms(1)]
  have "distinct (map r_node_id rs)" using s(3) by (simp add: s(5) new_replicas_facts(1))
  moreover have "vid \<in> v_id ` set (versions d)" using s(6) by (auto dest: lookup_by_keyD)
  then have "r_id r \<notin> r_id ` set (replicas d) \<and> r_version_id r \<in> v_id ` set (versions d) \<and>
       r_node_id r \<in> n_id ` set (nodes d) \<and> replica_on d (r_version_id r) (r_node_id r) = None \<and>
       r_status r \<noteq> RS_HEALTHY" if "r \<in> set rs" for r
    using that s(4,7) new_replicas_facts(3) [of r ids vid "map strip ns"] by (auto simp: s(5))
  ultimately show ?thesis unfolding s(1) using s(2) assms(2) by (intro inv_add_replicas) auto
qed

lemma set_replica_states_inv [op_inv]:
  assumes "set_replica_states ids st d = Inr (rs, d')" "db_inv d"
  shows "db_inv d'"
proof (cases "ids = []")
  case True
  with assms show ?thesis by (simp add: set_replica_states_def)
next
  case False
  let ?g = "\<lambda>r. if r_id r \<in> set ids then r\<lparr>r_status := st\<rparr> else r"
  have d': "d' = d\<lparr>replicas := map ?g (replicas d)\<rparr>" and st: "st \<noteq> RS_HEALTHY"
    using assms(1) False by (auto simp: set_replica_states_def Let_def split: if_splits)
  show ?thesis unfolding d'
    by (rule inv_map_replicas) (use assms(2) st in \<open>auto simp: db_inv_def healthy_ok_def healthy_for_def\<close>)
qed

lemma set_replica_state_inv [op_inv]:
  "set_replica_state i st d = Inr (x, d') \<Longrightarrow> db_inv d \<Longrightarrow> db_inv d'"
  by (auto simp: set_replica_state_def result_iffs healthy_for_def split: if_splits
      intro!: inv_upd_replica)

text \<open>Writing the checksum and the size of its version to a replica.\<close>

lemma inv_upd_verified:
  assumes "db_inv d" "lock_replica i d = Inr r" "get_version_row d (r_version_id r) = Some v"
    "\<And>x. r_id (f x) = r_id x \<and> r_version_id (f x) = r_version_id x \<and> r_node_id (f x) = r_node_id x"
    "\<And>x. r_checksum (f x) = Some (v_checksum v) \<and> r_size (f x) = Some (v_size v) \<and>
       r_last_verified_at (f x) = Some now"
  shows "db_inv (upd_replica i f d)"
proof (rule inv_upd_replica)
  fix x
  assume x: "x \<in> set (replicas d)" "r_id x = i"
  have "get_replica_row d i = Some r" using assms(2) by (simp add: lock_replica_def result_iffs)
  then have "x = r" using x lookup_by_Some_iff [OF db_inv_distinct(6) [OF assms(1)]]
    by (metis option.inject)
  then show "healthy_for (versions d) (f x)"
    using lookup_by_SomeD [OF assms(3)] assms(4,5) [of r] by (auto simp: healthy_for_def)
qed (use assms in auto)

lemma record_replica_verification_inv [op_inv]:
  assumes "record_replica_verification now i c s d = Inr (x, d')" "db_inv d"
  shows "db_inv d'"
proof -
  from assms(1) obtain r v where "lock_replica i d = Inr r"
      "get_version_row d (r_version_id r) = Some v"
      "d' = upd_replica i (\<lambda>x. x\<lparr>r_checksum := Some (v_checksum v), r_size := Some (v_size v),
         r_last_verified_at := Some now\<rparr>) d"
    by (auto simp: record_replica_verification_def result_iffs Let_def split: if_splits)
  then show ?thesis using assms(2) by (auto intro!: inv_upd_verified)
qed

lemma mark_replica_healthy_shape:
  assumes "mark_replica_healthy now i c s d = Inr (x, d')"
  obtains r v where "lock_replica i d = Inr r" "get_version_row d (r_version_id r) = Some v"
    "r_status r \<in> {RS_COPYING, RS_REPAIRING}" "lower c = v_checksum v" "s = v_size v"
    "x = r\<lparr>r_status := RS_HEALTHY, r_checksum := Some (v_checksum v), r_size := Some (v_size v),
         r_last_verified_at := Some now\<rparr>"
    "d' = upd_replica i (\<lambda>x. x\<lparr>r_status := RS_HEALTHY, r_checksum := Some (v_checksum v),
         r_size := Some (v_size v), r_last_verified_at := Some now\<rparr>) d"
  using assms by (auto simp: mark_replica_healthy_def result_iffs Let_def split: if_splits
      dest!: validate_checksum_Inr)

lemma mark_replica_healthy_inv [op_inv]:
  assumes "mark_replica_healthy now i c s d = Inr (x, d')" "db_inv d"
  shows "db_inv d'"
  using assms(1)
proof (cases rule: mark_replica_healthy_shape)
  case (1 r v)
  then show ?thesis using assms(2) by (auto intro!: inv_upd_verified)
qed

lemma remove_replica_inv [op_inv]: "remove_replica i d = Inr (x, d') \<Longrightarrow> db_inv d \<Longrightarrow> db_inv d'"
  by (auto simp: remove_replica_def result_iffs split: if_splits intro!: inv_remove_replica)

lemma register_node_inv [op_inv]:
  "register_node u i a c st d = Inr (x, d') \<Longrightarrow> db_inv d \<Longrightarrow> db_inv d'"
  by (auto simp: register_node_def Let_def lookup_by_None_iff strip_uuid_hex split: if_splits option.splits
      intro!: inv_add_node)

lemma process_node_heartbeat_shape:
  assumes "process_node_heartbeat i c u t d = Inr ((x, acc), d')"
  obtains (stale) cur where "\<not> acc" "get_node_row d (strip i) = Some x" "d' = d"
      "n_last_heartbeat_at x = Some cur" "as_utc t \<le> cur"
    | (fresh) n cap us where "acc" "get_node_row d (strip i) = Some n" "n_status n \<noteq> NS_REMOVED"
      "cap = (case c of None \<Rightarrow> n_capacity n | Some c \<Rightarrow> c)"
      "us = (case u of None \<Rightarrow> n_used n | Some u \<Rightarrow> u)" "us \<le> cap"
      "x = n\<lparr>n_capacity := cap, n_used := us, n_last_heartbeat_at := Some (as_utc t)\<rparr>"
      "\<forall>cur. n_last_heartbeat_at n = Some cur \<longrightarrow> cur < as_utc t" "\<forall>u'. u = Some u' \<longrightarrow> 0 \<le> u'"
      "d' = upd_node (strip i)
         (\<lambda>x. x\<lparr>n_capacity := cap, n_used := us, n_last_heartbeat_at := Some (as_utc t)\<rparr>) d"
proof -
  from assms obtain n where n: "get_node_row d (strip i) = Some n" "n_status n \<noteq> NS_REMOVED"
    by (auto simp: process_node_heartbeat_def Let_def result_iffs split: if_splits)
  show thesis
  proof (cases "case n_last_heartbeat_at n of None \<Rightarrow> False | Some current \<Rightarrow> as_utc t \<le> current")
    case True
    with assms n show ?thesis
      by (intro stale [of "the (n_last_heartbeat_at n)"])
        (auto simp: process_node_heartbeat_def Let_def split: if_splits option.splits)
  next
    case False
    with assms n show ?thesis
      by (intro fresh [of n "case c of None \<Rightarrow> n_capacity n | Some c \<Rightarrow> c"
            "case u of None \<Rightarrow> n_used n | Some u \<Rightarrow> u"])
        (auto simp: process_node_heartbeat_def Let_def split: if_splits option.splits)
  qed
qed

lemma process_node_heartbeat_inv [op_inv]:
  assumes "process_node_heartbeat i c u t d = Inr (x, d')" "db_inv d"
  shows "db_inv d'"
proof -
  obtain n acc where x: "x = (n, acc)" by (cases x)
  from assms(1) [unfolded x] show ?thesis
  proof (cases rule: process_node_heartbeat_shape)
    case stale
    with assms(2) show ?thesis by simp
  next
    case (fresh n cap us)
    have "0 \<le> n_used n" using assms(2) lookup_by_SomeD [OF fresh(2)] by (simp add: inv_defs)
    then have "0 \<le> us" using fresh(5,9) by (auto split: option.splits)
    with fresh assms(2) show ?thesis by (auto intro!: inv_upd_node)
  qed
qed

text \<open>Committing a version moves the object's current version forward.\<close>

lemma commit_version_shape:
  assumes "commit_version now vid e d = Inr (x, d')" "db_inv d"
  obtains v ob where "get_version_row d vid = Some v" "get_object_row d (v_object_id v) = Some ob"
    "v_state v = VS_PREPARING" "x = v\<lparr>v_state := VS_COMMITTED, v_committed_at := Some now\<rparr>"
    "\<forall>w\<in>set (versions d). v_object_id w = o_id ob \<longrightarrow> v_state w = VS_COMMITTED \<longrightarrow> v_number w < v_number v"
    "\<exists>current. current_version_number ob d = Inr current \<and> expected_matches e current"
    "d' = upd_object (o_id ob) (\<lambda>x. x\<lparr>o_current_version_id := Some vid, o_state := OS_ACTIVE\<rparr>)
       (upd_version vid (\<lambda>x. x\<lparr>v_state := VS_COMMITTED, v_committed_at := Some now\<rparr>) d)"
proof -
  from assms(1) obtain v ob current where a: "get_version_row d vid = Some v"
      "get_object_row d (v_object_id v) = Some ob" "current_version_number ob d = Inr current"
      "expected_matches e current" "v_state v = VS_PREPARING"
      "\<not> (case current of None \<Rightarrow> False | Some n \<Rightarrow> v_number v \<le> n)"
      "x = v\<lparr>v_state := VS_COMMITTED, v_committed_at := Some now\<rparr>"
      "d' = upd_object (o_id ob) (\<lambda>x. x\<lparr>o_current_version_id := Some (v_id v), o_state := OS_ACTIVE\<rparr>)
         (upd_version vid (\<lambda>x. x\<lparr>v_state := VS_COMMITTED, v_committed_at := Some now\<rparr>) d)"
    by (auto simp: commit_version_def lock_object_def result_iffs Let_def split: if_splits)
  have id: "v_id v = vid" using lookup_by_SomeD [OF a(1)] by simp
  have "current_for (versions d) ob"
    using assms(2) lookup_by_SomeD [OF a(2)] by (simp add: inv_defs)
  then have "\<forall>w\<in>set (versions d). v_object_id w = o_id ob \<longrightarrow> v_state w = VS_COMMITTED \<longrightarrow> v_number w < v_number v"
  proof (cases "o_current_version_id ob")
    case None
    then show ?thesis using \<open>current_for (versions d) ob\<close> by (auto simp: current_for_def)
  next
    case (Some c)
    then obtain w where w: "w \<in> set (versions d)" "v_id w = c"
      "\<forall>x\<in>set (versions d). v_object_id x = o_id ob \<longrightarrow> v_state x = VS_COMMITTED \<longrightarrow> v_number x \<le> v_number w"
      using \<open>current_for (versions d) ob\<close> by (auto simp: current_for_def)
    then have "get_version_row d c = Some w"
      using lookup_by_Some_iff [OF db_inv_distinct(3) [OF assms(2)]] by blast
    with Some a(3) have "current = Some (v_number w)" by (simp add: current_version_number_def)
    with a(6) w(3) show ?thesis by force
  qed
  with a id that show thesis by blast
qed

lemma inv_commit:
  assumes "db_inv d" "get_version_row d vid = Some v" "get_object_row d (v_object_id v) = Some ob"
    "\<forall>w\<in>set (versions d). v_object_id w = o_id ob \<longrightarrow> v_state w = VS_COMMITTED \<longrightarrow> v_number w < v_number v"
  shows "db_inv (upd_object (o_id ob) (\<lambda>x. x\<lparr>o_current_version_id := Some vid, o_state := OS_ACTIVE\<rparr>)
       (upd_version vid (\<lambda>x. x\<lparr>v_state := VS_COMMITTED, v_committed_at := Some now\<rparr>) d))"
    (is "db_inv ?d'")
proof -
  let ?f = "\<lambda>x :: version_row. x\<lparr>v_state := VS_COMMITTED, v_committed_at := Some now\<rparr>"
  let ?g = "\<lambda>x :: object_row. x\<lparr>o_current_version_id := Some vid, o_state := OS_ACTIVE\<rparr>"
  let ?u = "update_by v_id vid ?f (versions d)"
  note v = lookup_by_SomeD [OF assms(2)] and ob = lookup_by_SomeD [OF assms(3)]
  have oid: "o_id ob = v_object_id v" using ob by simp
  have only: "w = v" if "w \<in> set (versions d)" "v_id w = vid" for w
    using that assms(2) lookup_by_Some_iff [OF db_inv_distinct(3) [OF assms(1)]]
    by (metis option.inject)
  have vin: "?f v \<in> set ?u" using v by (force simp: set_update_by)
  have le: "\<forall>w\<in>set ?u. v_object_id w = o_id ob \<longrightarrow> v_state w = VS_COMMITTED \<longrightarrow> v_number w \<le> v_number v"
    using assms(4) only by (fastforce elim!: in_update_byE)
  have own: "current_for ?u (?g x)" if "x \<in> set (objects d)" "o_id x = o_id ob" for x
    using vin le v that oid by (auto simp: current_for_def intro!: bexI [of _ "?f v"])
  have other: "current_for ?u x" if x: "x \<in> set (objects d)" "o_id x \<noteq> o_id ob" for x
  proof -
    have c: "current_for (versions d) x" using assms(1) x by (simp add: inv_defs)
    have out: "v_object_id w \<noteq> o_id x" if "w \<in> set (versions d)" "v_id w = vid" for w
      using only [OF that] oid x(2) by simp
    have "w \<in> set ?u \<longleftrightarrow> w \<in> set (versions d)" if "v_object_id w = o_id x" for w
      using that out by (auto simp: set_update_by image_iff split: if_splits)
    with c show ?thesis unfolding current_for_def by (cases "o_current_version_id x") auto
  qed
  have "\<forall>x\<in>set (update_by o_id (o_id ob) ?g (objects d)). current_for ?u x"
    using own other by (auto elim!: in_update_byE)
  moreover have "\<forall>w\<in>set ?u. 0 < v_number w \<and> 0 \<le> v_size w \<and> checksum_ok (v_checksum w)"
    using assms(1) by (auto simp: inv_defs elim!: in_update_byE)
  moreover have "\<forall>x\<in>set (update_by o_id (o_id ob) ?g (objects d)). canonical_name (o_name x)"
    using assms(1) by (auto simp: inv_defs elim!: in_update_byE)
  moreover have "\<forall>r\<in>set (replicas d). healthy_for ?u r"
    using assms(1) by (auto simp: db_inv_def healthy_ok_def intro!: healthy_for_update)
  ultimately show ?thesis using assms(1)
    by (simp add: inv_defs upd_object_def upd_version_def map_update_by image_update_by)
qed

lemma commit_version_inv [op_inv]:
  assumes "commit_version now vid e d = Inr (x, d')" "db_inv d"
  shows "db_inv d'"
  using assms
proof (cases rule: commit_version_shape)
  case (1 v ob)
  then show ?thesis using assms(2) by (auto intro!: inv_commit)
qed

lemma update_node_heartbeat_inv: "db_inv d \<Longrightarrow> db_inv (snd (update_node_heartbeat i c u st t d))"
  by (auto simp: update_node_heartbeat_def split: sum.splits option.splits prod.splits
      dest: process_node_heartbeat_inv transition_node_state_inv)

section \<open>The manager as a state machine\<close>

text \<open>One rule per public operation that can change the tables.\<close>

inductive meta_step :: "db \<Rightarrow> db \<Rightarrow> bool" where
  s_create_object: "create_object i nm d = Inr (x, d') \<Longrightarrow> meta_step d d'"
| s_create_version: "create_version i ob sz c e d = Inr (v, d') \<Longrightarrow> meta_step d d'"
| s_commit_version: "commit_version now vid e d = Inr (v, d') \<Longrightarrow> meta_step d d'"
| s_transition_object: "transition_object_state ob st d = Inr (x, d') \<Longrightarrow> meta_step d d'"
| s_fail_version: "fail_version vid d = Inr (v, d') \<Longrightarrow> meta_step d d'"
| s_transition_node: "transition_node_state nid nst d = Inr (n, d') \<Longrightarrow> meta_step d d'"
| s_create_replicas: "create_replicas ids vid ns d = Inr (rs, d') \<Longrightarrow> meta_step d d'"
| s_set_replica_states: "set_replica_states ids rst d = Inr (rs, d') \<Longrightarrow> meta_step d d'"
| s_create_replica: "create_replica i vid nid d = Inr (r, d') \<Longrightarrow> meta_step d d'"
| s_set_replica_state: "set_replica_state rid rst d = Inr (r, d') \<Longrightarrow> meta_step d d'"
| s_record_verification: "record_replica_verification now rid c sz d = Inr (r, d') \<Longrightarrow> meta_step d d'"
| s_mark_healthy: "mark_replica_healthy now rid c sz d = Inr (r, d') \<Longrightarrow> meta_step d d'"
| s_remove_replica: "remove_replica rid d = Inr (r, d') \<Longrightarrow> meta_step d d'"
| s_register_node: "register_node i nid' addr cap nst d = Inr (n, d') \<Longrightarrow> meta_step d d'"
| s_heartbeat: "process_node_heartbeat nid c' u' t d = Inr (nb, d') \<Longrightarrow> meta_step d d'"

inductive meta_reachable :: "db \<Rightarrow> db \<Rightarrow> bool" for d0 where
  start: "meta_reachable d0 d0"
| step: "meta_reachable d0 d \<Longrightarrow> meta_step d d' \<Longrightarrow> meta_reachable d0 d'"

lemma meta_step_inv: "meta_step d d' \<Longrightarrow> db_inv d \<Longrightarrow> db_inv d'"
  by (induction rule: meta_step.induct) (blast dest: op_inv)+

lemma meta_reachable_inv: "meta_reachable d0 d \<Longrightarrow> db_inv d0 \<Longrightarrow> db_inv d"
  by (induction rule: meta_reachable.induct) (auto dest: meta_step_inv)

lemma meta_reachable_trans: "meta_reachable d1 d2 \<Longrightarrow> meta_reachable d0 d1 \<Longrightarrow> meta_reachable d0 d2"
  by (induction rule: meta_reachable.induct) (auto intro: meta_reachable.step)

end
