(* ===== verification/Metadata_Spec.thy ===== *)
theory Metadata_Spec
  imports Metadata_Manager
begin

text \<open>
  What the metadata manager promises, as an abstract step relation on the tables: which
  row may change, from which state to which, and under which agreement with other rows.
  Every operation of \<^verbatim>\<open>metadata/manager.py\<close> refines one abstract step; the lifecycle,
  immutability and monotonicity theorems are then proved once, over the abstract steps, and
  carried to every sequence of operations.
\<close>

section \<open>Abstract steps\<close>

inductive spec_step :: "db \<Rightarrow> db \<Rightarrow> bool" where
  sp_skip: "spec_step d d"
| sp_object: "o_id ob \<notin> o_id ` set (objects d) \<Longrightarrow> o_name ob \<notin> o_name ` set (objects d) \<Longrightarrow>
    canonical_name (o_name ob) \<Longrightarrow> o_current_version_id ob = None \<Longrightarrow> o_state ob = OS_ACTIVE \<Longrightarrow>
    spec_step d (d\<lparr>objects := objects d @ [ob]\<rparr>)"
| sp_version: "v_id v \<notin> v_id ` set (versions d) \<Longrightarrow> v_state v = VS_PREPARING \<Longrightarrow>
    get_object_row d (v_object_id v) = Some ob \<Longrightarrow> o_state ob = OS_ACTIVE \<Longrightarrow>
    (\<forall>w\<in>set (versions d). v_object_id w = v_object_id v \<longrightarrow> v_number w < v_number v) \<Longrightarrow>
    spec_step d (d\<lparr>versions := versions d @ [v]\<rparr>)"
| sp_fail: "get_version_row d i = Some v \<Longrightarrow> v_state v \<noteq> VS_COMMITTED \<Longrightarrow>
    spec_step d (upd_version i (\<lambda>x. x\<lparr>v_state := VS_FAILED\<rparr>) d)"
| sp_commit: "get_version_row d i = Some v \<Longrightarrow> v_state v = VS_PREPARING \<Longrightarrow>
    get_object_row d (v_object_id v) = Some ob \<Longrightarrow>
    (\<forall>w\<in>set (versions d). v_object_id w = o_id ob \<longrightarrow> v_state w = VS_COMMITTED \<longrightarrow>
       v_number w < v_number v) \<Longrightarrow>
    spec_step d (upd_object (o_id ob) (\<lambda>x. x\<lparr>o_current_version_id := Some i, o_state := OS_ACTIVE\<rparr>)
      (upd_version i (\<lambda>x. x\<lparr>v_state := VS_COMMITTED, v_committed_at := Some now\<rparr>) d))"
| sp_object_state: "get_object_row d i = Some ob \<Longrightarrow> st \<in> OBJECT_STATE_TRANSITIONS (o_state ob) \<Longrightarrow>
    spec_step d (upd_object i (\<lambda>x. x\<lparr>o_state := st\<rparr>) d)"
| sp_node: "n_id n \<notin> n_id ` set (nodes d) \<Longrightarrow> n_address n \<notin> n_address ` set (nodes d) \<Longrightarrow>
    spec_step d (d\<lparr>nodes := nodes d @ [n]\<rparr>)"
| sp_node_state: "get_node_row d i = Some n \<Longrightarrow> nst \<in> NODE_STATE_TRANSITIONS (n_status n) \<Longrightarrow>
    spec_step d (upd_node i (\<lambda>x. x\<lparr>n_status := nst\<rparr>) d)"
| sp_heartbeat: "get_node_row d i = Some n \<Longrightarrow> n_status n \<noteq> NS_REMOVED \<Longrightarrow>
    (\<forall>c. n_last_heartbeat_at n = Some c \<longrightarrow> c < t) \<Longrightarrow> us \<le> cap \<Longrightarrow>
    spec_step d (upd_node i (\<lambda>x. x\<lparr>n_capacity := cap, n_used := us, n_last_heartbeat_at := Some t\<rparr>) d)"
| sp_replicas: "(\<forall>r\<in>set rs. r_status r = RS_PENDING \<and> r_id r \<notin> r_id ` set (replicas d) \<and>
      replica_on d (r_version_id r) (r_node_id r) = None) \<Longrightarrow>
    spec_step d (d\<lparr>replicas := replicas d @ rs\<rparr>)"
| sp_replica_states: "rst \<noteq> RS_HEALTHY \<Longrightarrow>
    (\<forall>r\<in>set (replicas d). r_id r \<in> ids \<longrightarrow> r_status r = rst \<or> rst \<in> replica_allowed (r_status r)) \<Longrightarrow>
    spec_step d (d\<lparr>replicas := map (\<lambda>r. if r_id r \<in> ids then r\<lparr>r_status := rst\<rparr> else r) (replicas d)\<rparr>)"
| sp_verified: "get_replica_row d i = Some r \<Longrightarrow> r_status r \<in> {RS_HEALTHY, RS_COPYING, RS_REPAIRING} \<Longrightarrow>
    get_version_row d (r_version_id r) = Some v \<Longrightarrow>
    spec_step d (upd_replica i (\<lambda>x. x\<lparr>r_status := RS_HEALTHY, r_checksum := Some (v_checksum v),
      r_size := Some (v_size v), r_last_verified_at := Some now\<rparr>) d)"
| sp_remove: "get_replica_row d i = Some r \<Longrightarrow>
    r_status r \<in> {RS_HEALTHY, RS_CORRUPTED, RS_STALE, RS_UNAVAILABLE} \<Longrightarrow>
    spec_step d (d\<lparr>replicas := remove_by r_id i (replicas d)\<rparr>)"

section \<open>Refinement\<close>

lemma set_replica_state_batch:
  assumes "get_replica_row d i = Some r" "db_inv d"
  shows "upd_replica i (\<lambda>x. x\<lparr>r_status := st\<rparr>) d =
    d\<lparr>replicas := map (\<lambda>r. if r_id r \<in> {i} then r\<lparr>r_status := st\<rparr> else r) (replicas d)\<rparr>"
  by (simp add: upd_replica_def update_by_def)

lemma only_row:
  assumes "distinct (map key t)" "lookup_by key k t = Some r" "x \<in> set t" "key x = k"
  shows "x = r"
  using assms lookup_by_Some_iff [of key t k x] by simp

lemma record_as_verified:
  assumes "db_inv d" "get_replica_row d i = Some r" "r_status r = RS_HEALTHY"
  shows "upd_replica i (\<lambda>x. x\<lparr>r_checksum := c, r_size := s, r_last_verified_at := t\<rparr>) d =
    upd_replica i (\<lambda>x. x\<lparr>r_status := RS_HEALTHY, r_checksum := c, r_size := s, r_last_verified_at := t\<rparr>) d"
proof -
  have "r_status x = RS_HEALTHY" if "x \<in> set (replicas d)" "r_id x = i" for x
    using only_row [OF db_inv_distinct(6) [OF assms(1)] assms(2) that] assms(3) by simp
  then show ?thesis by (auto simp: upd_replica_def update_by_def)
qed

lemma meta_step_spec: "meta_step d d' \<Longrightarrow> db_inv d \<Longrightarrow> spec_step d d'"
proof (induction rule: meta_step.induct)
  case (s_create_object i nm d x d')
  then show ?case
    by (auto simp: create_object_def result_iffs normalize_object_name_eq lookup_by_None_iff Let_def
        split: if_splits option.splits intro!: sp_object)
next
  case (s_create_version i ob sz c e d v d')
  then obtain o1 where "get_object_row d ob = Some o1" "o_state o1 = OS_ACTIVE" "v_object_id v = ob"
    and v: "d' = d\<lparr>versions := versions d @ [v]\<rparr>" "v_id v \<notin> v_id ` set (versions d)"
    "v_state v = VS_PREPARING"
    "v_number v = (case max_version_number d ob of None \<Rightarrow> 0 | Some m \<Rightarrow> m) + 1"
    by (auto simp: create_version_def lock_object_def result_iffs Let_def split: if_splits)
  moreover have "\<forall>w\<in>set (versions d). v_object_id w = ob \<longrightarrow> v_number w < v_number v"
    using max_version_number_ge [of _ d ob] v(4) by fastforce
  ultimately show ?case by (auto intro!: sp_version)
next
  case (s_commit_version now vid e d v d')
  from s_commit_version show ?case
    by (cases rule: commit_version_shape) (auto intro!: sp_commit)
next
  case (s_transition_object ob st d x d')
  then show ?case
    by (auto simp: transition_object_state_def lock_object_def result_iffs split: if_splits
        intro: sp_skip sp_object_state)
next
  case (s_fail_version vid d v d')
  then show ?case by (auto simp: fail_version_def result_iffs split: if_splits intro: sp_fail)
next
  case (s_transition_node nid nst d n d')
  then show ?case
    by (auto simp: transition_node_state_def Let_def result_iffs split: if_splits
        intro: sp_skip sp_node_state)
next
  case (s_create_replicas ids vid ns d rs d')
  note s = create_replicas_shape [OF s_create_replicas(1)]
  have "r_status r = RS_PENDING \<and> r_id r \<notin> r_id ` set (replicas d) \<and>
      replica_on d (r_version_id r) (r_node_id r) = None" if r: "r \<in> set rs" for r
  proof -
    have f: "r_version_id r = vid" "r_node_id r \<in> set (map strip ns)" "r_status r = RS_PENDING"
      using new_replicas_facts(3) [of r ids vid "map strip ns"] r by (simp_all add: s(5))
    then show ?thesis using s(4,7) r by auto
  qed
  then show ?case unfolding s(1) by (intro sp_replicas) blast
next
  case (s_set_replica_states ids rst d rs d')
  then show ?case
    by (cases "ids = []")
      (auto simp: set_replica_states_def Let_def split: if_splits intro!: sp_skip sp_replica_states)
next
  case (s_create_replica i vid nid d r d')
  then show ?case
    by (auto simp: create_replica_def Let_def new_replica_def split: if_splits intro!: sp_replicas)
next
  case (s_set_replica_state rid rst d r d')
  from s_set_replica_state(1) obtain q where q: "get_replica_row d rid = Some q"
    by (auto simp: set_replica_state_def lock_replica_def bindE_Inr_iff some_or_Inr_iff)
  have q2: "d' = d \<or> d' = upd_replica rid (\<lambda>x. x\<lparr>r_status := rst\<rparr>) d \<and> rst \<noteq> RS_HEALTHY \<and>
       rst \<in> replica_allowed (r_status q)"
    using s_set_replica_state(1) q by (simp add: set_replica_state_def lock_replica_def split: if_splits)
  have only: "x = q" if "x \<in> set (replicas d)" "r_id x = rid" for x
    using only_row [OF db_inv_distinct(6) [OF s_set_replica_state(2)] q that] .
  show ?case
  proof (cases "d' = d")
    case False
    with q2 have d': "d' = d\<lparr>replicas := map (\<lambda>r. if r_id r \<in> {rid} then r\<lparr>r_status := rst\<rparr> else r) (replicas d)\<rparr>"
      and st: "rst \<noteq> RS_HEALTHY" "rst \<in> replica_allowed (r_status q)"
      using set_replica_state_batch [OF q s_set_replica_state(2)] by metis+
    show ?thesis unfolding d' by (rule sp_replica_states) (use only st in blast)+
  qed (simp add: sp_skip)
next
  case (s_record_verification now rid c sz d r d')
  then obtain q v where "get_replica_row d rid = Some q" "get_version_row d (r_version_id q) = Some v"
    "r_status q = RS_HEALTHY"
    "d' = upd_replica rid (\<lambda>x. x\<lparr>r_checksum := Some (v_checksum v), r_size := Some (v_size v),
       r_last_verified_at := Some now\<rparr>) d"
    by (auto simp: record_replica_verification_def lock_replica_def result_iffs Let_def split: if_splits)
  then show ?case using s_record_verification(2)
    by (auto simp: record_as_verified intro!: sp_verified)
next
  case (s_mark_healthy now rid c sz d r d')
  from s_mark_healthy(1) show ?case
    by (cases rule: mark_replica_healthy_shape)
      (auto simp: lock_replica_def result_iffs intro!: sp_verified)
next
  case (s_remove_replica rid d r d')
  then show ?case
    by (auto simp: remove_replica_def lock_replica_def result_iffs split: if_splits intro!: sp_remove)
next
  case (s_register_node i nid' addr cap nst d n d')
  then show ?case
    by (auto simp: register_node_def Let_def lookup_by_None_iff split: if_splits option.splits
        intro!: sp_skip sp_node)
next
  case (s_heartbeat nid c' u' t d nb d')
  obtain n acc where nb: "nb = (n, acc)" by (cases nb)
  from s_heartbeat(1) [unfolded nb] show ?case
    by (cases rule: process_node_heartbeat_shape) (auto intro!: sp_skip sp_heartbeat)
qed

section \<open>What a step can do to one row\<close>

text \<open>
  The number of the current version of an object, 0 before the first commit: the value that
  \<open>expected_version\<close> is compared with.
\<close>

definition current_number :: "db \<Rightarrow> uuid \<Rightarrow> int" where
  "current_number d i =
     (case get_object_row d i of None \<Rightarrow> 0
      | Some ob \<Rightarrow> (case o_current_version_id ob of None \<Rightarrow> 0
        | Some c \<Rightarrow> (case get_version_row d c of None \<Rightarrow> 0 | Some v \<Rightarrow> v_number v)))"

lemmas row_lookups = upd_defs lookup_update_by lookup_by_append lookup_remove_by

lemma spec_step_version:
  assumes "spec_step d d'" "get_version_row d i = Some v"
  shows "\<exists>v'. get_version_row d' i = Some v' \<and> v_id v' = v_id v \<and> v_object_id v' = v_object_id v \<and>
    v_number v' = v_number v \<and> v_size v' = v_size v \<and> v_checksum v' = v_checksum v \<and>
    (v_state v = VS_COMMITTED \<longrightarrow> v' = v)"
  using assms by (induction rule: spec_step.induct) (auto simp: row_lookups)

lemma spec_step_node:
  assumes "spec_step d d'" "get_node_row d i = Some n"
  shows "\<exists>n'. get_node_row d' i = Some n' \<and> n_address n' = n_address n \<and>
    (n_status n' = n_status n \<or> n_status n' \<in> NODE_STATE_TRANSITIONS (n_status n)) \<and>
    (\<forall>t. n_last_heartbeat_at n = Some t \<longrightarrow> (\<exists>t'\<ge>t. n_last_heartbeat_at n' = Some t')) \<and>
    (n_status n = NS_REMOVED \<longrightarrow> n' = n)"
  using assms by (induction rule: spec_step.induct) (auto simp: row_lookups intro: less_imp_le)

lemma lookup_map_same_key:
  assumes "\<And>r. key (g r) = key r"
  shows "lookup_by key k (map g t) = map_option g (lookup_by key k t)"
  using assms by (induction t) auto

definition replica_edge :: "replica_state \<Rightarrow> replica_state \<Rightarrow> bool" where
  "replica_edge s s' \<longleftrightarrow> s' = s \<or> s' \<in> replica_allowed s \<or> (s' = RS_HEALTHY \<and> s \<in> {RS_COPYING, RS_REPAIRING})"

lemma spec_step_replica:
  assumes "spec_step d d'" "get_replica_row d i = Some r" "get_replica_row d' i = Some r'"
  shows "r_version_id r' = r_version_id r \<and> r_node_id r' = r_node_id r \<and> replica_edge (r_status r) (r_status r')"
  using assms
proof (induction rule: spec_step.induct)
  case (sp_replica_states rst d ids)
  have "r \<in> set (replicas d)" using sp_replica_states(3) by (rule lookup_by_SomeD)
  then have "r_id r \<in> ids \<longrightarrow> r_status r = rst \<or> rst \<in> replica_allowed (r_status r)"
    using sp_replica_states(2) by blast
  then show ?case using sp_replica_states(3,4)
    by (auto simp: lookup_map_same_key replica_edge_def split: if_splits)
qed (auto simp: row_lookups replica_edge_def split: if_splits)

lemma current_version_row:
  assumes "db_inv d" "get_object_row d i = Some ob" "o_current_version_id ob = Some c"
  obtains v where "get_version_row d c = Some v" "v_object_id v = i" "v_state v = VS_COMMITTED"
    "v_id v = c" "v \<in> set (versions d)"
proof -
  have "ob \<in> set (objects d)" "o_id ob = i" using lookup_by_SomeD [OF assms(2)] by auto
  then have "current_for (versions d) ob" using assms(1) by (simp add: inv_defs)
  with assms(3) obtain v where v: "v \<in> set (versions d)" "v_id v = c" "v_object_id v = o_id ob"
    "v_state v = VS_COMMITTED" by (auto simp: current_for_def)
  then have "get_version_row d c = Some v"
    using lookup_by_Some_iff [OF db_inv_distinct(3) [OF assms(1)]] by blast
  with v \<open>o_id ob = i\<close> that show thesis by blast
qed

lemma current_number_nonneg:
  assumes "db_inv d"
  shows "0 \<le> current_number d i"
proof (cases "get_object_row d i")
  case (Some ob)
  show ?thesis
  proof (cases "o_current_version_id ob")
    case (Some c)
    from assms \<open>get_object_row d i = Some ob\<close> Some obtain v
      where v: "get_version_row d c = Some v" "v \<in> set (versions d)" by (rule current_version_row)
    then have "0 < v_number v" using assms by (simp add: inv_defs)
    with v Some \<open>get_object_row d i = Some ob\<close> show ?thesis by (simp add: current_number_def)
  qed (simp add: current_number_def Some)
qed (simp add: current_number_def)

lemma current_number_cong:
  assumes "db_inv d" "get_object_row d i = Some ob" "get_object_row d' i = Some ob'"
    "o_current_version_id ob' = o_current_version_id ob" "spec_step d d'"
  shows "current_number d' i = current_number d i"
proof (cases "o_current_version_id ob")
  case (Some c)
  from assms(1,2) Some obtain v where v: "get_version_row d c = Some v" by (rule current_version_row)
  from spec_step_version [OF assms(5) v] v assms Some show ?thesis
    by (auto simp: current_number_def)
qed (use assms in \<open>simp add: current_number_def\<close>)

lemma spec_step_object:
  assumes "spec_step d d'" "get_object_row d i = Some ob" "db_inv d"
  obtains (same) ob' where "get_object_row d' i = Some ob'"
      "o_current_version_id ob' = o_current_version_id ob"
    | (commit) c v ob' where "get_version_row d c = Some v" "v_object_id v = i" "v_state v = VS_PREPARING"
      "get_object_row d' i = Some ob'" "o_current_version_id ob' = Some c"
      "\<forall>w\<in>set (versions d). v_object_id w = i \<longrightarrow> v_state w = VS_COMMITTED \<longrightarrow> v_number w < v_number v"
  using assms
proof (induction rule: spec_step.induct)
  case (sp_commit d j v ob1 now)
  have o1: "o_id ob1 = v_object_id v" using lookup_by_SomeD [OF sp_commit(3)] by simp
  show ?case
  proof (cases "i = o_id ob1")
    case True
    then show ?thesis using sp_commit.prems(3) o1 sp_commit(1,2,4)
      by (intro sp_commit.prems(2) [of j v "ob\<lparr>o_current_version_id := Some j, o_state := OS_ACTIVE\<rparr>"])
        (simp_all add: row_lookups)
  next
    case False
    then show ?thesis using sp_commit.prems(3)
      by (intro sp_commit.prems(1) [of ob]) (simp_all add: row_lookups)
  qed
next
  case (sp_object_state d j ob1 st)
  show ?case
    by (rule sp_object_state.prems(1) [of "if i = j then ob\<lparr>o_state := st\<rparr> else ob"])
      (use sp_object_state.prems(3) in \<open>auto simp: row_lookups\<close>)
qed (auto simp: row_lookups)

lemma current_number_mono:
  assumes "spec_step d d'" "db_inv d" "db_inv d'"
  shows "current_number d i \<le> current_number d' i"
proof (cases "get_object_row d i")
  case None
  then have "current_number d i = 0" by (simp add: current_number_def)
  then show ?thesis using current_number_nonneg [OF assms(3)] by simp
next
  case (Some ob)
  from assms(1) Some assms(2) show ?thesis
  proof (cases rule: spec_step_object)
    case (same ob')
    with current_number_cong [OF assms(2) Some same assms(1)] show ?thesis by simp
  next
    case (commit c v ob')
    have n': "current_number d' i = v_number v"
      using commit spec_step_version [OF assms(1) commit(1)] by (auto simp: current_number_def)
    show ?thesis
    proof (cases "o_current_version_id ob")
      case None
      then have "current_number d i = 0" using Some by (simp add: current_number_def)
      then show ?thesis using current_number_nonneg [OF assms(3)] by simp
    next
      case (Some c0)
      from assms(2) \<open>get_object_row d i = Some ob\<close> Some obtain w where w: "get_version_row d c0 = Some w"
        "v_object_id w = i" "v_state w = VS_COMMITTED" "v_id w = c0" "w \<in> set (versions d)"
        by (rule current_version_row)
      then have "v_number w < v_number v" using commit(6) by blast
      moreover have "current_number d i = v_number w"
        using w Some \<open>get_object_row d i = Some ob\<close> by (simp add: current_number_def)
      ultimately show ?thesis by (simp add: n')
    qed
  qed
qed

section \<open>Histories\<close>

lemma meta_reachable_current_mono:
  assumes "meta_reachable d0 d" "db_inv d0"
  shows "current_number d0 i \<le> current_number d i"
  using assms
proof (induction rule: meta_reachable.induct)
  case (step d d')
  have "db_inv d" using meta_reachable_inv [OF step(1) step(4)] .
  with step show ?case
    using current_number_mono [OF meta_step_spec [OF step(2)], of i] meta_step_inv [OF step(2)]
    by fastforce
qed simp

lemma meta_reachable_version:
  assumes "meta_reachable d0 d" "db_inv d0" "get_version_row d0 i = Some v" "v_state v = VS_COMMITTED"
  shows "get_version_row d i = Some v"
  using assms
proof (induction rule: meta_reachable.induct)
  case (step d d')
  then have "spec_step d d'" using meta_step_spec meta_reachable_inv by blast
  with step show ?case using spec_step_version [of d d' i v] by auto
qed simp

lemma meta_reachable_node:
  assumes "meta_reachable d0 d" "db_inv d0" "get_node_row d0 i = Some n"
  shows "\<exists>n'. get_node_row d i = Some n' \<and> n_address n' = n_address n \<and>
    (\<forall>t. n_last_heartbeat_at n = Some t \<longrightarrow> (\<exists>t'\<ge>t. n_last_heartbeat_at n' = Some t')) \<and>
    (n_status n = NS_REMOVED \<longrightarrow> n' = n)"
  using assms
proof (induction rule: meta_reachable.induct)
  case (step d d')
  then obtain m where m: "get_node_row d i = Some m" "n_address m = n_address n"
    "\<forall>t. n_last_heartbeat_at n = Some t \<longrightarrow> (\<exists>t'\<ge>t. n_last_heartbeat_at m = Some t')"
    "n_status n = NS_REMOVED \<longrightarrow> m = n" by blast
  have "spec_step d d'" using step meta_step_spec meta_reachable_inv by blast
  from spec_step_node [OF this m(1)] obtain n' where n': "get_node_row d' i = Some n'"
    "n_address n' = n_address m" "n_status m = NS_REMOVED \<longrightarrow> n' = m"
    "\<forall>t. n_last_heartbeat_at m = Some t \<longrightarrow> (\<exists>t'\<ge>t. n_last_heartbeat_at n' = Some t')" by blast
  have "\<exists>t'\<ge>t. n_last_heartbeat_at n' = Some t'" if nt: "n_last_heartbeat_at n = Some t" for t
  proof -
    obtain u where "t \<le> u" "n_last_heartbeat_at m = Some u" using m(3) nt by blast
    moreover then obtain t' where "u \<le> t'" "n_last_heartbeat_at n' = Some t'" using n'(4) by blast
    ultimately show ?thesis by auto
  qed
  with n' m show ?case by auto
qed auto

lemma commit_current_number:
  assumes "commit_version now vid e d = Inr (v, d')" "db_inv d"
  shows "current_number d' (v_object_id v) = v_number v" "current_number d (v_object_id v) < v_number v"
    "\<forall>n. e = Some n \<longrightarrow> n = current_number d (v_object_id v)"
proof -
  from assms obtain w ob where w: "get_version_row d vid = Some w"
    "get_object_row d (v_object_id w) = Some ob" "v_state w = VS_PREPARING"
    "v = w\<lparr>v_state := VS_COMMITTED, v_committed_at := Some now\<rparr>"
    "\<forall>x\<in>set (versions d). v_object_id x = o_id ob \<longrightarrow> v_state x = VS_COMMITTED \<longrightarrow> v_number x < v_number w"
    "\<exists>current. current_version_number ob d = Inr current \<and> expected_matches e current"
    "d' = upd_object (o_id ob) (\<lambda>x. x\<lparr>o_current_version_id := Some vid, o_state := OS_ACTIVE\<rparr>)
       (upd_version vid (\<lambda>x. x\<lparr>v_state := VS_COMMITTED, v_committed_at := Some now\<rparr>) d)"
    by (rule commit_version_shape)
  have oid: "o_id ob = v_object_id w" using lookup_by_SomeD [OF w(2)] by simp
  show "current_number d' (v_object_id v) = v_number v"
    using w by (simp add: current_number_def row_lookups oid)
  have cur: "case current of None \<Rightarrow> current_number d (v_object_id w) = 0
      | Some n \<Rightarrow> current_number d (v_object_id w) = n" if "current_version_number ob d = Inr current" for current
    using that w(2) by (auto simp: current_version_number_def current_number_def result_iffs split: option.splits)
  with w(4,6) show "\<forall>n. e = Some n \<longrightarrow> n = current_number d (v_object_id v)"
    by (auto simp: expected_matches_def split: option.splits)
  show "current_number d (v_object_id v) < v_number v"
  proof (cases "o_current_version_id ob")
    case None
    have "0 < v_number w" using assms(2) lookup_by_SomeD [OF w(1)] by (simp add: inv_defs)
    with None w(2,4) show ?thesis by (simp add: current_number_def)
  next
    case (Some c)
    from assms(2) w(2) Some obtain x where "get_version_row d c = Some x" "v_object_id x = v_object_id w"
      "v_state x = VS_COMMITTED" "x \<in> set (versions d)" by (rule current_version_row)
    with w(2,4,5) oid Some show ?thesis by (auto simp: current_number_def)
  qed
qed

section \<open>A history to evaluate on\<close>

definition demo_checksum :: string where
  "demo_checksum = replicate 64 (CHR ''a'')"

definition demo_object :: object_row where
  "demo_object = \<lparr>o_id = 1, o_name = ''a'', o_current_version_id = None, o_state = OS_ACTIVE\<rparr>"

definition demo_version :: "uuid \<Rightarrow> int \<Rightarrow> version_row" where
  "demo_version i n = \<lparr>v_id = i, v_object_id = 1, v_number = n, v_size = 3, v_checksum = demo_checksum,
     v_state = VS_PREPARING, v_committed_at = None\<rparr>"

definition demo_db :: db where
  "demo_db = empty_db\<lparr>objects := [demo_object], versions := [demo_version 10 1, demo_version 11 2]\<rparr>"

definition demo_committed :: db where
  "demo_committed = snd (the (case commit_version 5 10 (Some 0) demo_db of Inl _ \<Rightarrow> None | Inr x \<Rightarrow> Some x))"

lemma demo_reachable: "meta_reachable empty_db demo_db"
proof -
  have "create_object 1 ''a'' empty_db = Inr (demo_object, empty_db\<lparr>objects := [demo_object]\<rparr>)"
    by code_simp
  then have 1: "meta_reachable empty_db (empty_db\<lparr>objects := [demo_object]\<rparr>)"
    by (blast intro: meta_reachable.intros meta_step.intros)
  have "create_version 10 1 3 demo_checksum (Some 0) (empty_db\<lparr>objects := [demo_object]\<rparr>) =
      Inr (demo_version 10 1, empty_db\<lparr>objects := [demo_object], versions := [demo_version 10 1]\<rparr>)"
    by code_simp
  then have 2: "meta_reachable empty_db (empty_db\<lparr>objects := [demo_object], versions := [demo_version 10 1]\<rparr>)"
    using 1 by (blast intro: meta_reachable.intros meta_step.intros)
  have "create_version 11 1 3 demo_checksum (Some 0) (empty_db\<lparr>objects := [demo_object], versions := [demo_version 10 1]\<rparr>) =
      Inr (demo_version 11 2, demo_db)"
    by code_simp
  then show ?thesis using 2 by (blast intro: meta_reachable.intros meta_step.intros)
qed

lemma demo_inv: "db_inv demo_db"
  using meta_reachable_inv [OF demo_reachable db_inv_empty] .

lemma demo_commit: "commit_version 5 10 (Some 0) demo_db =
    Inr (demo_version 10 1\<lparr>v_state := VS_COMMITTED, v_committed_at := Some 5\<rparr>, demo_committed)"
  by code_simp

lemma demo_committed_inv: "db_inv demo_committed"
  using commit_version_inv [OF demo_commit demo_inv] .

section \<open>The manager's guarantees\<close>

text \<open>C6. Every state the metadata manager can reach from the empty database satisfies the
  database invariant: unique keys, resolved references, canonical names, positive version
  numbers, used bytes within capacity, the current version being the highest committed one,
  and every HEALTHY replica carrying its version's checksum and size.\<close>

theorem metadata_invariant: "meta_reachable empty_db d \<Longrightarrow> db_inv d"
  by (rule meta_reachable_inv [OF _ db_inv_empty])

theorem metadata_invariant_witness: "meta_reachable empty_db demo_db \<and> db_inv demo_db"
  using metadata_invariant [OF demo_reachable] demo_reachable by simp

text \<open>C5. Refinement: in every reachable state, every successful operation of the metadata manager
  is a step of the abstract specification \<open>spec_step\<close>.\<close>

theorem metadata_refines_spec:
  assumes "meta_reachable empty_db d" "meta_step d d'"
  shows "spec_step d d'"
  using meta_step_spec [OF assms(2) meta_reachable_inv [OF assms(1) db_inv_empty]] .

theorem metadata_refines_spec_witness: "spec_step demo_db demo_committed"
  using metadata_refines_spec [OF demo_reachable s_commit_version [OF demo_commit]] .

text \<open>C7. Optimistic concurrency: once a commit with expected version \<open>n\<close> has succeeded for an
  object, no commit with the same expected version succeeds for that object in any later
  state, whatever operations run in between: there are no lost updates.\<close>

theorem commit_exclusive:
  assumes "db_inv d" "commit_version now vid (Some n) d = Inr (v, d1)" "meta_reachable d1 d2"
    "commit_version now' vid' (Some n) d2 = Inr (w, d3)"
  shows "v_object_id w \<noteq> v_object_id v"
proof
  assume same: "v_object_id w = v_object_id v"
  have inv1: "db_inv d1" using commit_version_inv [OF assms(2,1)] .
  have inv2: "db_inv d2" using meta_reachable_inv [OF assms(3) inv1] .
  have "n < current_number d1 (v_object_id v)"
    using commit_current_number [OF assms(2,1)] by simp
  moreover have "current_number d1 (v_object_id v) \<le> current_number d2 (v_object_id v)"
    by (rule meta_reachable_current_mono [OF assms(3) inv1])
  moreover have "n = current_number d2 (v_object_id v)"
    using commit_current_number(3) [OF assms(4) inv2] same by simp
  ultimately show False by simp
qed

text \<open>Another object in the same database, with a version to commit.\<close>

definition demo_two :: db where
  "demo_two = demo_committed\<lparr>objects := objects demo_committed @ [demo_object\<lparr>o_id := 2, o_name := ''b''\<rparr>],
     versions := versions demo_committed @ [(demo_version 20 1)\<lparr>v_object_id := 2\<rparr>]\<rparr>"

lemma demo_two_reachable: "meta_reachable demo_committed demo_two"
proof -
  let ?d = "demo_committed\<lparr>objects := objects demo_committed @ [demo_object\<lparr>o_id := 2, o_name := ''b''\<rparr>]\<rparr>"
  have "create_object 2 ''b'' demo_committed = Inr (demo_object\<lparr>o_id := 2, o_name := ''b''\<rparr>, ?d)"
    by code_simp
  moreover have "create_version 20 2 3 demo_checksum None ?d = Inr ((demo_version 20 1)\<lparr>v_object_id := 2\<rparr>, demo_two)"
    by code_simp
  ultimately show ?thesis by (blast intro: meta_reachable.intros meta_step.intros)
qed

theorem commit_exclusive_witness:
  "\<exists>w d3. commit_version 9 20 (Some 0) demo_two = Inr (w, d3) \<and> v_object_id w \<noteq> (1 :: nat)"
proof -
  have "\<exists>w d3. commit_version 9 20 (Some 0) demo_two = Inr (w, d3)"
    by (simp add: demo_two_def demo_committed_def demo_db_def demo_object_def demo_version_def
        commit_version_def current_version_number_def lock_object_def expected_matches_def
        validate_expected_version_def upd_defs empty_db_def)
  then obtain w d3 where c: "commit_version 9 20 (Some 0) demo_two = Inr (w, d3)" by blast
  from commit_exclusive [OF demo_inv demo_commit demo_two_reachable c] c
  show ?thesis by (auto simp: demo_version_def)
qed

text \<open>C21. A committed version is immutable: no later sequence of operations changes or removes
  its row.\<close>

theorem committed_version_immutable:
  assumes "db_inv d0" "meta_reachable d0 d" "get_version_row d0 i = Some v" "v_state v = VS_COMMITTED"
  shows "get_version_row d i = Some v"
  using meta_reachable_version [OF assms(2,1,3,4)] .

theorem committed_version_immutable_witness:
  "get_version_row demo_two 10 = Some ((demo_version 10 1)\<lparr>v_state := VS_COMMITTED, v_committed_at := Some 5\<rparr>)"
  by (rule committed_version_immutable [OF demo_committed_inv demo_two_reachable])
    (simp_all add: demo_committed_def demo_db_def demo_version_def demo_object_def commit_version_def
      current_version_number_def lock_object_def expected_matches_def validate_expected_version_def
      upd_defs empty_db_def)

text \<open>C26. Replica lifecycle: an operation moves a replica only along the edges of the replica table,
  and to HEALTHY only from COPYING or REPAIRING; it never re-assigns a replica to another
  version or node.\<close>

theorem replica_lifecycle:
  assumes "db_inv d" "meta_step d d'" "get_replica_row d i = Some r" "get_replica_row d' i = Some r'"
  shows "replica_edge (r_status r) (r_status r') \<and> r_version_id r' = r_version_id r \<and>
    r_node_id r' = r_node_id r"
  using spec_step_replica [OF meta_step_spec [OF assms(2,1)] assms(3,4)] by auto

text \<open>A copy in progress that is marked healthy.\<close>

definition demo_node :: node_row where
  "demo_node = \<lparr>n_id = ''n1'', n_address = ''http://n1'', n_status = NS_HEALTHY, n_capacity = 100,
     n_used = 0, n_last_heartbeat_at = Some 7\<rparr>"

definition demo_copying :: db where
  "demo_copying = demo_committed\<lparr>nodes := [demo_node],
     replicas := [(new_replica 30 10 ''n1'')\<lparr>r_status := RS_COPYING\<rparr>]\<rparr>"

lemma demo_copying_inv: "db_inv demo_copying"
proof -
  let ?d1 = "demo_committed\<lparr>nodes := nodes demo_committed @ [demo_node]\<rparr>"
  have v10: "10 \<in> v_id ` set (versions demo_committed)" by code_simp
  have e: "replicas demo_committed = []" "nodes demo_committed = []" by code_simp+
  have "db_inv ?d1" using demo_committed_inv by (intro inv_add_node) (simp_all add: e demo_node_def strip_def is_space_def)
  then have "db_inv (?d1\<lparr>replicas := replicas ?d1 @ [(new_replica 30 10 ''n1'')\<lparr>r_status := RS_COPYING\<rparr>]\<rparr>)"
    by (rule inv_add_replica) (use v10 in \<open>simp_all add: e new_replica_def demo_node_def replica_on_def\<close>)
  then show ?thesis by (simp add: demo_copying_def e)
qed

theorem replica_lifecycle_witness: "replica_edge RS_COPYING RS_HEALTHY"
proof -
  obtain r d' where m: "mark_replica_healthy 9 30 demo_checksum 3 demo_copying = Inr (r, d')"
    and r': "get_replica_row d' 30 = Some r" "r_status r = RS_HEALTHY"
  proof -
    let ?r = "(new_replica 30 10 ''n1'')\<lparr>r_status := RS_HEALTHY, r_checksum := Some demo_checksum,
      r_size := Some 3, r_last_verified_at := Some 9\<rparr>"
    have "mark_replica_healthy 9 30 demo_checksum 3 demo_copying =
      Inr (?r, demo_copying\<lparr>replicas := [?r]\<rparr>)" by code_simp
    then show thesis by (rule that) (simp_all add: new_replica_def)
  qed
  have "get_replica_row demo_copying 30 = Some ((new_replica 30 10 ''n1'')\<lparr>r_status := RS_COPYING\<rparr>)"
    by (simp add: demo_copying_def new_replica_def)
  from replica_lifecycle [OF demo_copying_inv s_mark_healthy [OF m] this r'(1)] r'(2)
  show ?thesis by simp
qed

text \<open>C27. Node lifecycle: along any history a node keeps its address, its last heartbeat never
  moves back, and a REMOVED node never changes again.\<close>

theorem node_history:
  assumes "db_inv d0" "meta_reachable d0 d" "get_node_row d0 i = Some n"
  shows "\<exists>n'. get_node_row d i = Some n' \<and> n_address n' = n_address n \<and>
    (\<forall>t. n_last_heartbeat_at n = Some t \<longrightarrow> (\<exists>t'\<ge>t. n_last_heartbeat_at n' = Some t')) \<and>
    (n_status n = NS_REMOVED \<longrightarrow> n' = n)"
  using meta_reachable_node [OF assms(2,1,3)] .

theorem node_history_witness:
  "\<exists>d n'. meta_reachable demo_copying d \<and> get_node_row d ''n1'' = Some n' \<and>
     (\<exists>t'\<ge>7. n_last_heartbeat_at n' = Some t') \<and> n_used n' = 5"
proof -
  have h: "process_node_heartbeat ''n1'' None (Some 5) (Datetime 8 None) demo_copying =
    Inr ((demo_node\<lparr>n_used := 5, n_last_heartbeat_at := Some 8\<rparr>, True),
      demo_copying\<lparr>nodes := [demo_node\<lparr>n_used := 5, n_last_heartbeat_at := Some 8\<rparr>]\<rparr>)" by code_simp
  have "meta_reachable demo_copying (demo_copying\<lparr>nodes := [demo_node\<lparr>n_used := 5, n_last_heartbeat_at := Some 8\<rparr>]\<rparr>)"
    using meta_reachable.step [OF meta_reachable.start s_heartbeat [OF h]] .
  from this node_history [OF demo_copying_inv this, of "''n1''" demo_node] show ?thesis
    by (auto simp: demo_copying_def demo_node_def)
qed

text \<open>C20. When a commit succeeds: in a consistent database a commit goes through exactly when the
  version is PREPARING, newer than the object's current version, and the expected version, if
  given, is the number of the current version (0 before the first commit).\<close>

theorem commit_version_iff:
  assumes "db_inv d"
  shows "(\<exists>x d'. commit_version now vid e d = Inr (x, d')) \<longleftrightarrow>
    (\<exists>v. get_version_row d vid = Some v \<and> v_state v = VS_PREPARING \<and>
       current_number d (v_object_id v) < v_number v \<and>
       (case e of None \<Rightarrow> True | Some n \<Rightarrow> n = current_number d (v_object_id v)))"
    (is "?L \<longleftrightarrow> ?R")
proof
  assume ?L
  then obtain x d' where c: "commit_version now vid e d = Inr (x, d')" by blast
  from c assms obtain v where "get_version_row d vid = Some v" "v_state v = VS_PREPARING"
    "x = v\<lparr>v_state := VS_COMMITTED, v_committed_at := Some now\<rparr>" by (rule commit_version_shape)
  with commit_current_number [OF c assms] show ?R by (auto split: option.splits)
next
  assume ?R
  then obtain v where v: "get_version_row d vid = Some v" "v_state v = VS_PREPARING"
    "current_number d (v_object_id v) < v_number v"
    "case e of None \<Rightarrow> True | Some n \<Rightarrow> n = current_number d (v_object_id v)" by blast
  have "v_object_id v \<in> o_id ` set (objects d)" using refs_object [OF assms] lookup_by_SomeD [OF v(1)] by simp
  then obtain ob where ob: "get_object_row d (v_object_id v) = Some ob" using lookup_by_ex by metis
  have e: "validate_expected_version e = Inr ()"
    using v(4) current_number_nonneg [OF assms, of "v_object_id v"]
    by (auto simp: validate_expected_version_def split: option.splits)
  obtain current where cur: "current_version_number ob d = Inr current"
    "current_number d (v_object_id v) = (case current of None \<Rightarrow> 0 | Some n \<Rightarrow> n)"
  proof (cases "o_current_version_id ob")
    case None
    then show ?thesis using that [of None] ob by (simp add: current_version_number_def current_number_def)
  next
    case (Some c)
    from assms ob Some obtain w where "get_version_row d c = Some w" by (rule current_version_row)
    with Some show ?thesis using that [of "Some (v_number w)"] ob
      by (simp add: current_version_number_def current_number_def)
  qed
  have "expected_matches e current" using v(4) cur(2) by (auto simp: expected_matches_def split: option.splits)
  moreover have "\<not> (case current of None \<Rightarrow> False | Some n \<Rightarrow> v_number v \<le> n)"
    using v(3) cur(2) by (auto split: option.splits)
  ultimately show ?L using v(1,2) ob e cur(1) by (simp add: commit_version_def lock_object_def Let_def)
qed

theorem commit_version_iff_witness:
  "(\<exists>x d'. commit_version 5 10 (Some 0) demo_db = Inr (x, d')) \<and>
   \<not> (\<exists>x d'. commit_version 5 11 (Some 0) demo_committed = Inr (x, d'))"
proof
  have "current_number demo_committed 1 = 1" by code_simp
  moreover have "get_version_row demo_committed 11 = Some (demo_version 11 2)" by code_simp
  ultimately show "\<not> (\<exists>x d'. commit_version 5 11 (Some 0) demo_committed = Inr (x, d'))"
    unfolding commit_version_iff [OF demo_committed_inv] by (simp add: demo_version_def)
  have "current_number demo_db 1 = 0" by code_simp
  then show "\<exists>x d'. commit_version 5 10 (Some 0) demo_db = Inr (x, d')"
    unfolding commit_version_iff [OF demo_inv] by (simp add: demo_db_def demo_version_def)
qed

subsection \<open>One batch is a sequence of single changes\<close>

primrec set_each :: "uuid list \<Rightarrow> replica_state \<Rightarrow> db \<Rightarrow> exn + db" where
  "set_each [] st d = Inr d"
| "set_each (i # ids) st d = bindE (set_replica_state i st d) (\<lambda>(_, d'). set_each ids st d')"

definition batch_ok :: "uuid list \<Rightarrow> replica_state \<Rightarrow> db \<Rightarrow> bool" where
  "batch_ok ids st d \<longleftrightarrow> (\<forall>i\<in>set ids. \<exists>r. get_replica_row d i = Some r \<and>
     (r_status r = st \<or> st \<in> replica_allowed (r_status r)))"

definition batch_result :: "uuid set \<Rightarrow> replica_state \<Rightarrow> db \<Rightarrow> db" where
  "batch_result S st d = d\<lparr>replicas := map (\<lambda>r. if r_id r \<in> S then r\<lparr>r_status := st\<rparr> else r) (replicas d)\<rparr>"

lemma selected_length:
  assumes "distinct (map key t)" "finite S"
  shows "length (filter (\<lambda>r. key r \<in> S) t) = card S \<longleftrightarrow> S \<subseteq> key ` set t"
proof -
  let ?f = "filter (\<lambda>r. key r \<in> S) t"
  have "length ?f = card (key ` set ?f)"
    using distinct_card [of "map key ?f"] distinct_map_filter [OF assms(1), of "\<lambda>r. key r \<in> S"] by simp
  moreover have "key ` set ?f = S \<inter> key ` set t" by auto
  ultimately have "length ?f = card S \<longleftrightarrow> card (S \<inter> key ` set t) = card S" by simp
  also have "\<dots> \<longleftrightarrow> S \<subseteq> key ` set t"
    using card_subset_eq [OF assms(2), of "S \<inter> key ` set t"] by (metis Int_absorb2 Int_lower1 Int_lower2)
  finally show ?thesis .
qed

lemma set_replica_states_Inr:
  assumes "db_inv d" "st \<noteq> RS_HEALTHY"
  shows "(\<exists>rs. set_replica_states ids st d = Inr (rs, d')) \<longleftrightarrow> batch_ok ids st d \<and> d' = batch_result (set ids) st d"
proof (cases "ids = []")
  case False
  note uniq = db_inv_distinct(6) [OF assms(1)]
  have "batch_ok ids st d \<longleftrightarrow> set ids \<subseteq> r_id ` set (replicas d) \<and>
      (\<forall>r\<in>set (replicas d). r_id r \<in> set ids \<longrightarrow> r_status r = st \<or> st \<in> replica_allowed (r_status r))"
    (is "_ \<longleftrightarrow> _ \<and> ?A")
  proof
    assume ok: "batch_ok ids st d"
    have "r_status r = st \<or> st \<in> replica_allowed (r_status r)"
      if "r \<in> set (replicas d)" "r_id r \<in> set ids" for r
      using ok that lookup_by_Some_iff [OF uniq, of "r_id r" r] by (force simp: batch_ok_def)
    then show "set ids \<subseteq> r_id ` set (replicas d) \<and> ?A"
      using ok by (auto simp: batch_ok_def dest: lookup_by_keyD)
  next
    assume A: "set ids \<subseteq> r_id ` set (replicas d) \<and> ?A"
    show "batch_ok ids st d" unfolding batch_ok_def lookup_by_Some_iff [OF uniq] using A by blast
  qed
  then show ?thesis using False assms(2) selected_length [OF uniq, of "set ids"]
    by (auto simp: set_replica_states_def Let_def batch_result_def)
qed (auto simp: set_replica_states_def batch_ok_def batch_result_def)

lemma set_replica_state_Inr:
  assumes "db_inv d" "st \<noteq> RS_HEALTHY"
  shows "(\<exists>r. set_replica_state i st d = Inr (r, d')) \<longleftrightarrow> batch_ok [i] st d \<and> d' = batch_result {i} st d"
proof (cases "get_replica_row d i")
  case (Some r)
  have "batch_result {i} st d = d" if "r_status r = st"
  proof -
    have "(if r_id x \<in> {i} then x\<lparr>r_status := st\<rparr> else x) = x" if "x \<in> set (replicas d)" for x
      using only_row [OF db_inv_distinct(6) [OF assms(1)] Some that] \<open>r_status r = st\<close> by auto
    then show ?thesis by (simp add: batch_result_def map_idI)
  qed
  moreover have "upd_replica i (\<lambda>x. x\<lparr>r_status := st\<rparr>) d = batch_result {i} st d"
    unfolding batch_result_def by (rule set_replica_state_batch [OF Some assms(1)])
  ultimately show ?thesis using Some assms(2)
    by (auto simp: set_replica_state_def lock_replica_def batch_ok_def)
qed (simp add: set_replica_state_def lock_replica_def batch_ok_def)

lemma batch_result_row:
  "get_replica_row (batch_result S st d) i =
     map_option (\<lambda>r. if i \<in> S then r\<lparr>r_status := st\<rparr> else r) (get_replica_row d i)"
  unfolding batch_result_def
  by (cases "get_replica_row d i") (auto simp: lookup_map_same_key dest: lookup_by_SomeD)

lemma batch_result_Un: "batch_result S st (batch_result T st d) = batch_result (T \<union> S) st d"
  by (auto simp: batch_result_def)

lemma set_each_Inr:
  assumes "db_inv d" "st \<noteq> RS_HEALTHY"
  shows "set_each ids st d = Inr d' \<longleftrightarrow> batch_ok ids st d \<and> d' = batch_result (set ids) st d"
  using assms(1)
proof (induction ids arbitrary: d)
  case Nil
  have "batch_result {} st d = d" by (simp add: batch_result_def)
  then show ?case by (auto simp: batch_ok_def)
next
  case (Cons i ids)
  show ?case
  proof (cases "batch_ok [i] st d")
    case True
    then obtain r where r: "set_replica_state i st d = Inr (r, batch_result {i} st d)"
      using set_replica_state_Inr [OF Cons.prems assms(2)] by blast
    have inv: "db_inv (batch_result {i} st d)" using set_replica_state_inv [OF r Cons.prems] .
    have "(\<exists>r. get_replica_row (batch_result {i} st d) j = Some r \<and>
        (r_status r = st \<or> st \<in> replica_allowed (r_status r))) \<longleftrightarrow>
      (\<exists>r. get_replica_row d j = Some r \<and> (r_status r = st \<or> st \<in> replica_allowed (r_status r)))" for j
      using True by (cases "j = i") (auto simp: batch_ok_def batch_result_row)
    then have "batch_ok ids st (batch_result {i} st d) \<longleftrightarrow> batch_ok ids st d"
      by (simp add: batch_ok_def)
    then show ?thesis using True r Cons.IH [OF inv]
      by (auto simp: batch_ok_def batch_result_Un)
  next
    case False
    then have "\<nexists>x. set_replica_state i st d = Inr x"
      using set_replica_state_Inr [OF Cons.prems assms(2)] by auto
    with False show ?thesis by (cases "set_replica_state i st d") (auto simp: batch_ok_def)
  qed
qed

lemma set_each_healthy:
  "set_each ids RS_HEALTHY d = Inr d' \<longleftrightarrow> d' = d \<and> (\<forall>i\<in>set ids. \<exists>r. get_replica_row d i = Some r \<and> r_status r = RS_HEALTHY)"
proof (induction ids)
  case (Cons i ids)
  have one: "set_replica_state i RS_HEALTHY d = Inr (x, e) \<longleftrightarrow> e = d \<and> get_replica_row d i = Some x \<and> r_status x = RS_HEALTHY" for x e
    by (auto simp: set_replica_state_def lock_replica_def result_iffs split: if_splits)
  show ?case
  proof (cases "\<exists>r. get_replica_row d i = Some r \<and> r_status r = RS_HEALTHY")
    case True
    then obtain r where "set_replica_state i RS_HEALTHY d = Inr (r, d)" using one by blast
    then show ?thesis using Cons True by (simp add: bindE_def)
  next
    case False
    then show ?thesis using one by (auto simp: bindE_Inr_iff)
  qed
qed auto

text \<open>C32. The batched replica state change to a state other than HEALTHY succeeds exactly when changing
  the same replicas one by one succeeds, and leaves the same tables. HEALTHY is where the two differ: a
  batch that is not empty is refused, while the single operation accepts a replica that is HEALTHY already
  and changes nothing.\<close>

theorem set_replica_states_equiv:
  assumes "db_inv d"
  shows "(st \<noteq> RS_HEALTHY \<longrightarrow> (\<exists>rs. set_replica_states ids st d = Inr (rs, d')) = (set_each ids st d = Inr d')) \<and>
    ((\<exists>rs. set_replica_states ids RS_HEALTHY d = Inr (rs, d')) = (ids = [] \<and> d' = d)) \<and>
    ((set_each ids RS_HEALTHY d = Inr d') = (d' = d \<and> (\<forall>i\<in>set ids. \<exists>r. get_replica_row d i = Some r \<and> r_status r = RS_HEALTHY)))"
  using set_replica_states_Inr [OF assms] set_each_Inr [OF assms] set_each_healthy by (auto simp: set_replica_states_def)

theorem set_replica_states_equiv_witness:
  "set_each [30] RS_FAILED demo_copying =
     Inr (demo_copying\<lparr>replicas := [(new_replica 30 10 ''n1'')\<lparr>r_status := RS_FAILED\<rparr>]\<rparr>)"
proof -
  let ?d = "demo_copying\<lparr>replicas := [(new_replica 30 10 ''n1'')\<lparr>r_status := RS_FAILED\<rparr>]\<rparr>"
  have "\<exists>rs. set_replica_states [30] RS_FAILED demo_copying = Inr (rs, ?d)"
    by (simp add: set_replica_states_def demo_copying_def new_replica_def)
  then show ?thesis using set_replica_states_equiv [OF demo_copying_inv, of RS_FAILED "[30]" ?d] by simp
qed

text \<open>A commit re-activates its object whatever state it was in: committing a version that was
  prepared before a deletion brings a DELETED object back to ACTIVE, an edge that the object
  transition table does not have.\<close>

theorem commit_reactivates:
  assumes "db_inv d" "commit_version now vid e d = Inr (v, d')"
  shows "\<exists>ob. get_object_row d' (v_object_id v) = Some ob \<and> o_state ob = OS_ACTIVE \<and>
    o_current_version_id ob = Some vid \<and> OS_ACTIVE \<notin> OBJECT_STATE_TRANSITIONS OS_DELETED"
  using assms(2,1)
proof (cases rule: commit_version_shape)
  case (1 w ob)
  then show ?thesis using lookup_by_SomeD [OF 1(2)] by (auto simp: row_lookups)
qed

theorem commit_reactivates_witness:
  "\<exists>d1 d2 v d3. transition_object_state 1 OS_DELETING demo_db = Inr d1 \<and>
     transition_object_state 1 OS_DELETED (snd d1) = Inr d2 \<and>
     commit_version 5 10 (Some 0) (snd d2) = Inr (v, d3) \<and>
     map_option o_state (get_object_row (snd d2) 1) = Some OS_DELETED \<and>
     map_option o_state (get_object_row d3 1) = Some OS_ACTIVE"
proof -
  obtain x1 d1 where t1: "transition_object_state 1 OS_DELETING demo_db = Inr (x1, d1)"
    and d1: "d1 = upd_object 1 (\<lambda>x. x\<lparr>o_state := OS_DELETING\<rparr>) demo_db"
    by (simp add: transition_object_state_def lock_object_def demo_db_def demo_object_def)
  obtain x2 d2 where t2: "transition_object_state 1 OS_DELETED d1 = Inr (x2, d2)"
    and d2: "d2 = upd_object 1 (\<lambda>x. x\<lparr>o_state := OS_DELETED\<rparr>) d1"
    by (simp add: d1 transition_object_state_def lock_object_def demo_db_def demo_object_def upd_defs)
  have inv: "db_inv d2" using t1 t2 demo_inv by (blast dest: transition_object_state_inv)
  obtain v d3 where c: "commit_version 5 10 (Some 0) d2 = Inr (v, d3)" and v: "v_object_id v = 1"
    by (simp add: d1 d2 demo_db_def demo_object_def demo_version_def commit_version_def
        current_version_number_def lock_object_def expected_matches_def
        validate_expected_version_def upd_defs empty_db_def)
  from commit_reactivates [OF inv c] v have "map_option o_state (get_object_row d3 1) = Some OS_ACTIVE" by auto
  moreover have "map_option o_state (get_object_row d2 1) = Some OS_DELETED"
    by (simp add: d1 d2 demo_db_def demo_object_def upd_defs)
  ultimately show ?thesis using t1 t2 c by auto
qed

end
