(* ===== verification/Db_Session.thy ===== *)
theory Db_Session
  imports Metadata_Spec
begin

text \<open>
  A SQLAlchemy session over the metadata tables, as \<^verbatim>\<open>metadata/database.py\<close> and
  \<^verbatim>\<open>MetadataManager._transaction\<close> use it. A world holds the durable tables, the
  tables as the session sees them, whether a transaction is open, feeds for \<open>new_uuid()\<close>
  and \<open>datetime.now\<close>, and the state of everything behind the storage-node clients.

  A select opens a transaction (autobegin), so an operation that runs after one is a
  savepoint and becomes durable only with a later \<open>commit\<close>; an operation that runs first
  commits by itself. Python references to mapped rows are modelled by reading the row again
  from the session's tables, which is what the identity map does. One session is modelled
  at a time.

  \<open>ctl_step\<close> extends the manager's steps with the job tables. \<open>sound\<close> says that the durable
  tables have moved along such steps only and that the session is a sequence of steps ahead of
  them; every action of the control plane keeps it.
\<close>

section \<open>Job rows\<close>

definition upd_repair :: "uuid \<Rightarrow> (repair_job \<Rightarrow> repair_job) \<Rightarrow> db \<Rightarrow> db" where
  "upd_repair i f d = d\<lparr>repair_jobs := update_by rp_id i f (repair_jobs d)\<rparr>"

definition upd_rebalance :: "uuid \<Rightarrow> (rebalance_job \<Rightarrow> rebalance_job) \<Rightarrow> db \<Rightarrow> db" where
  "upd_rebalance i f d = d\<lparr>rebalance_jobs := update_by rb_id i f (rebalance_jobs d)\<rparr>"

definition upd_integrity :: "uuid \<Rightarrow> (integrity_job \<Rightarrow> integrity_job) \<Rightarrow> db \<Rightarrow> db" where
  "upd_integrity i f d = d\<lparr>integrity_jobs := update_by ig_id i f (integrity_jobs d)\<rparr>"

abbreviation get_repair_row :: "db \<Rightarrow> uuid \<Rightarrow> repair_job option" where
  "get_repair_row d i \<equiv> lookup_by rp_id i (repair_jobs d)"

abbreviation get_rebalance_row :: "db \<Rightarrow> uuid \<Rightarrow> rebalance_job option" where
  "get_rebalance_row d i \<equiv> lookup_by rb_id i (rebalance_jobs d)"

abbreviation get_integrity_row :: "db \<Rightarrow> uuid \<Rightarrow> integrity_job option" where
  "get_integrity_row d i \<equiv> lookup_by ig_id i (integrity_jobs d)"

text \<open>Inserting a job checks the foreign keys and the primary key.\<close>

definition insert_repair :: "repair_job \<Rightarrow> db \<Rightarrow> exn + repair_job \<times> db" where
  "insert_repair j d =
     (if rp_id j \<in> rp_id ` set (repair_jobs d) \<or> get_version_row d (rp_version_id j) = None \<or>
         get_node_row d (rp_source j) = None \<or> get_node_row d (rp_target j) = None
      then Inl DbError else Inr (j, d\<lparr>repair_jobs := repair_jobs d @ [j]\<rparr>))"

definition insert_rebalance :: "rebalance_job \<Rightarrow> db \<Rightarrow> exn + rebalance_job \<times> db" where
  "insert_rebalance j d =
     (if rb_id j \<in> rb_id ` set (rebalance_jobs d) \<or> get_version_row d (rb_version_id j) = None \<or>
         get_node_row d (rb_source j) = None \<or> get_node_row d (rb_target j) = None
      then Inl DbError else Inr (j, d\<lparr>rebalance_jobs := rebalance_jobs d @ [j]\<rparr>))"

definition insert_integrity :: "integrity_job \<Rightarrow> db \<Rightarrow> exn + integrity_job \<times> db" where
  "insert_integrity j d =
     (if ig_id j \<in> ig_id ` set (integrity_jobs d) \<or>
         (case ig_version_id j of None \<Rightarrow> False | Some v \<Rightarrow> get_version_row d v = None) \<or>
         (case ig_node_id j of None \<Rightarrow> False | Some n \<Rightarrow> get_node_row d n = None)
      then Inl DbError else Inr (j, d\<lparr>integrity_jobs := integrity_jobs d @ [j]\<rparr>))"

section \<open>Steps of the control plane\<close>

inductive ctl_step :: "db \<Rightarrow> db \<Rightarrow> bool" where
  ctl_meta: "meta_step d d' \<Longrightarrow> ctl_step d d'"
| ctl_new_repair: "insert_repair j d = Inr (j', d') \<Longrightarrow> rp_attempts j = 0 \<Longrightarrow> ctl_step d d'"
| ctl_new_rebalance: "insert_rebalance j d = Inr (j', d') \<Longrightarrow> rb_attempts j = 0 \<Longrightarrow> ctl_step d d'"
| ctl_new_integrity: "insert_integrity k d = Inr (k', d') \<Longrightarrow> ctl_step d d'"
| ctl_repair: "0 \<le> n \<Longrightarrow> ctl_step d
    (upd_repair i (\<lambda>j. j\<lparr>rp_status := st, rp_attempts := rp_attempts j + n, rp_last_error := e\<rparr>) d)"
| ctl_rebalance: "0 \<le> n \<Longrightarrow> ctl_step d
    (upd_rebalance i (\<lambda>j. j\<lparr>rb_status := st, rb_attempts := rb_attempts j + n, rb_last_error := e\<rparr>) d)"
| ctl_integrity: "(\<And>j. ig_id (f j) = ig_id j) \<Longrightarrow> ctl_step d (upd_integrity i f d)"

inductive ctl_reach :: "db \<Rightarrow> db \<Rightarrow> bool" for d0 where
  ctl_refl: "ctl_reach d0 d0"
| ctl_more: "ctl_reach d0 d \<Longrightarrow> ctl_step d d' \<Longrightarrow> ctl_reach d0 d'"

lemma ctl_trans: "ctl_reach d1 d2 \<Longrightarrow> ctl_reach d0 d1 \<Longrightarrow> ctl_reach d0 d2"
  by (induction rule: ctl_reach.induct) (auto intro: ctl_more)

lemma ctl_step_inv: "ctl_step d d' \<Longrightarrow> db_inv d \<Longrightarrow> db_inv d'"
proof (induction rule: ctl_step.induct)
  case (ctl_meta d d')
  then show ?case by (rule meta_step_inv)
qed (auto simp: insert_repair_def insert_rebalance_def insert_integrity_def upd_repair_def
    upd_rebalance_def upd_integrity_def inv_defs map_update_by
    split: if_splits dest: lookup_by_keyD elim!: in_update_byE)

lemma ctl_reach_inv: "ctl_reach d0 d \<Longrightarrow> db_inv d0 \<Longrightarrow> db_inv d"
  by (induction rule: ctl_reach.induct) (auto intro: ctl_step_inv)

text \<open>Properties that no step takes away.\<close>

definition stable :: "(db \<Rightarrow> bool) \<Rightarrow> bool" where
  "stable P \<longleftrightarrow> (\<forall>d d'. db_inv d \<longrightarrow> ctl_step d d' \<longrightarrow> P d \<longrightarrow> P d')"

lemma stable_reach: "ctl_reach d0 d \<Longrightarrow> stable P \<Longrightarrow> db_inv d0 \<Longrightarrow> P d0 \<Longrightarrow> P d"
  by (induction rule: ctl_reach.induct) (auto simp: stable_def intro: ctl_reach_inv)

text \<open>
  A step either is one of the metadata specification or leaves the metadata tables alone, so
  what the specification keeps is stable when it does not mention jobs.
\<close>

definition same_meta :: "db \<Rightarrow> db \<Rightarrow> bool" where
  "same_meta d d' \<longleftrightarrow> objects d' = objects d \<and> versions d' = versions d \<and> nodes d' = nodes d \<and>
     replicas d' = replicas d"

lemma ctl_step_cases:
  assumes "ctl_step d d'" "db_inv d"
  shows "spec_step d d' \<or> same_meta d d'"
  using assms
proof (induction rule: ctl_step.induct)
  case (ctl_meta d d')
  then show ?case by (auto intro: meta_step_spec)
qed (auto simp: same_meta_def insert_repair_def insert_rebalance_def insert_integrity_def
    upd_repair_def upd_rebalance_def upd_integrity_def split: if_splits)

lemma stableI:
  assumes "\<And>d d'. db_inv d \<Longrightarrow> db_inv d' \<Longrightarrow> spec_step d d' \<Longrightarrow> P d \<Longrightarrow> P d'"
    and "\<And>d d'. same_meta d d' \<Longrightarrow> P d \<Longrightarrow> P d'"
  shows "stable P"
  unfolding stable_def using assms ctl_step_cases ctl_step_inv by blast

lemma stable_version:
  "stable (\<lambda>d. \<exists>v'. get_version_row d i = Some v' \<and> v_object_id v' = ob \<and> v_number v' = n \<and>
     v_size v' = sz \<and> v_checksum v' = cs)"
  by (rule stableI) (auto simp: same_meta_def dest: spec_step_version)

lemma stable_committed: "v_state v = VS_COMMITTED \<Longrightarrow> stable (\<lambda>d. get_version_row d i = Some v)"
  by (rule stableI) (auto simp: same_meta_def dest: spec_step_version)

lemma stable_current: "stable (\<lambda>d. n \<le> current_number d i)"
proof (rule stableI)
  fix d d'
  assume "db_inv d" "db_inv d'" "spec_step d d'" "n \<le> current_number d i"
  then show "n \<le> current_number d' i" using current_number_mono [of d d' i] by simp
qed (simp add: same_meta_def current_number_def cong: option.case_cong)

section \<open>Worlds and session actions\<close>

record 'n world =
  view :: db
  stored :: db
  in_tx :: bool
  uuid_feed :: "nat \<Rightarrow> uuid"
  uuid_pos :: nat
  now_feed :: "nat \<Rightarrow> time"
  now_pos :: nat
  net :: 'n

type_synonym ('n, 'a) act = "(exn, 'n world, 'a) action"

definition new_uuid :: "('n, uuid) act" where
  "new_uuid w = (Inr (uuid_feed w (uuid_pos w)), w\<lparr>uuid_pos := Suc (uuid_pos w)\<rparr>)"

primrec new_uuids :: "nat \<Rightarrow> ('n, uuid list) act" where
  "new_uuids 0 = retA []"
| "new_uuids (Suc n) = bindA new_uuid (\<lambda>i. bindA (new_uuids n) (\<lambda>is. retA (i # is)))"

definition now :: "('n, time) act" where
  "now w = (Inr (now_feed w (now_pos w)), w\<lparr>now_pos := Suc (now_pos w)\<rparr>)"

text \<open>\<open>session.scalar(select ...)\<close> and \<open>session.scalars(...)\<close>.\<close>

definition query :: "(db \<Rightarrow> 'a) \<Rightarrow> ('n, 'a) act" where
  "query f w = (Inr (f (view w)), w\<lparr>in_tx := True\<rparr>)"

text \<open>Reading an attribute of a loaded row.\<close>

definition live :: "(db \<Rightarrow> 'a) \<Rightarrow> ('n, 'a) act" where
  "live f w = (Inr (f (view w)), w)"

text \<open>\<open>MetadataManager._transaction\<close> around a body.\<close>

definition transaction :: "(db \<Rightarrow> exn + 'a \<times> db) \<Rightarrow> ('n, 'a) act" where
  "transaction body w =
     (case body (view w) of
        Inl e \<Rightarrow> (Inl e, w)
      | Inr (x, d') \<Rightarrow>
          (Inr x, if in_tx w then w\<lparr>view := d'\<rparr> else w\<lparr>view := d', stored := d'\<rparr>))"

text \<open>Writing attributes of loaded rows, \<open>session.commit()\<close> and \<open>session.rollback()\<close>.\<close>

definition modify :: "(db \<Rightarrow> db) \<Rightarrow> ('n, unit) act" where
  "modify f w = (Inr (), w\<lparr>view := f (view w), in_tx := True\<rparr>)"

definition commit :: "('n, unit) act" where
  "commit w = (Inr (), w\<lparr>stored := view w, in_tx := False\<rparr>)"

definition rollback :: "('n, unit) act" where
  "rollback w = (Inr (), w\<lparr>view := stored w, in_tx := False\<rparr>)"

text \<open>\<open>session.add(row)\<close> followed by \<open>session.commit()\<close>: a refused insert rolls back.\<close>

definition add_commit :: "(db \<Rightarrow> exn + 'a \<times> db) \<Rightarrow> ('n, 'a) act" where
  "add_commit insert_row w =
     (case insert_row (view w) of
        Inl e \<Rightarrow> (Inl e, w\<lparr>view := stored w, in_tx := False\<rparr>)
      | Inr (x, d') \<Rightarrow> (Inr x, w\<lparr>view := d', stored := d', in_tx := False\<rparr>))"

text \<open>A \<open>with session_scope()\<close> block: the session starts fresh and always ends in a rollback.\<close>

definition session_scope :: "('n, 'a) act \<Rightarrow> ('n, 'a) act" where
  "session_scope body w =
     (case body (w\<lparr>view := stored w, in_tx := False\<rparr>) of
        (r, w') \<Rightarrow> (r, snd (rollback w')))"

text \<open>
  The rollback at the end of \<open>session_scope\<close> also expires every row that was loaded, and closing the
  session detaches them: an attribute that is read after the block raises. The code reads rows after
  the block in one place only, the download of \<^verbatim>\<open>gateway/api.py\<close>, whose router takes the session
  factory as a parameter: \<open>session_scope\<close> in \<^verbatim>\<open>gateway/app.py\<close>, and in \<^verbatim>\<open>tests/test_gateway.py\<close> a
  context that hands out a session and leaves it open.
\<close>

datatype session_factory = SessionScope | OpenSession

fun with_session :: "session_factory \<Rightarrow> ('n, 'a) act \<Rightarrow> ('n, 'a) act" where
  "with_session SessionScope body = session_scope body"
| "with_session OpenSession body = body"

fun read_after :: "session_factory \<Rightarrow> 'a \<Rightarrow> ('n, 'a) act" where
  "read_after SessionScope value = raiseA DetachedInstanceError"
| "read_after OpenSession value = retA value"

text \<open>A call to a storage-node client changes only the network state.\<close>

definition net_call :: "(exn, 'n, 'a) action \<Rightarrow> ('n, 'a) act" where
  "net_call m w = (case m (net w) of (r, n') \<Rightarrow> (r, w\<lparr>net := n'\<rparr>))"

definition from_result :: "exn + 'a \<Rightarrow> ('n, 'a) act" where
  "from_result r w = (r, w)"

lemmas session_defs = new_uuid_def now_def query_def live_def transaction_def modify_def commit_def
  rollback_def add_commit_def net_call_def from_result_def

text \<open>Running a query, a clock read or an id draw that something follows.\<close>

named_theorems run_simps \<open>one step of an action\<close>

lemma bindA_query [run_simps]: "bindA (query f) g w = g (f (view w)) (w\<lparr>in_tx := True\<rparr>)"
  by (simp add: bindA_def query_def)

lemma bindA_live [run_simps]: "bindA (live f) g w = g (f (view w)) w"
  by (simp add: bindA_def live_def)

lemma bindA_now [run_simps]: "bindA now g w = g (now_feed w (now_pos w)) (w\<lparr>now_pos := Suc (now_pos w)\<rparr>)"
  by (simp add: bindA_def now_def)

lemma bindA_new_uuid [run_simps]:
  "bindA new_uuid g w = g (uuid_feed w (uuid_pos w)) (w\<lparr>uuid_pos := Suc (uuid_pos w)\<rparr>)"
  by (simp add: bindA_def new_uuid_def)

lemma thenA_modify [run_simps]: "thenA (modify f) m w = m (w\<lparr>view := f (view w), in_tx := True\<rparr>)"
  by (simp add: thenA_def bindA_def modify_def)

lemma thenA_commit [run_simps]: "thenA commit m w = m (w\<lparr>stored := view w, in_tx := False\<rparr>)"
  by (simp add: thenA_def bindA_def commit_def)

lemma ret_raise_run [run_simps]: "retA x w = (Inr x, w)" "raiseA e w = (Inl e, w)"
  by (simp_all add: retA_def raiseA_def)

lemma from_result_run [run_simps]: "bindA (from_result r) f w = (case r of Inl e \<Rightarrow> (Inl e, w) | Inr x \<Rightarrow> f x w)"
  by (simp add: bindA_def from_result_def split: sum.split)

lemma query_InrE:
  assumes "query f w = (Inr y, t)"
  obtains "y = f (view w)" "t = w\<lparr>in_tx := True\<rparr>"
  using assms by (auto simp: query_def)

text \<open>Which exceptions the session can raise.\<close>

lemma raises_in_quiet [exn_rules]:
  "raises_in E new_uuid" "raises_in E now" "raises_in E (query f)" "raises_in E (live g)"
  "raises_in E commit" "raises_in E rollback" "raises_in E (modify h)"
  by (simp_all add: raises_in_def session_defs)

lemma raises_in_transaction: "(\<And>d e. body d = Inl e \<Longrightarrow> E e) \<Longrightarrow> raises_in E (transaction body)"
  by (auto simp: raises_in_def transaction_def split: sum.splits)

lemma raises_in_add_commit: "(\<And>d e. body d = Inl e \<Longrightarrow> E e) \<Longrightarrow> raises_in E (add_commit body)"
  by (auto simp: raises_in_def add_commit_def split: sum.splits)

text \<open>A property of one table that holds in the session and durably.\<close>

definition holds_of :: "(db \<Rightarrow> 't) \<Rightarrow> ('t \<Rightarrow> bool) \<Rightarrow> 'n world \<Rightarrow> bool" where
  "holds_of tab P w \<longleftrightarrow> P (tab (view w)) \<and> P (tab (stored w))"

lemma holds_of_quiet [keeps_rules]:
  "keeps (holds_of tab P) new_uuid" "keeps (holds_of tab P) now" "keeps (holds_of tab P) (query f)"
  "keeps (holds_of tab P) (live f)" "keeps (holds_of tab P) (net_call m)" "keeps (holds_of tab P) commit"
  "keeps (holds_of tab P) rollback"
  by (auto simp: keeps_def holds_of_def session_defs split: prod.split)

lemma holds_of_transaction:
  assumes "\<And>d x d'. body d = Inr (x, d') \<Longrightarrow> P (tab d) \<Longrightarrow> P (tab d')"
  shows "keeps (holds_of tab P) (transaction body)"
  using assms by (auto simp: keeps_def holds_of_def transaction_def split: sum.splits)

lemma holds_of_add_commit:
  assumes "\<And>d x d'. body d = Inr (x, d') \<Longrightarrow> P (tab d) \<Longrightarrow> P (tab d')"
  shows "keeps (holds_of tab P) (add_commit body)"
  using assms by (auto simp: keeps_def holds_of_def add_commit_def split: sum.splits)

lemma holds_of_modify: "(\<And>d. P (tab d) \<Longrightarrow> P (tab (f d))) \<Longrightarrow> keeps (holds_of tab P) (modify f)"
  by (auto simp: keeps_def holds_of_def modify_def)

lemma holds_of_session_scope:
  fixes body :: "('n, 'a) act"
  assumes "keeps (holds_of tab P) body"
  shows "keeps (holds_of tab P) (session_scope body)"
  unfolding keeps_def
proof (intro allI impI)
  fix w :: "'n world"
  assume "holds_of tab P w"
  then have "holds_of tab P (w\<lparr>view := stored w, in_tx := False\<rparr>)" by (simp add: holds_of_def)
  then have "holds_of tab P (snd (body (w\<lparr>view := stored w, in_tx := False\<rparr>)))"
    using assms by (simp add: keeps_def)
  then show "holds_of tab P (snd (session_scope body w))"
    by (cases "body (w\<lparr>view := stored w, in_tx := False\<rparr>)")
      (simp add: holds_of_def session_scope_def rollback_def)
qed

text \<open>Both copies of the tables unchanged.\<close>

definition tables_are :: "db \<Rightarrow> db \<Rightarrow> 'n world \<Rightarrow> bool" where
  "tables_are d s w \<longleftrightarrow> view w = d \<and> stored w = s"

lemma tables_are_quiet [keeps_rules]:
  "keeps (tables_are d s) new_uuid" "keeps (tables_are d s) now" "keeps (tables_are d s) (query f)"
  "keeps (tables_are d s) (live f)" "keeps (tables_are d s) (net_call m)"
  by (auto simp: keeps_def tables_are_def session_defs split: prod.split)

text \<open>A transaction is open and nothing has become durable.\<close>

definition unsaved :: "db \<Rightarrow> 'n world \<Rightarrow> bool" where
  "unsaved s w \<longleftrightarrow> stored w = s \<and> in_tx w"

lemma unsaved_quiet [keeps_rules]:
  "keeps (unsaved s) new_uuid" "keeps (unsaved s) now" "keeps (unsaved s) (query f)"
  "keeps (unsaved s) (live f)" "keeps (unsaved s) (net_call m)" "keeps (unsaved s) (modify g)"
  "keeps (unsaved s) (transaction body)"
  by (auto simp: keeps_def unsaved_def session_defs split: prod.split sum.split)

lemma unsaved_result [keeps_rules]: "keeps (unsaved s) (from_result r)"
  by (simp add: keeps_def from_result_def)

section \<open>What every action keeps\<close>

definition sound :: "db \<Rightarrow> 'n world \<Rightarrow> bool" where
  "sound d0 w \<longleftrightarrow> db_inv d0 \<and> ctl_reach d0 (stored w) \<and> ctl_reach (stored w) (view w) \<and>
     (in_tx w \<or> view w = stored w)"

lemma sound_inv:
  assumes "sound d0 w"
  shows "db_inv (stored w)" "db_inv (view w)"
  using assms ctl_reach_inv unfolding sound_def by blast+

lemma sound_stable:
  assumes "sound d0 w" "stable P" "P d0"
  shows "P (stored w)" "P (view w)"
  using assms stable_reach [of d0 "stored w" P] stable_reach [of "stored w" "view w" P]
    ctl_reach_inv [of d0 "stored w"] unfolding sound_def by blast+

text \<open>The session's tables after an action that does not roll back.\<close>

definition ahead :: "db \<Rightarrow> 'n world \<Rightarrow> bool" where
  "ahead d0 w \<longleftrightarrow> db_inv d0 \<and> ctl_reach d0 (view w)"

lemma ahead_inv: "ahead d0 w \<Longrightarrow> db_inv (view w)"
  using ctl_reach_inv unfolding ahead_def by blast

lemma ahead_stable: "ahead d0 w \<Longrightarrow> stable P \<Longrightarrow> P d0 \<Longrightarrow> P (view w)"
  using stable_reach unfolding ahead_def by blast

lemma ahead_run:
  assumes "keeps (ahead (view w)) m" "m w = (r, w')" "db_inv (view w)"
  shows "ctl_reach (view w) (view w')" "db_inv (view w')"
proof -
  have "ahead (view w) w" using assms(3) by (simp add: ahead_def ctl_refl)
  then have "ahead (view w) w'" using keepsD [OF assms(1) _ assms(2)] by blast
  then show "ctl_reach (view w) (view w')" "db_inv (view w')" using ahead_inv by (auto simp: ahead_def)
qed

lemma sound_quiet [keeps_rules]:
  "keeps (sound d0) new_uuid" "keeps (sound d0) now" "keeps (sound d0) (query f)"
  "keeps (sound d0) (live f)" "keeps (sound d0) commit" "keeps (sound d0) rollback"
  "keeps (sound d0) (net_call m)" "keeps (sound d0) (from_result r)"
  by (auto simp: keeps_def sound_def session_defs split: prod.split intro: ctl_refl ctl_trans)

lemma ahead_quiet [keeps_rules]:
  "keeps (ahead d0) new_uuid" "keeps (ahead d0) now" "keeps (ahead d0) (query f)"
  "keeps (ahead d0) (live f)" "keeps (ahead d0) commit"
  "keeps (ahead d0) (net_call m)" "keeps (ahead d0) (from_result r)"
  by (auto simp: keeps_def ahead_def session_defs split: prod.split)

lemma new_uuids_keeps [keeps_rules]: "keeps (sound d0) (new_uuids n)" "keeps (ahead d0) (new_uuids n)"
  by (induction n) (auto intro!: keeps_rules)

lemma sound_modify [keeps_rules]: "(\<And>d. ctl_step d (f d)) \<Longrightarrow> keeps (sound d0) (modify f)"
  by (auto simp: keeps_def sound_def modify_def intro: ctl_more)

lemma ahead_modify [keeps_rules]: "(\<And>d. ctl_step d (f d)) \<Longrightarrow> keeps (ahead d0) (modify f)"
  by (auto simp: keeps_def ahead_def modify_def intro: ctl_more)

lemma sound_session_scope:
  fixes body :: "('n, 'a) act"
  assumes "keeps (sound d0) body"
  shows "keeps (sound d0) (session_scope body)"
  unfolding keeps_def
proof (intro allI impI)
  fix w :: "'n world"
  assume w: "sound d0 w"
  have "sound d0 (w\<lparr>view := stored w, in_tx := False\<rparr>)" using w by (simp add: sound_def ctl_refl)
  then have "sound d0 (snd (body (w\<lparr>view := stored w, in_tx := False\<rparr>)))"
    using assms by (simp add: keeps_def)
  then show "sound d0 (snd (session_scope body w))"
    by (cases "body (w\<lparr>view := stored w, in_tx := False\<rparr>)")
      (simp add: sound_def session_scope_def rollback_def ctl_refl)
qed

text \<open>
  The contract between the session and a body that runs in a transaction: a successful body is
  one step. The session lemmas are proved once from it.
\<close>

locale session_op =
  fixes body :: "db \<Rightarrow> exn + 'a \<times> db"
  assumes body_step: "body d = Inr (x, d') \<Longrightarrow> db_inv d \<Longrightarrow> ctl_step d d'"
begin

lemma sound_transaction: "keeps (sound d0) (transaction body)"
  unfolding keeps_def
proof (intro allI impI)
  fix w :: "'n world"
  assume s: "sound d0 w"
  show "sound d0 (snd (transaction body w))"
  proof (cases "body (view w)")
    case (Inr y)
    obtain x d' where y: "y = (x, d')" by (cases y)
    have "ctl_step (view w) d'" using body_step [of "view w" x d'] Inr y sound_inv(2) [OF s] by simp
    then have "ctl_reach (stored w) d'" using s by (auto simp: sound_def intro: ctl_more)
    then show ?thesis using s Inr y
      by (auto simp: transaction_def sound_def intro: ctl_refl ctl_trans)
  qed (use s in \<open>simp add: transaction_def\<close>)
qed

lemma ahead_transaction: "keeps (ahead d0) (transaction body)"
  unfolding keeps_def
proof (intro allI impI)
  fix w :: "'n world"
  assume a: "ahead d0 w"
  show "ahead d0 (snd (transaction body w))"
  proof (cases "body (view w)")
    case (Inr y)
    obtain x d' where y: "y = (x, d')" by (cases y)
    have "ctl_step (view w) d'" using body_step [of "view w" x d'] Inr y ahead_inv [OF a] by simp
    then show ?thesis using a Inr y by (auto simp: transaction_def ahead_def intro: ctl_more)
  qed (use a in \<open>simp add: transaction_def\<close>)
qed

lemma sound_add_commit: "keeps (sound d0) (add_commit body)"
  unfolding keeps_def
proof (intro allI impI)
  fix w :: "'n world"
  assume s: "sound d0 w"
  show "sound d0 (snd (add_commit body w))"
  proof (cases "body (view w)")
    case (Inr y)
    obtain x d' where y: "y = (x, d')" by (cases y)
    have "ctl_step (view w) d'" using body_step [of "view w" x d'] Inr y sound_inv(2) [OF s] by simp
    then have "ctl_reach (stored w) d'" using s by (auto simp: sound_def intro: ctl_more)
    then show ?thesis using s Inr y
      by (auto simp: add_commit_def sound_def intro: ctl_refl ctl_trans)
  qed (use s in \<open>simp add: add_commit_def sound_def ctl_refl\<close>)
qed

end

interpretation op_create_object: session_op "create_object i nm" for i nm
  by unfold_locales (blast intro: ctl_meta meta_step.intros)

interpretation op_create_version: session_op "create_version i ob sz c e" for i ob sz c e
  by unfold_locales (blast intro: ctl_meta meta_step.intros)

interpretation op_commit_version: session_op "commit_version t v e" for t v e
  by unfold_locales (blast intro: ctl_meta meta_step.intros)

interpretation op_fail_version: session_op "fail_version v" for v
  by unfold_locales (blast intro: ctl_meta meta_step.intros)

interpretation op_transition_object: session_op "transition_object_state i st" for i st
  by unfold_locales (blast intro: ctl_meta meta_step.intros)

interpretation op_transition_node: session_op "transition_node_state i st" for i st
  by unfold_locales (blast intro: ctl_meta meta_step.intros)

interpretation op_create_replicas: session_op "create_replicas ids v ns" for ids v ns
  by unfold_locales (blast intro: ctl_meta meta_step.intros)

interpretation op_set_replica_states: session_op "set_replica_states ids st" for ids st
  by unfold_locales (blast intro: ctl_meta meta_step.intros)

interpretation op_create_replica: session_op "create_replica i v n" for i v n
  by unfold_locales (blast intro: ctl_meta meta_step.intros)

interpretation op_set_replica_state: session_op "set_replica_state i st" for i st
  by unfold_locales (blast intro: ctl_meta meta_step.intros)

interpretation op_record_verification: session_op "record_replica_verification t i c s" for t i c s
  by unfold_locales (blast intro: ctl_meta meta_step.intros)

interpretation op_mark_healthy: session_op "mark_replica_healthy t i c s" for t i c s
  by unfold_locales (blast intro: ctl_meta meta_step.intros)

interpretation op_remove_replica: session_op "remove_replica i" for i
  by unfold_locales (blast intro: ctl_meta meta_step.intros)

interpretation op_register_node: session_op "register_node u i a c st" for u i a c st
  by unfold_locales (blast intro: ctl_meta meta_step.intros)

interpretation op_heartbeat: session_op "process_node_heartbeat i c u t" for i c u t
  by unfold_locales (blast intro: ctl_meta meta_step.intros)

lemma insert_jobs_step:
  "insert_repair j d = Inr x \<Longrightarrow> rp_attempts j = 0 \<Longrightarrow> ctl_step d (snd x)"
  "insert_rebalance j' d = Inr y \<Longrightarrow> rb_attempts j' = 0 \<Longrightarrow> ctl_step d (snd y)"
  "insert_integrity k d = Inr z \<Longrightarrow> ctl_step d (snd z)"
  by (metis ctl_step.intros prod.collapse)+

interpretation op_insert_repair: session_op "insert_repair (j\<lparr>rp_attempts := 0\<rparr>)" for j
  by unfold_locales (use insert_jobs_step(1) in fastforce)

interpretation op_insert_rebalance: session_op "insert_rebalance (j\<lparr>rb_attempts := 0\<rparr>)" for j
  by unfold_locales (use insert_jobs_step(2) in fastforce)

interpretation op_insert_integrity: session_op "insert_integrity j" for j
  by unfold_locales (use insert_jobs_step(3) in fastforce)

lemmas sound_ops [keeps_rules] =
  op_create_object.sound_transaction op_create_version.sound_transaction
  op_commit_version.sound_transaction op_fail_version.sound_transaction
  op_transition_object.sound_transaction op_transition_node.sound_transaction
  op_create_replicas.sound_transaction op_set_replica_states.sound_transaction
  op_create_replica.sound_transaction op_set_replica_state.sound_transaction
  op_record_verification.sound_transaction op_mark_healthy.sound_transaction
  op_remove_replica.sound_transaction op_register_node.sound_transaction
  op_heartbeat.sound_transaction op_insert_integrity.sound_add_commit

lemmas ahead_ops [keeps_rules] =
  op_create_object.ahead_transaction op_create_version.ahead_transaction
  op_commit_version.ahead_transaction op_fail_version.ahead_transaction
  op_transition_object.ahead_transaction op_transition_node.ahead_transaction
  op_create_replicas.ahead_transaction op_set_replica_states.ahead_transaction
  op_create_replica.ahead_transaction op_set_replica_state.ahead_transaction
  op_record_verification.ahead_transaction op_mark_healthy.ahead_transaction
  op_remove_replica.ahead_transaction op_register_node.ahead_transaction
  op_heartbeat.ahead_transaction

end
