(* ===== verification/Placement.thy ===== *)
theory Placement
  imports Db_Session
begin

text \<open>
  \<^verbatim>\<open>placement/manager.py\<close>: capacity-aware selection of target nodes. The query's
  \<open>ORDER BY\<close> (free capacity descending, node id ascending) is \<open>node_order\<close>; node ids are
  compared by code points.
\<close>

definition placement_policy :: "int \<Rightarrow> exn + int" where
  "placement_policy replication_factor =
     (if replication_factor < 1 then Inl ValueError else Inr replication_factor)"

definition validate_size :: "int \<Rightarrow> exn + unit" where
  "validate_size size_bytes = (if size_bytes < 0 then Inl ValueError else Inr ())"

definition validate_factor :: "int \<Rightarrow> exn + unit" where
  "validate_factor replication_factor = (if replication_factor < 1 then Inl ValueError else Inr ())"

definition node_order :: "node_row \<Rightarrow> int \<times> string" where
  "node_order n = (- (n_capacity n - n_used n), n_id n)"

definition placeable :: "db \<Rightarrow> uuid \<Rightarrow> int \<Rightarrow> node_row \<Rightarrow> bool" where
  "placeable d version_id size_bytes n \<longleftrightarrow>
     n_status n = NS_HEALTHY \<and> size_bytes \<le> n_capacity n - n_used n \<and>
     replica_on d version_id (n_id n) = None"

definition candidates :: "uuid \<Rightarrow> int \<Rightarrow> nat \<Rightarrow> db \<Rightarrow> node_row list" where
  "candidates version_id size_bytes factor d =
     take factor (sort_key node_order (filter (placeable d version_id size_bytes) (nodes d)))"

definition select_nodes :: "int \<Rightarrow> uuid \<Rightarrow> int \<Rightarrow> int option \<Rightarrow> ('n, node_row list) act" where
  "select_nodes policy_factor version_id size_bytes replication_factor =
     bindA (from_result (validate_size size_bytes)) (\<lambda>_.
     let factor = (case replication_factor of None \<Rightarrow> policy_factor | Some f \<Rightarrow> f) in
     bindA (from_result (validate_factor factor)) (\<lambda>_.
     bindA (query (candidates version_id size_bytes (nat factor))) (\<lambda>cands.
     if int (length cands) < factor then raiseA (VaultE (VaultError INSUFFICIENT_REPLICAS 503))
     else retA (take (nat factor) cands))))"

definition plan_for_version :: "int \<Rightarrow> uuid \<Rightarrow> int \<Rightarrow> int option \<Rightarrow> ('n, string list) act" where
  "plan_for_version policy_factor version_id size_bytes replication_factor =
     bindA (select_nodes policy_factor version_id size_bytes replication_factor)
       (\<lambda>ns. retA (map n_id ns))"

section \<open>Lemmas\<close>

lemma candidates_set: "set (candidates v s k d) \<subseteq> {n \<in> set (nodes d). placeable d v s n}"
  by (auto simp: candidates_def dest!: in_set_takeD)

lemma candidates_ids_distinct:
  assumes "db_inv d"
  shows "distinct (map n_id (candidates v s k d))"
proof -
  have "distinct (map n_id (filter (placeable d v s) (nodes d)))"
    using db_inv_distinct(4) [OF assms] by (rule distinct_map_filter)
  then have "distinct (map n_id (sort_key node_order (filter (placeable d v s) (nodes d))))"
    by (simp add: distinct_map)
  then show ?thesis by (simp add: candidates_def take_map [symmetric])
qed

lemma candidates_best:
  assumes "n \<in> set (candidates v s k d)" "m \<in> set (nodes d)" "placeable d v s m"
    "m \<notin> set (candidates v s k d)"
  shows "node_order n \<le> node_order m"
  using assms take_sort_key_minimal [of n k node_order "filter (placeable d v s) (nodes d)" m]
  by (simp add: candidates_def)

lemma candidates_sorted: "sorted (map node_order (candidates v s k d))"
  unfolding candidates_def take_map [symmetric] by (rule sorted_wrt_take) simp

lemma candidates_length:
  "length (candidates v s k d) = min k (length (filter (placeable d v s) (nodes d)))"
  by (simp add: candidates_def)

lemma select_nodes_eq:
  "select_nodes pf v s rf w =
    (let factor = (case rf of None \<Rightarrow> pf | Some f \<Rightarrow> f) in
     if s < 0 \<or> factor < 1 then (Inl ValueError, w)
     else (if int (length (filter (placeable (view w) v s) (nodes (view w)))) < factor
           then Inl (VaultE (VaultError INSUFFICIENT_REPLICAS 503))
           else Inr (candidates v s (nat factor) (view w)), w\<lparr>in_tx := True\<rparr>))"
  by (auto simp: select_nodes_def validate_size_def validate_factor_def Let_def bindA_def
      from_result_def query_def retA_def raiseA_def candidates_length)

lemma select_nodes_keeps [keeps_rules]:
  "keeps (sound d0) (select_nodes pf v s rf)" "keeps (ahead d0) (select_nodes pf v s rf)"
  unfolding select_nodes_def by (intro keeps_rules)+

section \<open>Guarantees\<close>

text \<open>C30. Node selection returns exactly the requested number of distinct nodes, in preference
  order, each HEALTHY, with room for the object and without a replica of the version, and no
  node that was passed over is preferable to a selected one.\<close>

theorem select_nodes_sound:
  assumes "db_inv (view w)" "select_nodes pf v s rf w = (Inr ns, w')"
    "factor = (case rf of None \<Rightarrow> pf | Some f \<Rightarrow> f)"
  shows "int (length ns) = factor \<and> distinct (map n_id ns) \<and> sorted (map node_order ns) \<and>
    (\<forall>n\<in>set ns. n \<in> set (nodes (view w)) \<and> n_status n = NS_HEALTHY \<and> s \<le> free_bytes n \<and>
       replica_on (view w) v (n_id n) = None) \<and>
    (\<forall>n\<in>set ns. \<forall>m\<in>set (nodes (view w)). placeable (view w) v s m \<longrightarrow> m \<notin> set ns \<longrightarrow>
       node_order n \<le> node_order m)"
proof -
  have ns: "ns = candidates v s (nat factor) (view w)" "1 \<le> factor"
    "factor \<le> int (length (filter (placeable (view w) v s) (nodes (view w))))"
    using assms(2,3) by (auto simp: select_nodes_eq Let_def split: if_splits)
  have "int (length ns) = factor" using ns by (auto simp: candidates_length)
  moreover have "\<forall>n\<in>set ns. n \<in> set (nodes (view w)) \<and> placeable (view w) v s n"
    using candidates_set ns(1) by fastforce
  ultimately show ?thesis
    using candidates_ids_distinct [OF assms(1), of v s] candidates_sorted [of v s] candidates_best [of _ v s]
    by (auto simp: ns(1) placeable_def free_bytes_def)
qed

text \<open>Node selection fails only when it must: with a valid request it succeeds exactly when
  enough nodes are eligible, and otherwise raises INSUFFICIENT_REPLICAS; it never changes a
  table.\<close>

theorem select_nodes_complete:
  assumes "0 \<le> s" "1 \<le> factor"
  shows "(if int (length (filter (placeable (view w) v s) (nodes (view w)))) < factor
          then fst (select_nodes pf v s (Some factor) w) = Inl (VaultE (VaultError INSUFFICIENT_REPLICAS 503))
          else \<exists>ns. fst (select_nodes pf v s (Some factor) w) = Inr ns) \<and>
    view (snd (select_nodes pf v s (Some factor) w)) = view w"
  using assms by (simp add: select_nodes_eq)

text \<open>Three nodes, one of them draining.\<close>

definition demo_nodes :: "node_row list" where
  "demo_nodes = [demo_node\<lparr>n_id := ''n1'', n_address := ''u1'', n_used := 50\<rparr>,
     demo_node\<lparr>n_id := ''n2'', n_address := ''u2''\<rparr>,
     demo_node\<lparr>n_id := ''n3'', n_address := ''u3'', n_status := NS_DRAINING\<rparr>]"

definition demo_world :: "db \<Rightarrow> 'n \<Rightarrow> 'n world" where
  "demo_world d n = \<lparr>view = d, stored = d, in_tx = False, uuid_feed = (\<lambda>i. 100 + i), uuid_pos = 0,
     now_feed = int, now_pos = 0, net = n\<rparr>"

lemma demo_nodes_inv: "db_inv (demo_committed\<lparr>nodes := demo_nodes\<rparr>)"
proof -
  have "replicas demo_committed = [] \<and> repair_jobs demo_committed = [] \<and>
    rebalance_jobs demo_committed = []" by code_simp
  moreover have "distinct (map n_id demo_nodes) \<and> distinct (map n_address demo_nodes) \<and>
    (\<forall>n\<in>set demo_nodes. n_id n \<noteq> [] \<and> strip (n_id n) = n_id n \<and> 0 \<le> n_used n \<and> n_used n \<le> n_capacity n)"
    by code_simp
  ultimately show ?thesis using demo_committed_inv by (simp add: inv_defs)
qed

theorem select_nodes_sound_witness:
  "\<exists>ns. fst (select_nodes 3 10 20 (Some 2) (demo_world (demo_committed\<lparr>nodes := demo_nodes\<rparr>) ())) = Inr ns \<and>
     int (length ns) = 2 \<and> sorted (map node_order ns)"
proof -
  let ?w = "demo_world (demo_committed\<lparr>nodes := demo_nodes\<rparr>) ()"
  obtain r w' where sel: "select_nodes 3 10 20 (Some 2) ?w = (r, w')" by fastforce
  have "length (filter (placeable (view ?w) 10 20) (nodes (view ?w))) = 2"
    by code_simp
  with sel obtain ns where "r = Inr ns" by (auto simp: select_nodes_eq Let_def split: if_splits)
  with sel have "select_nodes 3 10 20 (Some 2) ?w = (Inr ns, w')" by simp
  from select_nodes_sound [OF _ this] demo_nodes_inv this show ?thesis by (simp add: demo_world_def)
qed

theorem select_nodes_complete_witness:
  "fst (select_nodes 3 10 60 (Some 2) (demo_world (demo_committed\<lparr>nodes := demo_nodes\<rparr>) ())) =
     Inl (VaultE (VaultError INSUFFICIENT_REPLICAS 503))"
proof -
  let ?w = "demo_world (demo_committed\<lparr>nodes := demo_nodes\<rparr>) ()"
  have "length (filter (placeable (view ?w) 10 60) (nodes (view ?w))) = 1" by code_simp
  then show ?thesis using select_nodes_complete [of 60 2 ?w 10 3] by simp
qed

end
