(* ===== verification/Storage_Client.thy ===== *)
theory Storage_Client
  imports Placement "HOL-Library.Word"
begin

text \<open>
  The interface between the control plane and the storage nodes. The managers receive a
  \<open>client_factory\<close> and talk to nodes only through it, so the model takes a record of client
  operations on an arbitrary network state \<open>'n\<close>; what a manager guarantees without hypotheses
  on the client holds for every network behaviour. \<open>Node_Client\<close> gives the record of
  \<^verbatim>\<open>replication/node_client.py\<close>. Closing a client only releases connections and is
  not modelled.

  A payload is the sequence of chunks an asynchronous iterator yields, with the exception it
  ends with, if any.
\<close>

type_synonym byte = "8 word"

datatype payload = Payload (chunks: "byte list list") (abort: "exn option")

record verified_object =
  vo_size :: int
  vo_checksum :: string
  vo_verified :: bool
  vo_valid :: bool

record node_health =
  nh_status :: string
  nh_node_id :: string

record node_stats =
  st_node_id :: string
  st_capacity :: int
  st_used :: int
  st_free :: int

text \<open>Arguments: the node's address, then the object id and the version id as strings.\<close>

record 'n client =
  c_open :: "string \<Rightarrow> (exn, 'n, unit) action"
  c_put :: "string \<Rightarrow> string \<Rightarrow> string \<Rightarrow> payload \<Rightarrow> (exn, 'n, int) action"
  c_verify :: "string \<Rightarrow> string \<Rightarrow> string \<Rightarrow> bool \<Rightarrow> (exn, 'n, verified_object) action"
  c_delete :: "string \<Rightarrow> string \<Rightarrow> string \<Rightarrow> (exn, 'n, unit) action"
  c_stream :: "string \<Rightarrow> string \<Rightarrow> string \<Rightarrow> (exn, 'n, payload) action"
  c_head :: "string \<Rightarrow> string \<Rightarrow> string \<Rightarrow> (exn, 'n, int) action"
  c_health :: "string \<Rightarrow> (exn, 'n, node_health) action"
  c_stats :: "string \<Rightarrow> (exn, 'n, node_stats) action"

text \<open>The measurement agrees with the metadata of a version.\<close>

definition matches_version :: "verified_object \<Rightarrow> version_row \<Rightarrow> bool" where
  "matches_version m v \<longleftrightarrow> lower (vo_checksum m) = lower (v_checksum v) \<and> vo_size m = v_size v"

abbreviation caught_errors :: "exn \<Rightarrow> bool" where
  "caught_errors e \<equiv> is_client_error e \<or> is_vault_error e"

section \<open>Effects of the replica operations on other rows\<close>

lemma set_replica_state_frame:
  assumes "set_replica_state i st d = Inr (r, d')"
  shows "objects d' = objects d" "versions d' = versions d" "nodes d' = nodes d"
    "\<And>j. j \<noteq> i \<Longrightarrow> get_replica_row d' j = get_replica_row d j"
    "get_replica_row d' i = Some r" "r_status r = st" "repair_jobs d' = repair_jobs d"
    "rebalance_jobs d' = rebalance_jobs d" "integrity_jobs d' = integrity_jobs d"
    "\<exists>q. get_replica_row d i = Some q \<and> r = q\<lparr>r_status := st\<rparr>"
proof -
  obtain q where q: "get_replica_row d i = Some q" using assms
    by (auto simp: set_replica_state_def lock_replica_def bindE_Inr_iff some_or_Inr_iff)
  show "objects d' = objects d" "versions d' = versions d" "nodes d' = nodes d"
    "\<And>j. j \<noteq> i \<Longrightarrow> get_replica_row d' j = get_replica_row d j"
    "get_replica_row d' i = Some r" "r_status r = st" "repair_jobs d' = repair_jobs d"
    "rebalance_jobs d' = rebalance_jobs d" "integrity_jobs d' = integrity_jobs d"
    "\<exists>q. get_replica_row d i = Some q \<and> r = q\<lparr>r_status := st\<rparr>"
    using assms q by (auto simp: set_replica_state_def lock_replica_def row_lookups split: if_splits)
qed

lemma mark_replica_healthy_frame:
  assumes "mark_replica_healthy t i c s d = Inr (r, d')"
  shows "objects d' = objects d" "versions d' = versions d" "nodes d' = nodes d"
    "\<And>j. j \<noteq> i \<Longrightarrow> get_replica_row d' j = get_replica_row d j"
    "get_replica_row d' i = Some r" "r_status r = RS_HEALTHY" "repair_jobs d' = repair_jobs d"
    "rebalance_jobs d' = rebalance_jobs d" "integrity_jobs d' = integrity_jobs d"
    "\<exists>q. get_replica_row d i = Some q \<and> r_version_id r = r_version_id q \<and> r_node_id r = r_node_id q \<and>
      r_status q \<in> {RS_COPYING, RS_REPAIRING}"
  using assms
  by (cases rule: mark_replica_healthy_shape;
      auto simp: lock_replica_def some_or_Inr_iff row_lookups)+

lemma create_replica_frame:
  assumes "create_replica i v n d = Inr (r, d')"
  shows "objects d' = objects d" "versions d' = versions d" "nodes d' = nodes d"
    "replicas d' = replicas d @ [r]" "r = new_replica i v (strip n)"
    "repair_jobs d' = repair_jobs d" "rebalance_jobs d' = rebalance_jobs d"
    "integrity_jobs d' = integrity_jobs d" "replica_on d v (strip n) = None"
  using assms by (auto simp: create_replica_def Let_def split: if_splits)

section \<open>Counting healthy replicas\<close>

lemma healthy_count_ge:
  assumes "db_inv d" "distinct ids"
    "\<forall>i\<in>set ids. \<exists>r. get_replica_row d i = Some r \<and> r_version_id r = v \<and> r_status r = RS_HEALTHY"
  shows "length ids \<le> healthy_count d v"
proof -
  let ?S = "filter (\<lambda>r. r_version_id r = v \<and> r_status r = RS_HEALTHY) (replicas d)"
  have "i \<in> r_id ` set ?S" if i: "i \<in> set ids" for i
  proof -
    obtain r where r: "get_replica_row d i = Some r" "r_version_id r = v" "r_status r = RS_HEALTHY"
      using assms(3) i by blast
    then show ?thesis using lookup_by_SomeD [OF r(1)] by (intro image_eqI [of _ _ r]) simp_all
  qed
  then have "card (set ids) \<le> card (r_id ` set ?S)" by (intro card_mono) auto
  also have "\<dots> \<le> card (set ?S)" by (rule card_image_le) simp
  also have "\<dots> \<le> length ?S" by (rule card_length)
  finally show ?thesis using distinct_card [OF assms(2)] by (simp add: healthy_count_def count_rows_def)
qed

end
