(* ===== verification/Sha256.thy ===== *)
theory Sha256
  imports Storage_Client
begin

text \<open>
  SHA-256 as \<open>hashlib.sha256\<close> computes it, on lists of bytes, with the lower-case hexadecimal
  digest the storage engine stores. \<open>update\<close> appends to the message, so a digest object is
  modelled by the bytes it has been fed.
\<close>

unbundle bit_operations_syntax

type_synonym word32 = "32 word"

text \<open>
  The constants are the first 32 bits of the fractional parts of roots of primes: cube roots of the
  first 64 primes for the rounds, square roots of the first eight for the initial state.
\<close>

definition small_primes :: "nat list" where
  "small_primes = filter (\<lambda>n. \<forall>d\<in>set [2..<n]. n mod d \<noteq> 0) [2..<312]"

text \<open>The greatest \<open>r\<close> with \<open>r ^ m \<le> n\<close>, bit by bit, for results below \<open>2 ^ 36\<close>.\<close>

definition int_root :: "nat \<Rightarrow> nat \<Rightarrow> nat" where
  "int_root m n = foldl (\<lambda>r b. if (r + 2 ^ b) ^ m \<le> n then r + 2 ^ b else r) 0 (rev [0..<36])"

definition root_fraction :: "nat \<Rightarrow> nat \<Rightarrow> word32" where
  "root_fraction m p = of_nat (int_root m (p * 2 ^ (32 * m)))"

definition round_constants :: "word32 list" where
  "round_constants = map (root_fraction 3) small_primes"

definition initial_hash :: "word32 list" where
  "initial_hash = map (root_fraction 2) [2, 3, 5, 7, 11, 13, 17, 19]"

definition rotr :: "nat \<Rightarrow> word32 \<Rightarrow> word32" where
  "rotr n x = (drop_bit n x) OR (push_bit (32 - n) x)"

definition small_sigma0 :: "word32 \<Rightarrow> word32" where
  "small_sigma0 x = rotr 7 x XOR rotr 18 x XOR drop_bit 3 x"

definition small_sigma1 :: "word32 \<Rightarrow> word32" where
  "small_sigma1 x = rotr 17 x XOR rotr 19 x XOR drop_bit 10 x"

definition big_sigma0 :: "word32 \<Rightarrow> word32" where
  "big_sigma0 x = rotr 2 x XOR rotr 13 x XOR rotr 22 x"

definition big_sigma1 :: "word32 \<Rightarrow> word32" where
  "big_sigma1 x = rotr 6 x XOR rotr 11 x XOR rotr 25 x"

definition choice :: "word32 \<Rightarrow> word32 \<Rightarrow> word32 \<Rightarrow> word32" where
  "choice e f g = (e AND f) XOR (NOT e AND g)"

definition majority :: "word32 \<Rightarrow> word32 \<Rightarrow> word32 \<Rightarrow> word32" where
  "majority a b c = (a AND b) XOR (a AND c) XOR (b AND c)"

text \<open>The message schedule, newest word first.\<close>

primrec extend_schedule :: "nat \<Rightarrow> word32 list \<Rightarrow> word32 list" where
  "extend_schedule 0 ws = ws"
| "extend_schedule (Suc n) ws =
     extend_schedule n ((small_sigma1 (ws ! 1) + ws ! 6 + small_sigma0 (ws ! 14) + ws ! 15) # ws)"

definition hash_round :: "word32 list \<Rightarrow> word32 \<times> word32 \<Rightarrow> word32 list" where
  "hash_round st kw =
     (case st of
        [a, b, c, d, e, f, g, h] \<Rightarrow>
          let t1 = h + big_sigma1 e + choice e f g + fst kw + snd kw;
              t2 = big_sigma0 a + majority a b c
          in [t1 + t2, a, b, c, d + t1, e, f, g]
      | _ \<Rightarrow> st)"

definition compress :: "word32 list \<Rightarrow> word32 list \<Rightarrow> word32 list" where
  "compress st block =
     map2 (+) st (foldl hash_round st (zip round_constants (rev (extend_schedule 48 (rev block)))))"

definition word_of_bytes :: "byte list \<Rightarrow> word32" where
  "word_of_bytes bs = foldl (\<lambda>w b. push_bit 8 w OR ucast b) 0 bs"

fun group :: "nat \<Rightarrow> 'a list \<Rightarrow> 'a list list" where
  "group n xs = (if n = 0 \<or> xs = [] then [] else take n xs # group n (drop n xs))"

declare group.simps [simp del]

definition length_bytes :: "nat \<Rightarrow> byte list" where
  "length_bytes n = map (\<lambda>i. ucast (drop_bit (56 - 8 * i) (of_nat (8 * n) :: 64 word))) [0..<8]"

definition pad_message :: "byte list \<Rightarrow> byte list" where
  "pad_message m = m @ [0x80] @ replicate ((119 - length m mod 64) mod 64) 0 @ length_bytes (length m)"

definition sha256_words :: "byte list \<Rightarrow> word32 list" where
  "sha256_words m = foldl compress initial_hash (map (map word_of_bytes) (map (group 4) (group 64 (pad_message m))))"

definition hex_of_word :: "word32 \<Rightarrow> string" where
  "hex_of_word w = map (\<lambda>i. hexdigits ! unat (drop_bit (28 - 4 * i) w AND 15)) [0..<8]"

definition sha256 :: "byte list \<Rightarrow> string" where
  "sha256 m = concat (map hex_of_word (sha256_words m))"

section \<open>The shape of a digest\<close>

lemma length_hash_round: "length st = 8 \<Longrightarrow> length (hash_round st kw) = 8"
  by (auto simp: hash_round_def Let_def split: list.split)

lemma length_compress: "length st = 8 \<Longrightarrow> length (compress st block) = 8"
proof -
  have "length (foldl hash_round s xs) = 8" if "length s = 8" for s xs
    using that by (induction xs arbitrary: s) (simp_all add: length_hash_round)
  then show "length st = 8 \<Longrightarrow> ?thesis" by (simp add: compress_def)
qed

lemma length_sha256_words: "length (sha256_words m) = 8"
proof -
  have "length (foldl compress s xs) = 8" if "length s = 8" for s xs
    using that by (induction xs arbitrary: s) (simp_all add: length_compress)
  then show ?thesis by (simp add: sha256_words_def initial_hash_def)
qed

lemma hex_of_word_shape: "length (hex_of_word w) = 8" "set (hex_of_word w) \<subseteq> set hexdigits"
proof -
  have "length hexdigits = 16" by (simp add: hexdigits_def)
  moreover have "unat (x AND 15) < 16" for x :: word32
    using word_and_le1 [of x 15] by (simp add: word_le_nat_alt)
  ultimately have "hexdigits ! unat (x AND 15) \<in> set hexdigits" for x :: word32 by (simp only: nth_mem)
  then show "length (hex_of_word w) = 8" "set (hex_of_word w) \<subseteq> set hexdigits" by (auto simp: hex_of_word_def)
qed

lemma sha256_shape: "checksum_ok (sha256 m)"
proof -
  have "length (concat (map hex_of_word ws)) = 8 * length ws" "set (concat (map hex_of_word ws)) \<subseteq> set hexdigits" for ws
    using hex_of_word_shape by (induction ws) (auto simp: subset_iff)
  then show ?thesis using length_sha256_words [of m] by (simp add: checksum_ok_def sha256_def)
qed

end
