(* ===== verification/Storage_Engine.thy ===== *)
theory Storage_Engine
  imports Sha256
begin

text \<open>
  \<^verbatim>\<open>storage/storage_engine.py\<close>: the chunked object store of a storage node. The state
  holds the published version directories, the object ids whose directory is a symbolic link, the
  uploads in progress (their local variables and their staging directory), the capacity accounting
  and the set of keys in flight. The operating system is three feeds: whether the next file-system
  operation succeeds, how much space \<open>shutil.disk_usage\<close> reports next, and which entries an
  interrupted removal leaves behind.

  A version directory is split into its \<^verbatim>\<open>metadata.json\<close> and its other entries. A metadata file
  is represented by the JSON value its text denotes. Every step that the code runs under its lock, and every step on files
  only the upload itself knows, is one operation of the model; \<open>engine_step\<close> interleaves them.
\<close>

section \<open>Files and state\<close>

datatype json_float = Finite rat | Not_Finite | Not_A_Number

datatype json =
    JNull | JBool bool | JInt int | JFloat json_float | JStr string | JList "json list"
  | JObj "(string \<times> json) list"

text \<open>
  A metadata file holds a JSON value, text that is no JSON, or bytes that are no UTF-8; or its
  name is a symbolic link, to a file or to something else.
\<close>

datatype meta_entry = MetaFile json | MetaBroken | MetaUndecodable | MetaLink bool

datatype dir_entry = PlainFile "byte list" | SymLink | OtherEntry

type_synonym version_key = "string \<times> string"

record version_dir =
  vd_key :: version_key
  vd_link :: bool
  vd_meta :: "meta_entry option"
  vd_files :: "(string \<times> dir_entry) list"

record upload =
  up_key :: version_key
  up_files :: "byte list list"
  up_open :: "byte list option"
  up_digests :: "string list"
  up_fed :: "byte list"
  up_size :: nat
  up_reserved :: nat
  up_published :: bool

record engine =
  en_capacity :: int
  en_chunk_size :: nat
  en_used :: int
  en_reserved :: int
  en_inflight :: "version_key list"
  en_dirs :: "version_dir list"
  en_links :: "string list"
  en_uploads :: "upload list"
  en_disk_free :: "nat \<Rightarrow> int"
  en_disk_pos :: nat
  en_io :: "nat \<Rightarrow> bool"
  en_io_pos :: nat
  en_left :: "nat \<Rightarrow> string \<Rightarrow> bool"

datatype engine_error =
    ObjectNotFoundError | ObjectAlreadyExistsError | StorageFullError | StorageError
  | EngineValueError | EngineOverflowError | EngineOSError | StreamError exn

type_synonym 'a eng = "(engine_error, engine, 'a) action"

record storage_stats =
  ss_capacity :: int
  ss_used :: int
  ss_free :: int

definition MAX_VERIFY_CHUNKS :: nat where
  "MAX_VERIFY_CHUNKS = 1000000"

definition MAX_IDENTIFIER_LENGTH :: nat where
  "MAX_IDENTIFIER_LENGTH = 128"

definition valid_id :: "string \<Rightarrow> bool" where
  "valid_id s \<longleftrightarrow> s \<noteq> [] \<and> length s \<le> MAX_IDENTIFIER_LENGTH \<and> s \<notin> {''.'', ''..''} \<and>
     CHR ''/'' \<notin> set s \<and> CHR 0x5C \<notin> set s \<and> CHR 0x00 \<notin> set s"

definition valid_ids :: "version_key \<Rightarrow> bool" where
  "valid_ids k \<longleftrightarrow> valid_id (fst k) \<and> valid_id (snd k)"

text \<open>A file-system operation that may fail.\<close>

definition io :: "unit eng" where
  "io e = (if en_io e (en_io_pos e) then (Inr (), e\<lparr>en_io_pos := Suc (en_io_pos e)\<rparr>)
           else (Inl EngineOSError, e\<lparr>en_io_pos := Suc (en_io_pos e)\<rparr>))"

definition gets :: "(engine \<Rightarrow> 'a) \<Rightarrow> 'a eng" where
  "gets f e = (Inr (f e), e)"

definition change :: "(engine \<Rightarrow> engine) \<Rightarrow> unit eng" where
  "change f e = (Inr (), f e)"

abbreviation get_dir :: "engine \<Rightarrow> version_key \<Rightarrow> version_dir option" where
  "get_dir e k \<equiv> lookup_by vd_key k (en_dirs e)"

abbreviation get_upload :: "engine \<Rightarrow> version_key \<Rightarrow> upload option" where
  "get_upload e k \<equiv> lookup_by up_key k (en_uploads e)"

definition upd_upload :: "version_key \<Rightarrow> (upload \<Rightarrow> upload) \<Rightarrow> unit eng" where
  "upd_upload k f = change (\<lambda>e. e\<lparr>en_uploads := update_by up_key k f (en_uploads e)\<rparr>)"

section \<open>Chunk names\<close>

fun nat_digits :: "nat \<Rightarrow> string" where
  "nat_digits n = (if n < 10 then [char_of (48 + n)] else nat_digits (n div 10) @ [char_of (48 + n mod 10)])"

declare nat_digits.simps [simp del]

definition CHUNK_PREFIX :: string where
  "CHUNK_PREFIX = ''chunk-''"

definition chunk_name :: "nat \<Rightarrow> string" where
  "chunk_name i = CHUNK_PREFIX @ replicate (6 - length (nat_digits i)) (CHR ''0'') @ nat_digits i"

definition is_chunk_name :: "string \<Rightarrow> bool" where
  "is_chunk_name s \<longleftrightarrow> take 6 s = CHUNK_PREFIX"

text \<open>\<open>str.isdigit\<close> on the code points below 256 also holds of three superscripts, which \<open>int\<close> refuses.\<close>

abbreviation is_decimal :: "char \<Rightarrow> bool" where
  "is_decimal c \<equiv> 48 \<le> (of_char c :: nat) \<and> (of_char c :: nat) \<le> 57"

definition is_digit :: "char \<Rightarrow> bool" where
  "is_digit c \<longleftrightarrow> is_decimal c \<or> (of_char c :: nat) \<in> {178, 179, 185}"

definition decimal_value :: "string \<Rightarrow> nat" where
  "decimal_value s = foldl (\<lambda>n c. 10 * n + (of_char c - 48)) 0 s"

definition parse_chunk_index :: "string \<Rightarrow> engine_error + nat option" where
  "parse_chunk_index name =
     (let suffix = drop 6 name in
      if length suffix \<noteq> 6 \<or> \<not> (\<forall>c\<in>set suffix. is_digit c) then Inr None
      else if \<forall>c\<in>set suffix. is_decimal c then Inr (Some (decimal_value suffix))
      else Inl EngineValueError)"

section \<open>Capacity\<close>

definition meta_is_file :: "meta_entry option \<Rightarrow> bool" where
  "meta_is_file m \<longleftrightarrow> m \<noteq> None \<and> m \<noteq> Some (MetaLink False)"

definition exists_version :: "engine \<Rightarrow> version_key \<Rightarrow> bool" where
  "exists_version e k \<longleftrightarrow> (case get_dir e k of None \<Rightarrow> False | Some d \<Rightarrow> meta_is_file (vd_meta d))"

definition logical_free :: "engine \<Rightarrow> int" where
  "logical_free e = max (en_capacity e - en_used e - en_reserved e) 0"

definition reserve_capacity :: "nat \<Rightarrow> unit eng" where
  "reserve_capacity n e =
     (let free_bytes = min (logical_free e) (en_disk_free e (en_disk_pos e));
          e' = e\<lparr>en_disk_pos := Suc (en_disk_pos e)\<rparr> in
      if free_bytes < int n then (Inl StorageFullError, e')
      else (Inr (), e'\<lparr>en_reserved := en_reserved e + int n\<rparr>))"

definition release_capacity :: "nat \<Rightarrow> unit eng" where
  "release_capacity n = change (\<lambda>e. e\<lparr>en_reserved := max (en_reserved e - int n) 0\<rparr>)"

definition stats :: "storage_stats eng" where
  "stats e = (Inr \<lparr>ss_capacity = en_capacity e, ss_used = en_used e,
      ss_free = min (logical_free e) (en_disk_free e (en_disk_pos e))\<rparr>,
    e\<lparr>en_disk_pos := Suc (en_disk_pos e)\<rparr>)"

definition chunk_bytes :: "string \<times> dir_entry \<Rightarrow> nat" where
  "chunk_bytes f = (case snd f of PlainFile bs \<Rightarrow> if is_chunk_name (fst f) then length bs else 0 | _ \<Rightarrow> 0)"

definition payload_bytes :: "version_dir \<Rightarrow> nat" where
  "payload_bytes d = sum_list (map chunk_bytes (vd_files d))"

section \<open>Writing\<close>

definition begin_upload :: "version_key \<Rightarrow> unit eng" where
  "begin_upload k =
     bindA (gets (\<lambda>e. k \<in> set (en_inflight e) \<or> exists_version e k)) (\<lambda>taken.
     if \<not> valid_ids k then raiseA EngineValueError
     else if taken then raiseA ObjectAlreadyExistsError
     else bindA (gets (\<lambda>e. fst k \<in> set (en_links e))) (\<lambda>linked.
     if linked then raiseA StorageError
     else thenA io (change (\<lambda>e. e\<lparr>en_inflight := k # en_inflight e,
       en_uploads := \<lparr>up_key = k, up_files = [], up_open = None, up_digests = [], up_fed = [], up_size = 0,
         up_reserved = 0, up_published = False\<rparr> # en_uploads e\<rparr>))))"

text \<open>How the inner loop cuts an incoming block, given how full the open chunk is.\<close>

function pieces :: "nat \<Rightarrow> nat \<Rightarrow> byte list \<Rightarrow> byte list list" where
  "pieces cs filled incoming =
     (if incoming = [] \<or> cs \<le> filled then [] else
      let piece = take (cs - filled) incoming in
      piece # pieces cs (if filled + length piece = cs then 0 else filled + length piece) (drop (cs - filled) incoming))"
  by pat_completeness auto
termination
proof (relation "measure (\<lambda>(cs, filled, incoming). length incoming)")
  fix cs filled :: nat and incoming piece :: "byte list"
  assume "\<not> (incoming = [] \<or> cs \<le> filled)"
  then show "((cs, if filled + length piece = cs then 0 else filled + length piece, drop (cs - filled) incoming),
      cs, filled, incoming) \<in> measure (\<lambda>(cs, filled, incoming). length incoming)"
    by (cases incoming) auto
qed simp

declare pieces.simps [simp del]

definition filled_bytes :: "upload \<Rightarrow> nat" where
  "filled_bytes u = (case up_open u of None \<Rightarrow> 0 | Some bs \<Rightarrow> length bs)"

text \<open>The effect of one piece on the upload, and closing a full chunk.\<close>

definition feed_piece :: "byte list \<Rightarrow> upload \<Rightarrow> upload" where
  "feed_piece piece u = u\<lparr>up_open := Some ((case up_open u of None \<Rightarrow> [] | Some bs \<Rightarrow> bs) @ piece),
     up_fed := up_fed u @ piece, up_size := up_size u + length piece\<rparr>"

definition close_chunk :: "upload \<Rightarrow> upload" where
  "close_chunk u = (case up_open u of None \<Rightarrow> u
     | Some bs \<Rightarrow> u\<lparr>up_files := up_files u @ [bs], up_open := None, up_digests := up_digests u @ [sha256 bs]\<rparr>)"

text \<open>
  \<open>write_stream\<close> writes every piece to the open chunk file; \<open>_write_iterable\<close> (\<open>buffered\<close>) keeps it in
  memory and writes the file when the chunk is complete.
\<close>

definition write_piece :: "bool \<Rightarrow> version_key \<Rightarrow> byte list \<Rightarrow> unit eng" where
  "write_piece buffered k piece =
     bindA (gets (\<lambda>e. get_upload e k)) (\<lambda>found.
     case found of
       None \<Rightarrow> retA ()
     | Some u \<Rightarrow>
         bindA (gets en_chunk_size) (\<lambda>cs.
         thenA (if buffered \<or> up_open u \<noteq> None then retA () else io)
         (thenA (if buffered then retA () else io)
         (thenA (upd_upload k (feed_piece piece))
         (if filled_bytes (feed_piece piece u) = cs then thenA io (upd_upload k close_chunk) else retA ())))))"

definition receive :: "bool \<Rightarrow> version_key \<Rightarrow> byte list \<Rightarrow> unit eng" where
  "receive buffered k incoming =
     (if incoming = [] then retA () else
      thenA (reserve_capacity (length incoming))
      (thenA (upd_upload k (\<lambda>u. u\<lparr>up_reserved := up_reserved u + length incoming\<rparr>))
      (bindA (gets (\<lambda>e. case get_upload e k of None \<Rightarrow> [] | Some u \<Rightarrow> pieces (en_chunk_size e) (filled_bytes u) incoming)) (\<lambda>ps.
       thenA (forA (write_piece buffered k) ps) (retA ())))))"

definition metadata_of :: "nat \<Rightarrow> upload \<Rightarrow> json" where
  "metadata_of cs u = JObj [(''object_id'', JStr (fst (up_key u))), (''version_id'', JStr (snd (up_key u))),
     (''size_bytes'', JInt (int (up_size u))), (''chunk_size_bytes'', JInt (int cs)),
     (''chunk_count'', JInt (int (length (up_files u)))), (''checksum'', JStr (sha256 (up_fed u))),
     (''chunk_checksums'', JList (map JStr (up_digests u)))]"

definition published_dir :: "nat \<Rightarrow> upload \<Rightarrow> version_dir" where
  "published_dir cs u = \<lparr>vd_key = up_key u, vd_link = False, vd_meta = Some (MetaFile (metadata_of cs u)),
     vd_files = map (\<lambda>i. (chunk_name i, PlainFile (up_files u ! i))) [0..<length (up_files u)]\<rparr>"

text \<open>The last chunk, the metadata and the rename that publishes the directory.\<close>

definition finish_upload :: "version_key \<Rightarrow> unit eng" where
  "finish_upload k =
     bindA (gets (\<lambda>e. get_upload e k)) (\<lambda>found.
     case found of
       None \<Rightarrow> retA ()
     | Some u0 \<Rightarrow>
         thenA (if up_open u0 = None then retA () else io)
         (thenA io
         (bindA (gets (\<lambda>e. get_dir e k \<noteq> None)) (\<lambda>present.
          if present then raiseA ObjectAlreadyExistsError else
          thenA io (change (\<lambda>e. e\<lparr>en_dirs := published_dir (en_chunk_size e) (close_chunk u0) # en_dirs e,
            en_uploads := update_by up_key k (\<lambda>u. (close_chunk u)\<lparr>up_published := True\<rparr>) (en_uploads e)\<rparr>))))))"

definition drop_upload :: "version_key \<Rightarrow> engine \<Rightarrow> engine" where
  "drop_upload k e = e\<lparr>en_inflight := removeAll k (en_inflight e), en_uploads := remove_by up_key k (en_uploads e)\<rparr>"

definition account_upload :: "version_key \<Rightarrow> nat eng" where
  "account_upload k =
     bindA (gets (\<lambda>e. get_upload e k)) (\<lambda>found.
     case found of
       None \<Rightarrow> retA 0
     | Some u \<Rightarrow>
         thenA (release_capacity (up_reserved u))
         (thenA (change (\<lambda>e. drop_upload k (e\<lparr>en_used := en_used e + int (up_size u)\<rparr>)))
           (retA (up_size u))))"

text \<open>The \<open>finally\<close> block of a write that has not been published.\<close>

definition cleanup_upload :: "version_key \<Rightarrow> unit eng" where
  "cleanup_upload k =
     bindA (gets (\<lambda>e. get_upload e k)) (\<lambda>found.
     case found of
       None \<Rightarrow> retA ()
     | Some u \<Rightarrow>
         thenA (if up_published u then retA () else io)
         (thenA (release_capacity (up_reserved u)) (change (drop_upload k))))"

definition finallyA :: "('e, 's, 'a) action \<Rightarrow> ('e, 's, unit) action \<Rightarrow> ('e, 's, 'a) action" where
  "finallyA m f s = (case m s of (r, s') \<Rightarrow> (case f s' of (Inl e, t) \<Rightarrow> (Inl e, t) | (Inr _, t) \<Rightarrow> (r, t)))"

definition write_with :: "bool \<Rightarrow> version_key \<Rightarrow> payload \<Rightarrow> nat eng" where
  "write_with buffered k p =
     thenA (begin_upload k)
     (finallyA
       (thenA (forA (receive buffered k) (chunks p))
       (thenA (case abort p of None \<Rightarrow> retA () | Some x \<Rightarrow> raiseA (StreamError x))
       (thenA (finish_upload k) (account_upload k))))
       (cleanup_upload k))"

definition write_stream :: "string \<Rightarrow> string \<Rightarrow> payload \<Rightarrow> nat eng" where
  "write_stream object_id version_id p = write_with False (object_id, version_id) p"

definition write_bytes :: "string \<Rightarrow> string \<Rightarrow> byte list \<Rightarrow> nat eng" where
  "write_bytes object_id version_id data = write_with True (object_id, version_id) (Payload [data] None)"

section \<open>Deleting and restarting\<close>

text \<open>
  A failing \<open>shutil.rmtree\<close> may have removed some entries; it refuses a symbolic link. Removing the
  emptied object directory afterwards never fails the call.
\<close>

definition partly_removed :: "(string \<Rightarrow> bool) \<Rightarrow> version_dir \<Rightarrow> version_dir" where
  "partly_removed left d = d\<lparr>vd_meta := (if left ''metadata.json'' then vd_meta d else None),
     vd_files := filter (\<lambda>f. left (fst f)) (vd_files d)\<rparr>"

definition remove_tree :: "version_key \<Rightarrow> unit eng" where
  "remove_tree k =
     bindA (gets (\<lambda>e. case get_dir e k of None \<Rightarrow> False | Some d \<Rightarrow> vd_link d)) (\<lambda>linked.
     if linked then raiseA EngineOSError
     else catchA (thenA io (change (\<lambda>e. e\<lparr>en_dirs := remove_by vd_key k (en_dirs e)\<rparr>)))
       (\<lambda>x. thenA (change (\<lambda>e. e\<lparr>en_dirs := update_by vd_key k (partly_removed (en_left e (en_io_pos e))) (en_dirs e)\<rparr>))
         (raiseA x)))"

definition delete_version :: "string \<Rightarrow> string \<Rightarrow> unit eng" where
  "delete_version object_id version_id =
     (let k = (object_id, version_id) in
      if \<not> valid_ids k then raiseA EngineValueError
      else bindA (gets (\<lambda>e. get_dir e k)) (\<lambda>found.
      case found of
        None \<Rightarrow> raiseA ObjectNotFoundError
      | Some d \<Rightarrow>
          if \<not> meta_is_file (vd_meta d) then raiseA ObjectNotFoundError
          else thenA (remove_tree k)
            (change (\<lambda>e. e\<lparr>en_used := max 0 (en_used e - int (payload_bytes d))\<rparr>))))"

text \<open>
  Starting an engine on the files another one left: \<open>_cleanup_staging_directories\<close> removes every
  directory named like a staging directory, then \<open>_scan_used_payload_bytes\<close> adds up the chunk files.
\<close>

definition ends_with :: "string \<Rightarrow> string \<Rightarrow> bool" where
  "ends_with suffix s \<longleftrightarrow> length suffix \<le> length s \<and> drop (length s - length suffix) s = suffix"

definition staging_name :: "string \<Rightarrow> bool" where
  "staging_name s \<longleftrightarrow> 8 \<le> length s \<and> hd s = CHR ''.'' \<and> ends_with ''.upload'' s"

definition swept :: "engine \<Rightarrow> version_dir \<Rightarrow> bool" where
  "swept e d \<longleftrightarrow> staging_name (snd (vd_key d)) \<and> fst (vd_key d) \<notin> set (en_links e)"

definition cleanup_staging_directories :: "unit eng" where
  "cleanup_staging_directories =
     bindA (gets (\<lambda>e. map vd_key (filter (swept e) (en_dirs e)))) (\<lambda>named.
     thenA (forA remove_tree named)
     (bindA (gets (\<lambda>e. map up_key (filter (\<lambda>u. \<not> up_published u) (en_uploads e)))) (\<lambda>staged.
      thenA (forA (\<lambda>_. io) staged) (retA ()))))"

definition scan_used_payload_bytes :: "engine \<Rightarrow> nat" where
  "scan_used_payload_bytes e =
     sum_list (map payload_bytes (filter (\<lambda>d. \<not> vd_link d \<and> fst (vd_key d) \<notin> set (en_links e) \<and>
       \<not> ends_with ''.upload'' (snd (vd_key d))) (en_dirs e)))"

definition start_engine :: "int \<Rightarrow> nat \<Rightarrow> bool \<Rightarrow> unit eng" where
  "start_engine capacity chunk_size objects_linked =
     (if capacity \<le> 0 \<or> chunk_size = 0 then raiseA EngineValueError
      else thenA io
      (if objects_linked then raiseA StorageError
       else thenA cleanup_staging_directories
         (change (\<lambda>e. e\<lparr>en_capacity := capacity, en_chunk_size := chunk_size, en_reserved := 0, en_inflight := [],
            en_uploads := [], en_used := int (scan_used_payload_bytes e)\<rparr>))))"

section \<open>Reading\<close>

definition read_metadata :: "version_key \<Rightarrow> ((string \<times> json) list) eng" where
  "read_metadata k =
     (if \<not> valid_ids k then raiseA EngineValueError
      else bindA (gets (\<lambda>e. (fst k \<in> set (en_links e), get_dir e k))) (\<lambda>(linked, found).
      if linked then raiseA StorageError
      else case found of
        None \<Rightarrow> raiseA ObjectNotFoundError
      | Some d \<Rightarrow>
          if vd_link d then raiseA StorageError
          else case vd_meta d of
            None \<Rightarrow> raiseA ObjectNotFoundError
          | Some (MetaLink _) \<Rightarrow> raiseA StorageError
          | Some m \<Rightarrow>
              thenA (catchA io (\<lambda>_. raiseA StorageError))
              (case m of
                 MetaUndecodable \<Rightarrow> raiseA EngineValueError
               | MetaFile (JObj entries) \<Rightarrow> retA entries
               | _ \<Rightarrow> raiseA StorageError)))"

text \<open>\<open>int(text)\<close>: surrounding white space, a sign, decimal digits with single underscores between them.\<close>

fun digit_groups :: "bool \<Rightarrow> string \<Rightarrow> bool" where
  "digit_groups after_digit [] = after_digit"
| "digit_groups after_digit (c # cs) =
     (if is_decimal c then digit_groups True cs
      else c = CHR ''_'' \<and> after_digit \<and> digit_groups False cs)"

definition int_of_string :: "string \<Rightarrow> int option" where
  "int_of_string text =
     (let s = strip text;
          negative = (s \<noteq> [] \<and> hd s = CHR ''-'');
          digits = (if s \<noteq> [] \<and> hd s \<in> {CHR ''-'', CHR ''+''} then tl s else s);
          plain = filter is_decimal digits in
      if digits \<noteq> [] \<and> digit_groups False digits \<and> length plain \<le> 4300
      then Some (if negative then - int (decimal_value plain) else int (decimal_value plain)) else None)"

text \<open>\<open>int(metadata[key])\<close>, with \<open>KeyError\<close>, \<open>TypeError\<close> and \<open>ValueError\<close> turned into a storage error.\<close>

definition int_field :: "string \<Rightarrow> (string \<times> json) list \<Rightarrow> engine_error + int" where
  "int_field key entries =
     (case map_of entries key of
        Some (JInt n) \<Rightarrow> Inr n
      | Some (JBool b) \<Rightarrow> Inr (if b then 1 else 0)
      | Some (JFloat (Finite q)) \<Rightarrow> Inr (if q < 0 then \<lceil>q\<rceil> else \<lfloor>q\<rfloor>)
      | Some (JFloat Not_Finite) \<Rightarrow> Inl EngineOverflowError
      | Some (JStr s) \<Rightarrow> some_or StorageError (int_of_string s)
      | _ \<Rightarrow> Inl StorageError)"

definition lift_result :: "engine_error + 'a \<Rightarrow> 'a eng" where
  "lift_result r = (case r of Inl x \<Rightarrow> raiseA x | Inr y \<Rightarrow> retA y)"

definition object_size :: "string \<Rightarrow> string \<Rightarrow> int eng" where
  "object_size object_id version_id =
     bindA (read_metadata (object_id, version_id)) (\<lambda>entries. lift_result (int_field ''size_bytes'' entries))"

text \<open>
  \<open>iter_chunks\<close> as the blocks it yields and the exception it then raises, when it is consumed
  without a concurrent deletion.
\<close>

definition read_chunk :: "version_key \<Rightarrow> nat \<Rightarrow> nat \<Rightarrow> (byte list list) eng" where
  "read_chunk k read_size i =
     bindA (gets (\<lambda>e. case get_dir e k of None \<Rightarrow> None | Some d \<Rightarrow> map_of (vd_files d) (chunk_name i))) (\<lambda>entry.
     case entry of
       Some SymLink \<Rightarrow> raiseA StorageError
     | Some (PlainFile bs) \<Rightarrow> thenA io (retA (group read_size bs))
     | _ \<Rightarrow> raiseA EngineOSError)"

primrec read_chunks :: "version_key \<Rightarrow> nat \<Rightarrow> nat list \<Rightarrow> (byte list list \<times> engine_error option) eng" where
  "read_chunks k read_size [] = retA ([], None)"
| "read_chunks k read_size (i # rest_ids) =
     bindA (tryA (read_chunk k read_size i)) (\<lambda>r.
     case r of
       Inl x \<Rightarrow> retA ([], Some x)
     | Inr blocks \<Rightarrow> bindA (read_chunks k read_size rest_ids) (\<lambda>(rest, x). retA (blocks @ rest, x)))"

definition iter_chunks :: "string \<Rightarrow> string \<Rightarrow> (byte list list \<times> engine_error option) eng" where
  "iter_chunks object_id version_id =
     (let k = (object_id, version_id) in
      bindA (tryA (bindA (read_metadata k) (\<lambda>entries.
        bindA (lift_result (int_field ''chunk_count'' entries)) (\<lambda>chunk_count.
        bindA (lift_result (int_field ''chunk_size_bytes'' entries)) (\<lambda>stored_chunk_size.
        if chunk_count < 0 \<or> stored_chunk_size \<le> 0 then raiseA StorageError
        else retA (chunk_count, stored_chunk_size)))))) (\<lambda>r.
      case r of
        Inl x \<Rightarrow> retA ([], Some x)
      | Inr (chunk_count, stored_chunk_size) \<Rightarrow>
          bindA (gets en_chunk_size) (\<lambda>cs.
          read_chunks k (min (nat stored_chunk_size) cs) [0..<nat chunk_count])))"

definition read_bytes :: "string \<Rightarrow> string \<Rightarrow> (byte list) eng" where
  "read_bytes object_id version_id =
     bindA (iter_chunks object_id version_id) (\<lambda>(blocks, x).
     case x of None \<Rightarrow> retA (concat blocks) | Some x \<Rightarrow> raiseA x)"

section \<open>Verification\<close>

datatype issue =
    Metadata_Unreadable | Object_Id_Mismatch | Version_Id_Mismatch | Invalid_Field string
  | Chunk_Count_Limit | Invalid_Checksum | Invalid_Chunk_Checksums | Chunk_Checksums_Limit
  | Invalid_Chunk_Checksum nat | Checksums_Length_Mismatch | Chunk_Count_Mismatch | Cannot_Inspect
  | Unexpected_Chunk string | Chunk_Is_Link nat | Missing_Chunk nat | Cannot_Stat nat
  | Chunk_Size_Mismatch nat int nat | Unreadable_Chunk nat | Missing_Chunk_Checksum nat
  | Chunk_Checksum_Mismatch nat | Object_Size_Mismatch int nat | Object_Checksum_Mismatch

record verification_result =
  vr_key :: version_key
  vr_size :: nat
  vr_valid :: bool
  vr_checksum :: "string option"
  vr_chunk_count :: int
  vr_corrupt :: "nat list"
  vr_errors :: "issue list"

definition metadata_int :: "(string \<times> json) list \<Rightarrow> string \<Rightarrow> issue list \<times> int option" where
  "metadata_int entries key =
     (case map_of entries key of Some (JInt n) \<Rightarrow> ([], Some n) | _ \<Rightarrow> ([Invalid_Field key], None))"

text \<open>A recorded number that a further check refuses.\<close>

definition refuse :: "(int \<Rightarrow> bool) \<Rightarrow> issue \<Rightarrow> issue list \<times> int option \<Rightarrow> issue list \<times> int option" where
  "refuse bad issue x = (case snd x of Some n \<Rightarrow> if bad n then (fst x @ [issue], None) else x | None \<Rightarrow> x)"

definition is_sha256 :: "json option \<Rightarrow> bool" where
  "is_sha256 value = (case value of
     Some (JStr s) \<Rightarrow> length s = 64 \<and> s = lower s \<and> (\<forall>c\<in>set s. c \<in> set hexdigits) | _ \<Rightarrow> False)"

definition expected_chunk_size :: "int option \<Rightarrow> int option \<Rightarrow> int option \<Rightarrow> int \<Rightarrow> int option" where
  "expected_chunk_size size_bytes chunk_size_bytes chunk_count index =
     (case (size_bytes, chunk_size_bytes, chunk_count) of
        (Some s, Some c, Some n) \<Rightarrow>
          if n \<le> 0 \<or> index < 0 \<or> n \<le> index then None
          else if index < n - 1 then Some c else Some (s - (n - 1) * c)
      | _ \<Rightarrow> None)"

record layout =
  ly_errors :: "issue list"
  ly_size :: "int option"
  ly_chunk_size :: "int option"
  ly_count :: "int option"
  ly_checksum :: "string option"
  ly_chunk_checksums :: "json list"

text \<open>
  The checks on the metadata alone, in the order of the code; the numeric checks report one error
  for a field at most.
\<close>

definition check_checksums :: "(string \<times> json) list \<Rightarrow> issue list \<times> json list" where
  "check_checksums entries =
     (case map_of entries ''chunk_checksums'' of
        Some (JList cs) \<Rightarrow>
          if MAX_VERIFY_CHUNKS < length cs then ([Chunk_Checksums_Limit], [])
          else (map Invalid_Chunk_Checksum (filter (\<lambda>i. \<not> is_sha256 (Some (cs ! i))) [0..<length cs]), cs)
      | _ \<Rightarrow> ([Invalid_Chunk_Checksums], []))"

definition check_metadata :: "version_key \<Rightarrow> (string \<times> json) list \<Rightarrow> layout" where
  "check_metadata k entries =
     (let ids = (if map_of entries ''object_id'' \<noteq> Some (JStr (fst k)) then [Object_Id_Mismatch] else []) @
            (if map_of entries ''version_id'' \<noteq> Some (JStr (snd k)) then [Version_Id_Mismatch] else []);
          size = metadata_int entries ''size_bytes'';
          chunk_size = metadata_int entries ''chunk_size_bytes'';
          chunk_count = metadata_int entries ''chunk_count'';
          size' = refuse (\<lambda>n. n < 0) (Invalid_Field ''size_bytes'') ([], snd size);
          chunk_size' = refuse (\<lambda>n. n \<le> 0) (Invalid_Field ''chunk_size_bytes'') ([], snd chunk_size);
          chunk_count' = refuse (\<lambda>n. int MAX_VERIFY_CHUNKS < n) Chunk_Count_Limit
            (refuse (\<lambda>n. n < 0) (Invalid_Field ''chunk_count'') ([], snd chunk_count));
          checksum = (if is_sha256 (map_of entries ''checksum'') then ([], map_of entries ''checksum'')
            else ([Invalid_Checksum], None));
          listed_sums = check_checksums entries;
          count_of_sums = (case snd chunk_count' of
              Some n \<Rightarrow> if int (length (snd listed_sums)) \<noteq> n then [Checksums_Length_Mismatch] else [] | None \<Rightarrow> []);
          count_of_size = (case (snd size', snd chunk_size', snd chunk_count') of
              (Some s, Some c, Some n) \<Rightarrow>
                if (if s = 0 then 0 else (s + c - 1) div c) \<noteq> n then [Chunk_Count_Mismatch] else []
            | _ \<Rightarrow> []) in
      \<lparr>ly_errors = ids @ fst size @ fst chunk_size @ fst chunk_count @ fst size' @ fst chunk_size' @
          fst chunk_count' @ fst checksum @ fst listed_sums @ count_of_sums @ count_of_size,
       ly_size = snd size', ly_chunk_size = snd chunk_size', ly_count = snd chunk_count',
       ly_checksum = (case snd checksum of Some (JStr s) \<Rightarrow> Some s | _ \<Rightarrow> None),
       ly_chunk_checksums = snd listed_sums\<rparr>)"

text \<open>Directory entries that are no chunk of the object; each yields its errors and corrupt indices.\<close>

definition check_entry :: "int option \<Rightarrow> string \<Rightarrow> (issue list \<times> nat list) eng" where
  "check_entry chunk_count name =
     (if \<not> is_chunk_name name then retA ([], [])
      else bindA (lift_result (parse_chunk_index name)) (\<lambda>parsed.
      case (chunk_count, parsed) of
        (Some n, Some i) \<Rightarrow> if n \<le> int i then retA ([Unexpected_Chunk name], [i]) else retA ([], [])
      | (None, Some i) \<Rightarrow> retA ([Unexpected_Chunk name], [i])
      | (_, None) \<Rightarrow> retA ([Unexpected_Chunk name], [])))"

text \<open>One chunk: its errors, its index when it is corrupt, and the bytes fed to the object digest.\<close>

definition check_chunk :: "version_dir \<Rightarrow> layout \<Rightarrow> nat \<Rightarrow> (issue list \<times> nat list \<times> byte list) eng" where
  "check_chunk d ly i =
     (case map_of (vd_files d) (chunk_name i) of
        Some SymLink \<Rightarrow> retA ([Chunk_Is_Link i], [i], [])
      | Some (PlainFile bs) \<Rightarrow>
          bindA (tryA io) (\<lambda>stat.
          if isl stat then retA ([Cannot_Stat i], [i], [])
          else
            let sized = (case expected_chunk_size (ly_size ly) (ly_chunk_size ly) (ly_count ly) (int i) of
                  Some n \<Rightarrow> if int (length bs) \<noteq> n then [Chunk_Size_Mismatch i n (length bs)] else []
                | None \<Rightarrow> []);
                listed = (if length (ly_chunk_checksums ly) \<le> i then [Missing_Chunk_Checksum i]
                  else if JStr (sha256 bs) \<noteq> ly_chunk_checksums ly ! i then [Chunk_Checksum_Mismatch i] else [])
            in bindA (tryA io) (\<lambda>readable.
               if isl readable then retA (sized @ [Unreadable_Chunk i], [i], [])
               else retA (sized @ listed, if sized @ listed = [] then [] else [i], bs)))
      | _ \<Rightarrow> retA ([Missing_Chunk i], [i], []))"

definition verification_summary ::
  "version_key \<Rightarrow> layout \<Rightarrow> (issue list \<times> nat list) list \<Rightarrow> (issue list \<times> nat list \<times> byte list) list \<Rightarrow>
   verification_result" where
  "verification_summary k ly extra parts =
     (let object = concat (map (\<lambda>p. snd (snd p)) parts);
          corrupt = remdups (concat (map snd extra) @ concat (map (\<lambda>p. fst (snd p)) parts));
          size_error = (case ly_size ly of
              Some s \<Rightarrow> if int (length object) \<noteq> s then [Object_Size_Mismatch s (length object)] else [] | None \<Rightarrow> []);
          sum_error = (case ly_checksum ly of
              Some c \<Rightarrow> if sha256 object \<noteq> c then [Object_Checksum_Mismatch] else [] | None \<Rightarrow> []);
          errors = ly_errors ly @ concat (map fst extra) @ concat (map fst parts) @ size_error @ sum_error in
      \<lparr>vr_key = k, vr_size = length object, vr_valid = (errors = [] \<and> corrupt = []), vr_checksum = Some (sha256 object),
       vr_chunk_count = (case ly_count ly of Some n \<Rightarrow> n | None \<Rightarrow> 0), vr_corrupt = sort corrupt, vr_errors = errors\<rparr>)"

definition failed_verification :: "version_key \<Rightarrow> int \<Rightarrow> issue list \<Rightarrow> verification_result" where
  "failed_verification k n errors =
     \<lparr>vr_key = k, vr_size = 0, vr_valid = False, vr_checksum = None, vr_chunk_count = n, vr_corrupt = [],
      vr_errors = errors\<rparr>"

definition verify_layout :: "version_key \<Rightarrow> layout \<Rightarrow> verification_result eng" where
  "verify_layout k ly =
     bindA (gets (\<lambda>e. get_dir e k)) (\<lambda>found.
     bindA (tryA io) (\<lambda>listing.
     case (found, listing) of
       (Some d, Inr _) \<Rightarrow>
         bindA (forA (check_entry (ly_count ly)) (map fst (vd_files d))) (\<lambda>extra.
         bindA (forA (check_chunk d ly) (case ly_count ly of Some n \<Rightarrow> [0..<nat n] | None \<Rightarrow> [])) (\<lambda>parts.
         retA (verification_summary k ly extra parts)))
     | _ \<Rightarrow> retA (failed_verification k (case ly_count ly of Some n \<Rightarrow> n | None \<Rightarrow> 0) (ly_errors ly @ [Cannot_Inspect]))))"

definition verify :: "string \<Rightarrow> string \<Rightarrow> verification_result eng" where
  "verify object_id version_id =
     (let k = (object_id, version_id) in
      bindA (tryA (read_metadata k)) (\<lambda>r.
      case r of
        Inl StorageError \<Rightarrow> retA (failed_verification k 0 [Metadata_Unreadable])
      | Inl x \<Rightarrow> raiseA x
      | Inr entries \<Rightarrow> verify_layout k (check_metadata k entries)))"

end
