(* ===== verification/Engine_Layout.thy ===== *)
theory Engine_Layout
  imports Storage_Engine
begin

text \<open>
  What the storage engine writes, and that it is what the engine reads and verifies: the chunk
  names, the cutting of a stream into chunks, the run of a write, reading back and verification.
\<close>

section \<open>Chunk names\<close>

lemma nat_digits_decimal: "\<forall>c\<in>set (nat_digits n). is_decimal c"
proof (induction n rule: nat_digits.induct)
  case (1 n)
  then show ?case by (subst nat_digits.simps) auto
qed

lemma decimal_value_snoc: "decimal_value (s @ [c]) = 10 * decimal_value s + (of_char c - 48)"
  by (simp add: decimal_value_def)

lemma decimal_value_nat_digits: "decimal_value (nat_digits n) = n"
proof (induction n rule: nat_digits.induct)
  case (1 n)
  show ?case
  proof (cases "n < 10")
    case True
    then show ?thesis by (subst nat_digits.simps) (simp add: decimal_value_def)
  next
    case False
    then show ?thesis using 1 by (subst nat_digits.simps) (simp add: decimal_value_snoc)
  qed
qed

lemma decimal_value_zeros: "decimal_value (replicate m (CHR ''0'') @ s) = decimal_value s"
proof -
  have "foldl (\<lambda>n c. 10 * n + (of_char c - 48)) 0 (replicate m (CHR ''0'')) = (0::nat)"
    by (induction m) auto
  then show ?thesis by (simp add: decimal_value_def)
qed

lemma length_nat_digits: "0 < m \<Longrightarrow> n < 10 ^ m \<Longrightarrow> length (nat_digits n) \<le> m"
proof (induction n arbitrary: m rule: nat_digits.induct)
  case (1 n)
  show ?case
  proof (cases "n < 10")
    case True
    then show ?thesis using 1(2) by (subst nat_digits.simps) simp
  next
    case False
    then obtain m' where m: "m = Suc m'" "0 < m'" using 1(2,3) by (cases m; cases "m - 1") auto
    then have "n div 10 < 10 ^ m'" using 1(3) by (simp add: div_less_iff_less_mult mult.commute)
    then show ?thesis using 1(1) [OF False m(2)] m by (subst nat_digits.simps) simp
  qed
qed

lemma chunk_name_prefix [simp]: "is_chunk_name (chunk_name i)" "drop 6 (chunk_name i) = replicate (6 - length (nat_digits i)) (CHR ''0'') @ nat_digits i"
  by (simp_all add: is_chunk_name_def chunk_name_def CHUNK_PREFIX_def)

lemma parse_chunk_name:
  assumes "i < MAX_VERIFY_CHUNKS"
  shows "parse_chunk_index (chunk_name i) = Inr (Some i)"
proof -
  let ?s = "replicate (6 - length (nat_digits i)) (CHR ''0'') @ nat_digits i"
  have "length (nat_digits i) \<le> 6" using assms by (intro length_nat_digits) (simp_all add: MAX_VERIFY_CHUNKS_def)
  moreover have "\<forall>c\<in>set ?s. is_decimal c" using nat_digits_decimal [of i] by auto
  ultimately show ?thesis
    unfolding parse_chunk_index_def chunk_name_prefix Let_def
    by (auto simp: is_digit_def decimal_value_zeros decimal_value_nat_digits)
qed

lemma chunk_name_inject [simp]: "chunk_name i = chunk_name j \<longleftrightarrow> i = j"
  by (metis chunk_name_prefix(2) decimal_value_nat_digits decimal_value_zeros)

lemma map_of_chunks: "map_of (map (\<lambda>i. (chunk_name i, f i)) [0..<n]) (chunk_name j) = (if j < n then Some (f j) else None)"
proof -
  have "map_of (map (\<lambda>i. (chunk_name i, f i)) xs) (chunk_name j) = (if j \<in> set xs then Some (f j) else None)" for xs
    by (induction xs) auto
  then show ?thesis by simp
qed

section \<open>Cutting a stream into chunks\<close>

lemma concat_group: "0 < n \<Longrightarrow> concat (group n xs) = xs"
proof (induction n xs rule: group.induct)
  case (1 n xs)
  then show ?case by (subst group.simps) simp
qed

lemma group_full: "length x = n \<Longrightarrow> x \<noteq> [] \<Longrightarrow> group n (x @ xs) = x # group n xs"
  by (subst group.simps) auto

lemma group_short: "xs \<noteq> [] \<Longrightarrow> length xs \<le> n \<Longrightarrow> group n xs = [xs]"
  by (subst group.simps) (cases xs; auto simp: group.simps)

lemma group_Nil [simp]: "group n [] = []"
  by (subst group.simps) simp

lemma group_fulls: "0 < n \<Longrightarrow> \<forall>x\<in>set fs. length x = n \<Longrightarrow> group n (concat fs @ xs) = fs @ group n xs"
  by (induction fs) (auto simp: group_full)

lemma length_group: "0 < n \<Longrightarrow> length (group n xs) = (length xs + n - 1) div n"
proof (induction n xs rule: group.induct)
  case (1 n xs)
  show ?case
  proof (cases "xs = []")
    case False
    then have *: "length (group n xs) = Suc ((length xs - n + n - 1) div n)"
      using 1 by (subst group.simps) simp
    show ?thesis
    proof (cases "n \<le> length xs")
      case True
      then have "length xs + n - 1 = (length xs - n + n - 1) + n" using 1(2) by simp
      then show ?thesis using * 1(2) by (metis add.commute div_add_self2 Suc_eq_plus1 less_numeral_extra(3))
    next
      case False
      with \<open>xs \<noteq> []\<close> have len: "length xs + n - 1 = n + (length xs - 1)" "length xs - 1 < n" by (cases xs; simp)+
      have "(n + (length xs - 1)) div n = 1" using 1(2) len(2) by (simp add: div_add_self1 del: One_nat_def)
      then show ?thesis using * False len(1) by simp
    qed
  qed (use 1 in simp)
qed

primrec fits :: "nat \<Rightarrow> nat \<Rightarrow> byte list list \<Rightarrow> bool" where
  "fits cs filled [] \<longleftrightarrow> True"
| "fits cs filled (p # ps) \<longleftrightarrow> p \<noteq> [] \<and> filled + length p \<le> cs \<and>
     fits cs (if filled + length p = cs then 0 else filled + length p) ps"

lemma pieces_fit: "fits cs filled (pieces cs filled bs)"
proof (induction cs filled bs rule: pieces.induct)
  case (1 cs filled bs)
  then show ?case by (subst pieces.simps) (auto simp: Let_def)
qed

lemma concat_pieces: "filled < cs \<Longrightarrow> concat (pieces cs filled bs) = bs"
proof (induction cs filled bs rule: pieces.induct)
  case (1 cs filled bs)
  show ?case
  proof (cases "bs = []")
    case False
    let ?f = "if filled + length (take (cs - filled) bs) = cs then 0 else filled + length (take (cs - filled) bs)"
    have "?f < cs" using 1(2) by auto
    then have "concat (pieces cs ?f (drop (cs - filled) bs)) = drop (cs - filled) bs"
      using 1(1) [OF _ refl] 1(2) False by (simp del: length_take)
    then show ?thesis using 1(2) False by (subst pieces.simps) (simp add: Let_def)
  qed (subst pieces.simps, simp)
qed

lemma concat_pieces_le: "length (concat (pieces cs filled bs)) \<le> length bs"
proof (cases "filled < cs")
  case True
  then show ?thesis by (simp add: concat_pieces)
next
  case False
  then show ?thesis by (subst pieces.simps) simp
qed

section \<open>The accounting invariant\<close>

lemma update_by_const:
  assumes "distinct (map key t)" "lookup_by key k t = Some r"
  shows "update_by key k f t = update_by key k (\<lambda>_. f r) t"
proof -
  have "x = r" if "x \<in> set t" "key x = k" for x
    using that assms(2) lookup_by_Some_iff [OF assms(1), of k x] by simp
  then show ?thesis by (auto simp: update_by_def)
qed

lemma map_update_by_const: "key r' = k \<Longrightarrow> map key (update_by key k (\<lambda>_. r') t) = map key t"
  by (induction t) auto

lemma lookup_update_by_const [simp]:
  "lookup_by key k t = Some r \<Longrightarrow> key r' = k \<Longrightarrow> lookup_by key k (update_by key k (\<lambda>_. r') t) = Some r'"
  by (induction t) (auto split: if_splits)

lemma sum_update_by:
  fixes g :: "'r \<Rightarrow> nat"
  assumes "distinct (map key t)" "lookup_by key k t = Some r"
  shows "sum_list (map g (update_by key k (\<lambda>_. r') t)) + g r = sum_list (map g t) + g r'"
  using assms
proof (induction t)
  case (Cons x t)
  then show ?case by (cases "key x = k") (auto simp: update_by_idle)
qed simp

lemma sum_remove_by:
  fixes g :: "'r \<Rightarrow> nat"
  assumes "distinct (map key t)" "lookup_by key k t = Some r"
  shows "sum_list (map g (remove_by key k t)) + g r = sum_list (map g t)"
  using assms
proof (induction t)
  case (Cons x t)
  have "remove_by key k t = t" if "k \<notin> key ` set t" using that by (auto simp: remove_by_def filter_id_conv)
  then show ?case using Cons by (cases "key x = k") auto
qed simp

definition open_bytes :: "upload \<Rightarrow> byte list" where
  "open_bytes u = (case up_open u of None \<Rightarrow> [] | Some bs \<Rightarrow> bs)"

lemma filled_open: "filled_bytes u = length (open_bytes u)"
  by (simp add: filled_bytes_def open_bytes_def split: option.split)

definition upload_ok :: "nat \<Rightarrow> upload \<Rightarrow> bool" where
  "upload_ok cs u \<longleftrightarrow> (\<forall>f\<in>set (up_files u). length f = cs) \<and> length (open_bytes u) \<le> cs \<and> up_open u \<noteq> Some [] \<and>
     up_fed u = concat (up_files u) @ open_bytes u \<and> up_size u = length (up_fed u) \<and>
     up_digests u = map sha256 (up_files u) \<and> up_size u \<le> up_reserved u"

definition total_payload :: "engine \<Rightarrow> nat" where
  "total_payload e = sum_list (map payload_bytes (en_dirs e))"

text \<open>Bytes that are published and not yet counted as used.\<close>

definition unaccounted :: "upload \<Rightarrow> nat" where
  "unaccounted u = (if up_published u then up_size u else 0)"

definition engine_ok :: "engine \<Rightarrow> bool" where
  "engine_ok e \<longleftrightarrow>
     en_inflight e = map up_key (en_uploads e) \<and> distinct (map up_key (en_uploads e)) \<and>
     distinct (map vd_key (en_dirs e)) \<and> 0 < en_chunk_size e \<and>
     en_reserved e = int (sum_list (map up_reserved (en_uploads e))) \<and>
     0 \<le> en_used e \<and> en_used e + en_reserved e \<le> en_capacity e \<and>
     (\<forall>u\<in>set (en_uploads e). if up_published u then up_size u \<le> up_reserved u else upload_ok (en_chunk_size e) u) \<and>
     int (total_payload e) \<le> en_used e + int (sum_list (map unaccounted (en_uploads e)))"

lemma engine_ok_feeds [simp]:
  "engine_ok (e\<lparr>en_io_pos := p\<rparr>) = engine_ok e" "engine_ok (e\<lparr>en_disk_pos := q\<rparr>) = engine_ok e"
  by (simp_all add: engine_ok_def total_payload_def)

text \<open>Replacing an unpublished upload, with a change of its reservation.\<close>

lemma engine_ok_replace:
  assumes ok: "engine_ok e" and u: "get_upload e k = Some u" "\<not> up_published u"
    and u': "up_key u' = k" "\<not> up_published u'" "upload_ok (en_chunk_size e) u'" "up_reserved u' = up_reserved u + n"
    and fits: "en_used e + en_reserved e + int n \<le> en_capacity e"
  shows "engine_ok (e\<lparr>en_uploads := update_by up_key k (\<lambda>_. u') (en_uploads e), en_reserved := en_reserved e + int n\<rparr>)"
proof -
  have d: "distinct (map up_key (en_uploads e))" using ok by (simp add: engine_ok_def)
  have keys: "map up_key (update_by up_key k (\<lambda>_. u') (en_uploads e)) = map up_key (en_uploads e)"
    using u'(1) by (rule map_update_by_const)
  have res: "sum_list (map up_reserved (update_by up_key k (\<lambda>_. u') (en_uploads e))) = sum_list (map up_reserved (en_uploads e)) + n"
    using sum_update_by [OF d u(1), of up_reserved u'] u'(4) by simp
  have un: "sum_list (map unaccounted (update_by up_key k (\<lambda>_. u') (en_uploads e))) = sum_list (map unaccounted (en_uploads e))"
    using sum_update_by [OF d u(1), of unaccounted u'] u(2) u'(2) by (simp add: unaccounted_def)
  have "\<forall>w\<in>set (update_by up_key k (\<lambda>_. u') (en_uploads e)).
      if up_published w then up_size w \<le> up_reserved w else upload_ok (en_chunk_size e) w"
    using ok u' by (auto simp: engine_ok_def elim!: in_update_byE)
  then show ?thesis using ok fits by (simp add: engine_ok_def total_payload_def keys res un)
qed

lemmas engine_ok_replace_same = engine_ok_replace [where n = 0, simplified]

section \<open>The run of a write\<close>

lemma io_run: "\<exists>p. (io e = (Inr (), e\<lparr>en_io_pos := p\<rparr>) \<or> io e = (Inl EngineOSError, e\<lparr>en_io_pos := p\<rparr>))"
  by (auto simp: io_def)

definition take_piece :: "nat \<Rightarrow> byte list \<Rightarrow> upload \<Rightarrow> upload" where
  "take_piece cs p u = (if filled_bytes (feed_piece p u) = cs then close_chunk (feed_piece p u) else feed_piece p u)"

lemma feed_piece_simps [simp]:
  "up_key (feed_piece p u) = up_key u" "up_files (feed_piece p u) = up_files u" "open_bytes (feed_piece p u) = open_bytes u @ p"
  "up_fed (feed_piece p u) = up_fed u @ p" "up_size (feed_piece p u) = up_size u + length p"
  "up_reserved (feed_piece p u) = up_reserved u" "up_published (feed_piece p u) = up_published u"
  "up_digests (feed_piece p u) = up_digests u" "up_open (feed_piece p u) = Some (open_bytes u @ p)"
  by (simp_all add: feed_piece_def open_bytes_def split: option.split)

lemma close_chunk_simps [simp]:
  "up_key (close_chunk u) = up_key u" "open_bytes (close_chunk u) = []" "up_open (close_chunk u) = None"
  "up_fed (close_chunk u) = up_fed u" "up_size (close_chunk u) = up_size u"
  "up_reserved (close_chunk u) = up_reserved u" "up_published (close_chunk u) = up_published u"
  "concat (up_files (close_chunk u)) = concat (up_files u) @ open_bytes u"
  by (auto simp: close_chunk_def open_bytes_def split: option.split)

lemma take_piece_ok:
  assumes "upload_ok cs u" "p \<noteq> []" "filled_bytes u + length p \<le> cs" "up_size u + length p \<le> up_reserved u" "0 < cs"
  shows "upload_ok cs (feed_piece p u)" "upload_ok cs (take_piece cs p u)" "filled_bytes (take_piece cs p u) < cs"
    "filled_bytes (take_piece cs p u) = (if filled_bytes u + length p = cs then 0 else filled_bytes u + length p)"
  using assms by (auto simp: upload_ok_def take_piece_def filled_open close_chunk_def open_bytes_def)

lemma take_piece_simps [simp]:
  "up_key (take_piece cs p u) = up_key u" "up_fed (take_piece cs p u) = up_fed u @ p"
  "up_size (take_piece cs p u) = up_size u + length p" "up_reserved (take_piece cs p u) = up_reserved u"
  "up_published (take_piece cs p u) = up_published u"
  by (simp_all add: take_piece_def)

lemma upd_upload_run:
  assumes "engine_ok e" "get_upload e k = Some u"
  shows "upd_upload k f e = (Inr (), e\<lparr>en_uploads := update_by up_key k (\<lambda>_. f u) (en_uploads e)\<rparr>)"
proof -
  have "update_by up_key k f (en_uploads e) = update_by up_key k (\<lambda>_. f u) (en_uploads e)"
    using assms by (intro update_by_const) (simp_all add: engine_ok_def)
  then show ?thesis by (simp add: upd_upload_def change_def)
qed

lemma update_by_same:
  assumes "distinct (map key t)" "lookup_by key k t = Some r"
  shows "update_by key k (\<lambda>_. r) t = t"
  using update_by_const [OF assms, of "\<lambda>x. x"] by (simp add: update_by_def)

lemma update_by_twice [simp]:
  "key r' = k \<Longrightarrow> update_by key k f (update_by key k (\<lambda>_. r') t) = update_by key k (\<lambda>_. f r') t"
  by (induction t) auto

abbreviation put_upload :: "version_key \<Rightarrow> upload \<Rightarrow> engine \<Rightarrow> engine" where
  "put_upload k u e \<equiv> e\<lparr>en_uploads := update_by up_key k (\<lambda>_. u) (en_uploads e)\<rparr>"

text \<open>The state in which an upload has got to \<open>u\<close>, starting from \<open>e\<close>.\<close>

definition holding :: "version_key \<Rightarrow> engine \<Rightarrow> upload \<Rightarrow> engine \<Rightarrow> bool" where
  "holding k e u s \<longleftrightarrow> (\<exists>n. s = (put_upload k u e)\<lparr>en_io_pos := n\<rparr>)"

lemma holdingI: "s = (put_upload k u e)\<lparr>en_io_pos := n\<rparr> \<Longrightarrow> holding k e u s"
  by (auto simp: holding_def)

lemma keeps_holding_io [keeps_rules]: "keeps (holding k e u) io"
  by (auto simp: keeps_def holding_def io_def)

lemma hoare_holding_upd:
  assumes "up_key u = k"
  shows "hoare (holding k e u) (upd_upload k f) (\<lambda>_. holding k e (f u)) E"
proof (rule hoareI)
  fix s x t
  assume *: "holding k e u s" "upd_upload k f s = (Inr x, t)"
  then obtain n where "s = (put_upload k u e)\<lparr>en_io_pos := n\<rparr>" by (auto simp: holding_def)
  with * assms show "holding k e (f u) t" by (intro holdingI [where n = n]) (auto simp: upd_upload_def change_def)
qed (simp add: upd_upload_def change_def)

lemma holding_self: "engine_ok e \<Longrightarrow> get_upload e k = Some u \<Longrightarrow> holding k e u e"
  by (auto simp: holding_def engine_ok_def update_by_same intro: exI [of _ "en_io_pos e"])

lemma holding_get:
  "holding k e u s \<Longrightarrow> get_upload e k = Some u0 \<Longrightarrow> up_key u = k \<Longrightarrow> get_upload s k = Some u \<and> en_chunk_size s = en_chunk_size e"
  by (auto simp: holding_def)

lemma hoare_gets: "(\<And>s. P s \<Longrightarrow> Q (f s) s) \<Longrightarrow> hoare P (gets f) Q E"
  by (simp add: hoare_def gets_def)

lemma write_piece_shape:
  assumes u0: "get_upload e k = Some u0" and key: "up_key u = k" and cs: "cs = en_chunk_size e"
  shows "hoare (holding k e u) (write_piece buffered k p) (\<lambda>_. holding k e (take_piece cs p u))
      (\<lambda>_ s. holding k e u s \<or> holding k e (feed_piece p u) s)"
proof -
  have close: "hoare (holding k e (feed_piece p u))
      (if filled_bytes (feed_piece p u) = cs then thenA io (upd_upload k close_chunk) else retA ())
      (\<lambda>_. holding k e (take_piece cs p u)) (\<lambda>_. holding k e (feed_piece p u))"
  proof (cases "filled_bytes (feed_piece p u) = cs")
    case True
    then show ?thesis using key by (simp add: take_piece_def hoare_frame hoare_holding_upd keeps_rules)
  qed (simp add: take_piece_def hoare_def retA_def)
  have feed: "hoare (holding k e u) (thenA (upd_upload k (feed_piece p))
      (if filled_bytes (feed_piece p u) = cs then thenA io (upd_upload k close_chunk) else retA ()))
      (\<lambda>_. holding k e (take_piece cs p u)) (\<lambda>_ s. holding k e u s \<or> holding k e (feed_piece p u) s)"
    unfolding thenA_def [of "upd_upload k (feed_piece p)"] using key
    by (intro hoare_bindA [where R = "\<lambda>_. holding k e (feed_piece p u)"] hoare_holding_upd hoare_weaken [OF close]) auto
  have body: "hoare (holding k e u)
      (thenA (if buffered \<or> up_open u \<noteq> None then retA () else io)
        (thenA (if buffered then retA () else io)
        (thenA (upd_upload k (feed_piece p))
        (if filled_bytes (feed_piece p u) = cs then thenA io (upd_upload k close_chunk) else retA ()))))
      (\<lambda>_. holding k e (take_piece cs p u)) (\<lambda>_ s. holding k e u s \<or> holding k e (feed_piece p u) s)"
    by (intro hoare_through feed keeps_rules) auto
  show ?thesis
  proof (rule hoareI)
    fix s x t
    assume s: "holding k e u s" "write_piece buffered k p s = (Inr x, t)"
    note at_s = holding_get [OF s(1) u0 key]
    show "holding k e (take_piece cs p u) t"
      using hoareD_Inr [OF body s(1)] s(2) at_s cs by (simp add: write_piece_def bindA_def gets_def)
  next
    fix s x t
    assume s: "holding k e u s" "write_piece buffered k p s = (Inl x, t)"
    note at_s = holding_get [OF s(1) u0 key]
    show "holding k e u t \<or> holding k e (feed_piece p u) t"
      using hoareD_Inl [OF body s(1)] s(2) at_s cs by (simp add: write_piece_def bindA_def gets_def)
  qed
qed

definition advanced :: "nat \<Rightarrow> upload \<Rightarrow> upload \<Rightarrow> bool" where
  "advanced cs u u' \<longleftrightarrow> up_key u' = up_key u \<and> upload_ok cs u' \<and> up_reserved u' = up_reserved u \<and> \<not> up_published u'"

lemma pieces_run:
  assumes u0: "get_upload e k = Some u0" and cs: "cs = en_chunk_size e" "0 < cs"
  shows "advanced cs u0 u \<Longrightarrow> fits cs (filled_bytes u) ps \<Longrightarrow> up_size u + length (concat ps) \<le> up_reserved u \<Longrightarrow>
    hoare (holding k e u) (forA (write_piece buffered k) ps)
      (\<lambda>_ s. \<exists>u'. advanced cs u0 u' \<and> up_fed u' = up_fed u @ concat ps \<and> (filled_bytes u < cs \<longrightarrow> filled_bytes u' < cs) \<and> holding k e u' s)
      (\<lambda>_ s. \<exists>u'. advanced cs u0 u' \<and> holding k e u' s)"
proof (induction ps arbitrary: u)
  case Nil
  then show ?case by (auto simp: hoare_def retA_def)
next
  case (Cons p ps)
  have key: "up_key u = k" using Cons.prems(1) lookup_by_SomeD [OF u0] by (simp add: advanced_def)
  have ok: "upload_ok cs u" using Cons.prems(1) by (simp add: advanced_def)
  have p: "p \<noteq> []" "filled_bytes u + length p \<le> cs" "up_size u + length p \<le> up_reserved u"
    using Cons.prems by auto
  note step = take_piece_ok [OF ok p cs(2)]
  have adv: "advanced cs u0 (feed_piece p u)" "advanced cs u0 (take_piece cs p u)"
    using Cons.prems(1) step by (simp_all add: advanced_def)
  have IH: "hoare (holding k e (take_piece cs p u)) (forA (write_piece buffered k) ps)
      (\<lambda>_ s. \<exists>u'. advanced cs u0 u' \<and> up_fed u' = up_fed u @ concat (p # ps) \<and> (filled_bytes u < cs \<longrightarrow> filled_bytes u' < cs) \<and> holding k e u' s)
      (\<lambda>_ s. \<exists>u'. advanced cs u0 u' \<and> holding k e u' s)"
    by (rule hoare_weaken [OF Cons.IH [OF adv(2)]]) (use Cons.prems step in auto)
  have first: "hoare (holding k e u) (write_piece buffered k p) (\<lambda>_. holding k e (take_piece cs p u))
      (\<lambda>_ s. \<exists>u'. advanced cs u0 u' \<and> holding k e u' s)"
    by (rule hoare_weaken [OF write_piece_shape [OF u0 key cs(1)]]) (use adv Cons.prems(1) in blast)+
  show ?case unfolding forA.simps
    by (rule hoare_bindA [OF first], rule hoare_bindA [OF IH]) (auto simp: hoare_def retA_def)
qed

text \<open>What an upload in progress leaves alone.\<close>

definition working :: "version_key \<Rightarrow> engine \<Rightarrow> engine \<Rightarrow> bool" where
  "working k e s \<longleftrightarrow> engine_ok s \<and> (\<exists>u. get_upload s k = Some u \<and> \<not> up_published u) \<and>
     remove_by up_key k (en_uploads s) = remove_by up_key k (en_uploads e) \<and>
     en_dirs s = en_dirs e \<and> en_links s = en_links e \<and> en_chunk_size s = en_chunk_size e \<and>
     en_capacity s = en_capacity e \<and> en_used s = en_used e \<and> en_io s = en_io e \<and> en_disk_free s = en_disk_free e"

lemma working_upload: "working k e s \<Longrightarrow> \<exists>u. get_upload s k = Some u \<and> \<not> up_published u \<and> upload_ok (en_chunk_size s) u"
  unfolding working_def engine_ok_def by (metis lookup_by_SomeD(1))

lemma remove_update_by: "remove_by key k (update_by key k (\<lambda>_. r) t) = remove_by key k t" if "key r = k"
  using that by (induction t) auto

lemma working_advance:
  assumes e1: "working k e e1" "get_upload e1 k = Some u1" and u': "advanced (en_chunk_size e1) u1 u'" "holding k e1 u' t"
  shows "working k e t" "get_upload t k = Some u'"
proof -
  have key: "up_key u1 = k" using lookup_by_SomeD [OF e1(2)] by simp
  have unpub: "\<not> up_published u1" using e1 by (auto simp: working_def)
  obtain n where t: "t = (put_upload k u' e1)\<lparr>en_io_pos := n\<rparr>" using u'(2) by (auto simp: holding_def)
  have "engine_ok (put_upload k u' e1)"
    using e1 u' key unpub by (intro engine_ok_replace_same [where u = u1]) (auto simp: advanced_def working_def engine_ok_def)
  moreover show "get_upload t k = Some u'" using t e1(2) u'(1) key by (simp add: advanced_def)
  ultimately show "working k e t" using t e1 u'(1) key by (simp add: working_def advanced_def remove_update_by)
qed

lemma reserve_run:
  assumes s: "working k e s" and u: "get_upload s k = Some u"
    and room: "int n \<le> min (logical_free s) (en_disk_free s (en_disk_pos s))"
  defines "e1 \<equiv> s\<lparr>en_uploads := update_by up_key k (\<lambda>_. u\<lparr>up_reserved := up_reserved u + n\<rparr>) (en_uploads s),
    en_reserved := en_reserved s + int n, en_disk_pos := Suc (en_disk_pos s)\<rparr>"
  shows "thenA (reserve_capacity n) (upd_upload k (\<lambda>u. u\<lparr>up_reserved := up_reserved u + n\<rparr>)) s = (Inr (), e1)"
    "working k e e1" "get_upload e1 k = Some (u\<lparr>up_reserved := up_reserved u + n\<rparr>)"
proof -
  have ok: "engine_ok s" using s by (simp add: working_def)
  have key: "up_key u = k" using lookup_by_SomeD [OF u] by simp
  have u_ok: "upload_ok (en_chunk_size s) u" "\<not> up_published u" using working_upload [OF s] u by auto
  have upd: "update_by up_key k (\<lambda>u. u\<lparr>up_reserved := up_reserved u + n\<rparr>) (en_uploads s) =
      update_by up_key k (\<lambda>_. u\<lparr>up_reserved := up_reserved u + n\<rparr>) (en_uploads s)"
    using ok u by (intro update_by_const) (simp_all add: engine_ok_def)
  show "thenA (reserve_capacity n) (upd_upload k (\<lambda>u. u\<lparr>up_reserved := up_reserved u + n\<rparr>)) s = (Inr (), e1)"
    using room upd by (auto simp: e1_def thenA_def bindA_def reserve_capacity_def upd_upload_def change_def Let_def)
  have "engine_ok (s\<lparr>en_uploads := update_by up_key k (\<lambda>_. u\<lparr>up_reserved := up_reserved u + n\<rparr>) (en_uploads s),
      en_reserved := en_reserved s + int n\<rparr>)"
  proof (rule engine_ok_replace [OF ok u u_ok(2)])
    show "upload_ok (en_chunk_size s) (u\<lparr>up_reserved := up_reserved u + n\<rparr>)"
      using u_ok(1) by (auto simp: upload_ok_def open_bytes_def)
    have "en_used s + en_reserved s \<le> en_capacity s" using ok by (simp add: engine_ok_def)
    then show "en_used s + en_reserved s + int n \<le> en_capacity s"
      using room by (simp add: logical_free_def max_def split: if_splits)
  qed (use key u_ok in simp_all)
  then have "engine_ok e1" by (simp add: e1_def)
  moreover show get: "get_upload e1 k = Some (u\<lparr>up_reserved := up_reserved u + n\<rparr>)" using u key by (simp add: e1_def)
  ultimately show "working k e e1" using s u_ok key by (simp add: working_def remove_update_by) (simp add: e1_def remove_update_by)
qed

lemma receive_run:
  assumes s: "working k e s" and u: "get_upload s k = Some u" and run: "receive buffered k bs s = (r, t)"
  shows "working k e t \<and> (\<not> isl r \<longrightarrow> filled_bytes u < en_chunk_size s \<longrightarrow>
      (\<exists>u'. get_upload t k = Some u' \<and> up_fed u' = up_fed u @ bs \<and> filled_bytes u' < en_chunk_size s))"
proof (cases "bs = [] \<or> min (logical_free s) (en_disk_free s (en_disk_pos s)) < int (length bs)")
  case True
  then show ?thesis using s u run
    by (auto simp: receive_def retA_def reserve_capacity_def thenA_def bindA_def working_def Let_def split: if_splits)
next
  case False
  define u1 where "u1 = u\<lparr>up_reserved := up_reserved u + length bs\<rparr>"
  obtain e1 where e1: "thenA (reserve_capacity (length bs)) (upd_upload k (\<lambda>u. u\<lparr>up_reserved := up_reserved u + length bs\<rparr>)) s = (Inr (), e1)"
    "working k e e1" "get_upload e1 k = Some u1" "en_chunk_size e1 = en_chunk_size s"
    using reserve_run [OF s u, of "length bs"] False unfolding u1_def by force
  let ?cs = "en_chunk_size s" and ?ps = "pieces (en_chunk_size s) (filled_bytes u) bs"
  have filled: "filled_bytes u1 = filled_bytes u" by (simp add: u1_def filled_bytes_def)
  have run': "thenA (forA (write_piece buffered k) ?ps) (retA ()) e1 = (r, t)"
  proof -
    have "receive buffered k bs = thenA (thenA (reserve_capacity (length bs))
        (upd_upload k (\<lambda>u. u\<lparr>up_reserved := up_reserved u + length bs\<rparr>)))
        (bindA (gets (\<lambda>e. case get_upload e k of None \<Rightarrow> [] | Some u \<Rightarrow> pieces (en_chunk_size e) (filled_bytes u) bs))
          (\<lambda>ps. thenA (forA (write_piece buffered k) ps) (retA ())))"
      using False by (simp add: receive_def thenA_def bindA_assoc)
    then show ?thesis using run e1(1,3,4) filled
      by (simp add: thenA_def [of "thenA _ _"]) (simp add: bindA_def gets_def)
  qed
  have ok1: "upload_ok ?cs u1" "\<not> up_published u1" using working_upload [OF e1(2)] e1(3,4) by auto
  have "advanced ?cs u1 u1" using ok1 by (simp add: advanced_def)
  have size: "up_size u1 + length (concat ?ps) \<le> up_reserved u1"
    using working_upload [OF s] u concat_pieces_le [of ?cs "filled_bytes u" bs] by (auto simp: u1_def upload_ok_def)
  have cs: "0 < ?cs" using s by (simp add: working_def engine_ok_def)
  have loop: "hoare (holding k e1 u1) (forA (write_piece buffered k) ?ps)
      (\<lambda>_ s. \<exists>u'. advanced ?cs u1 u' \<and> up_fed u' = up_fed u1 @ concat ?ps \<and> (filled_bytes u1 < ?cs \<longrightarrow> filled_bytes u' < ?cs) \<and> holding k e1 u' s)
      (\<lambda>_ s. \<exists>u'. advanced ?cs u1 u' \<and> holding k e1 u' s)"
    using e1(3,4) cs \<open>advanced ?cs u1 u1\<close> size pieces_fit [of ?cs "filled_bytes u" bs]
    by (intro pieces_run) (simp_all add: filled)
  have at: "holding k e1 u1 e1" using holding_self e1(2,3) by (auto simp: working_def)
  obtain r' where r': "forA (write_piece buffered k) ?ps e1 = (r', t)" "isl r' = isl r"
    using run' by (auto simp: thenA_def bindA_def retA_def split: prod.splits sum.splits)
  obtain u' where u': "advanced ?cs u1 u'" "holding k e1 u' t"
    "\<not> isl r \<Longrightarrow> up_fed u' = up_fed u1 @ concat ?ps \<and> (filled_bytes u1 < ?cs \<longrightarrow> filled_bytes u' < ?cs)"
    using r' hoareD_Inr [OF loop at] hoareD_Inl [OF loop at] by (cases r') fastforce+
  have "working k e t" "get_upload t k = Some u'"
    using working_advance [OF e1(2,3)] u'(1,2) e1(4) by simp_all
  moreover have "up_fed u1 = up_fed u" by (simp add: u1_def)
  ultimately show ?thesis using u'(3) filled concat_pieces [of "filled_bytes u" ?cs bs] by auto
qed

lemma engine_error_simps [simp]: "snd (io e) = e\<lparr>en_io_pos := Suc (en_io_pos e)\<rparr>"
  by (simp add: io_def)

definition fresh_upload :: "version_key \<Rightarrow> upload" where
  "fresh_upload k = \<lparr>up_key = k, up_files = [], up_open = None, up_digests = [], up_fed = [], up_size = 0, up_reserved = 0,
     up_published = False\<rparr>"

text \<open>A state that differs at most in the positions of the feeds.\<close>

definition same_store :: "engine \<Rightarrow> engine \<Rightarrow> bool" where
  "same_store e s \<longleftrightarrow> s = e\<lparr>en_io_pos := en_io_pos s, en_disk_pos := en_disk_pos s\<rparr>"

lemma same_store_rules [keeps_rules, raises_rules]:
  "keeps (same_store e) io" "keeps (same_store e) (gets f)" "raises_keep (same_store e) (change g)"
  "raises_keep (same_store e) io"
proof -
  show "keeps (same_store e) io"
    unfolding keeps_def
  proof (intro allI impI)
    fix s
    assume "same_store e s"
    then obtain p q where "s = e\<lparr>en_io_pos := p, en_disk_pos := q\<rparr>" by (auto simp: same_store_def)
    then show "same_store e (snd (io s))" by (simp add: same_store_def)
  qed
  then show "raises_keep (same_store e) io" by (auto simp: raises_keep_def dest: keepsD)
qed (simp_all add: keeps_def gets_def raises_keep_def change_def)

lemma same_store_refl [simp]: "same_store e e"
  by (simp add: same_store_def)

lemma begin_run:
  assumes "begin_upload k e = (r, t)"
  shows "isl r \<Longrightarrow> same_store e t"
    and "\<not> isl r \<Longrightarrow> valid_ids k \<and> k \<notin> set (en_inflight e) \<and> \<not> exists_version e k \<and> fst k \<notin> set (en_links e) \<and>
      t = e\<lparr>en_io_pos := Suc (en_io_pos e), en_inflight := k # en_inflight e, en_uploads := fresh_upload k # en_uploads e\<rparr>"
  using assms
  by (auto simp: begin_upload_def bindA_def thenA_def gets_def raiseA_def io_def change_def fresh_upload_def same_store_def split: if_splits)

lemma fresh_ok [simp]: "upload_ok cs (fresh_upload k)" "\<not> up_published (fresh_upload k)" "up_key (fresh_upload k) = k"
    "up_fed (fresh_upload k) = []" "filled_bytes (fresh_upload k) = 0" "up_reserved (fresh_upload k) = 0" "unaccounted (fresh_upload k) = 0"
  by (simp_all add: upload_ok_def fresh_upload_def open_bytes_def filled_bytes_def unaccounted_def)

lemma begin_working:
  assumes ok: "engine_ok e" and run: "begin_upload k e = (Inr x, t)"
  shows "working k t t" "get_upload t k = Some (fresh_upload k)" "remove_by up_key k (en_uploads t) = en_uploads e"
proof -
  note t = begin_run(2) [OF run, simplified]
  have new: "k \<notin> up_key ` set (en_uploads e)" using t ok by (simp add: engine_ok_def)
  show get: "get_upload t k = Some (fresh_upload k)" using t by simp
  have "engine_ok t" using t ok by (simp add: engine_ok_def total_payload_def)
  then show "working k t t" using get by (simp add: working_def)
  show "remove_by up_key k (en_uploads t) = en_uploads e" using t new by (auto simp: remove_by_def filter_id_conv)
qed

lemma receives_run:
  assumes "working k e s" "get_upload s k = Some u" "forA (receive buffered k) bss s = (r, t)"
  shows "working k e t \<and> (\<not> isl r \<longrightarrow> filled_bytes u < en_chunk_size s \<longrightarrow>
      (\<exists>u'. get_upload t k = Some u' \<and> up_fed u' = up_fed u @ concat bss \<and> filled_bytes u' < en_chunk_size s))"
  using assms
proof (induction bss arbitrary: s u r)
  case Nil
  then show ?case by (auto simp: retA_def)
next
  case (Cons bs bss)
  obtain r1 s1 where s1: "receive buffered k bs s = (r1, s1)" by (cases "receive buffered k bs s")
  note step = receive_run [OF Cons.prems(1,2) s1]
  show ?case
  proof (cases r1)
    case (Inl x)
    then show ?thesis using step Cons.prems(3) s1 by (auto simp: bindA_def)
  next
    case (Inr x)
    obtain u1 where u1: "get_upload s1 k = Some u1" using step by (auto simp: working_def)
    obtain r2 where r2: "forA (receive buffered k) bss s1 = (r2, t)" "isl r2 = isl r"
      using Cons.prems(3) s1 Inr by (auto simp: bindA_def retA_def split: prod.splits sum.splits)
    have "en_chunk_size s1 = en_chunk_size s" using step Cons.prems(1) by (simp add: working_def)
    with Cons.IH [OF _ u1 r2(1)] step u1 r2(2) Inr show ?thesis by auto
  qed
qed

lemma payload_published:
  "upload_ok cs u \<Longrightarrow> payload_bytes (published_dir c (close_chunk u)) = up_size u"
proof -
  have "sum_list (map (\<lambda>i. length (f ! i)) [0..<length f]) = length (concat f)" for f :: "byte list list"
    using map_nth [of f] by (metis (no_types, lifting) length_concat map_eq_conv map_map o_apply)
  then have "payload_bytes (published_dir c w) = length (concat (up_files w))" for w
    by (simp add: payload_bytes_def published_dir_def chunk_bytes_def comp_def)
  then show "upload_ok cs u \<Longrightarrow> ?thesis" by (simp add: upload_ok_def)
qed

text \<open>Publishing: either nothing but the feeds has changed, or the directory has appeared.\<close>

lemma finish_run:
  assumes ok: "engine_ok e" and u: "get_upload e k = Some u" and run: "finish_upload k e = (r, t)"
  shows "isl r \<Longrightarrow> same_store e t"
    and "\<not> isl r \<Longrightarrow> get_dir e k = None \<and> t = e\<lparr>en_dirs := published_dir (en_chunk_size e) (close_chunk u) # en_dirs e,
        en_uploads := update_by up_key k (\<lambda>_. (close_chunk u)\<lparr>up_published := True\<rparr>) (en_uploads e), en_io_pos := en_io_pos t\<rparr>"
proof -
  have upd: "update_by up_key k (\<lambda>u. (close_chunk u)\<lparr>up_published := True\<rparr>) (en_uploads e) =
      update_by up_key k (\<lambda>_. (close_chunk u)\<lparr>up_published := True\<rparr>) (en_uploads e)"
    using ok u by (intro update_by_const) (simp_all add: engine_ok_def)
  have "raises_keep (same_store e) (finish_upload k)"
    unfolding finish_upload_def by (intro raises_rules keeps_rules)
  then show "isl r \<Longrightarrow> same_store e t" 
    using run raises_keepD [where I = "same_store e" and s = e and m = "finish_upload k"] by (cases r) auto
  show "\<not> isl r \<Longrightarrow> get_dir e k = None \<and> t = e\<lparr>en_dirs := published_dir (en_chunk_size e) (close_chunk u) # en_dirs e,
        en_uploads := update_by up_key k (\<lambda>_. (close_chunk u)\<lparr>up_published := True\<rparr>) (en_uploads e), en_io_pos := en_io_pos t\<rparr>"
  proof -
    assume "\<not> isl r"
    then obtain x where "finish_upload k e = (Inr x, t)" using run by (cases r) auto
    then obtain s1 s2 s3 where s: "(if up_open u = None then retA () else io) e = (Inr (), s1)" "io s1 = (Inr (), s2)"
      "get_dir s2 k = None" "io s2 = (Inr (), s3)" "change (\<lambda>e. e\<lparr>en_dirs := published_dir (en_chunk_size e) (close_chunk u) # en_dirs e,
            en_uploads := update_by up_key k (\<lambda>u. (close_chunk u)\<lparr>up_published := True\<rparr>) (en_uploads e)\<rparr>) s3 = (Inr x, t)"
      unfolding finish_upload_def bindA_def [of "gets (\<lambda>e. get_upload e k)"] gets_def [of "\<lambda>e. get_upload e k"] prod.case sum.case u option.case
      by (elim thenA_InrE bindA_InrE guard_InrE) (auto simp: gets_def)
    obtain n where n: "s2 = e\<lparr>en_io_pos := n\<rparr>" using s(1,2) by (auto simp: io_def retA_def split: if_splits)
    show ?thesis using s(3-5) unfolding n by (auto simp: io_def change_def upd split: if_splits)
  qed
qed

lemma publish_ok:
  assumes ok: "engine_ok e" and u: "get_upload e k = Some u" "\<not> up_published u" and new: "get_dir e k = None"
  shows "engine_ok (e\<lparr>en_dirs := published_dir c (close_chunk u) # en_dirs e,
    en_uploads := update_by up_key k (\<lambda>_. (close_chunk u)\<lparr>up_published := True\<rparr>) (en_uploads e)\<rparr>)" (is "engine_ok ?t")
proof -
  let ?u = "(close_chunk u)\<lparr>up_published := True\<rparr>"
  have d: "distinct (map up_key (en_uploads e))" using ok by (simp add: engine_ok_def)
  have key: "up_key u = k" and u_ok: "upload_ok (en_chunk_size e) u"
    using lookup_by_SomeD [OF u(1)] ok u(2) by (auto simp: engine_ok_def)
  have keys: "map up_key (update_by up_key k (\<lambda>_. ?u) (en_uploads e)) = map up_key (en_uploads e)"
    using key by (intro map_update_by_const) simp
  have res: "sum_list (map up_reserved (update_by up_key k (\<lambda>_. ?u) (en_uploads e))) = sum_list (map up_reserved (en_uploads e))"
    using sum_update_by [OF d u(1), of up_reserved ?u] by simp
  have un: "sum_list (map unaccounted (update_by up_key k (\<lambda>_. ?u) (en_uploads e))) = sum_list (map unaccounted (en_uploads e)) + up_size u"
    using sum_update_by [OF d u(1), of unaccounted ?u] u(2) by (simp add: unaccounted_def)
  have "up_size u \<le> up_reserved u" using u_ok by (auto simp: upload_ok_def)
  then have "\<forall>w\<in>set (update_by up_key k (\<lambda>_. ?u) (en_uploads e)).
      if up_published w then up_size w \<le> up_reserved w else upload_ok (en_chunk_size e) w"
    using ok by (auto simp: engine_ok_def elim!: in_update_byE)
  moreover have "k \<notin> vd_key ` set (en_dirs e)" using new by (simp add: lookup_by_None_iff)
  ultimately show ?thesis
    using ok payload_published [OF u_ok, of c] key by (simp add: engine_ok_def total_payload_def keys res un) (simp add: published_dir_def)
qed

lemma drop_ok:
  assumes ok: "engine_ok e" and u: "get_upload e k = Some u"
  shows "engine_ok (drop_upload k (e\<lparr>en_reserved := max (en_reserved e - int (up_reserved u)) 0, en_used := en_used e + int (unaccounted u)\<rparr>))"
proof -
  have d: "distinct (map up_key (en_uploads e))" using ok by (simp add: engine_ok_def)
  note res = sum_remove_by [OF d u, of up_reserved] and un = sum_remove_by [OF d u, of unaccounted]
  have "unaccounted u \<le> up_reserved u"
    using lookup_by_SomeD [OF u] ok by (auto simp: engine_ok_def unaccounted_def upload_ok_def split: if_splits)
  moreover have "removeAll k (map up_key (en_uploads e)) = map up_key (remove_by up_key k (en_uploads e))"
    by (induction "en_uploads e" rule: list.induct) (simp_all add: remove_by_def removeAll_filter_not_eq filter_map comp_def eq_commute)
  ultimately show ?thesis using ok res un distinct_map_remove_by [OF d, of up_key k]
    by (auto simp: engine_ok_def drop_upload_def total_payload_def table_simps)
qed

lemma account_run:
  assumes "get_upload e k = Some u"
  shows "account_upload k e = (Inr (up_size u),
    drop_upload k (e\<lparr>en_reserved := max (en_reserved e - int (up_reserved u)) 0, en_used := en_used e + int (up_size u)\<rparr>))"
  using assms by (simp add: account_upload_def bindA_def thenA_def gets_def release_capacity_def change_def retA_def drop_upload_def)

lemma cleanup_run:
  assumes "get_upload e k = Some u" "\<not> up_published u"
  shows "cleanup_upload k e = (if en_io e (en_io_pos e) then
      (Inr (), drop_upload k (e\<lparr>en_io_pos := Suc (en_io_pos e), en_reserved := max (en_reserved e - int (up_reserved u)) 0\<rparr>))
      else (Inl EngineOSError, e\<lparr>en_io_pos := Suc (en_io_pos e)\<rparr>))"
  using assms by (simp add: cleanup_upload_def bindA_def thenA_def gets_def io_def release_capacity_def change_def retA_def drop_upload_def)

lemma remove_dir_ok:
  assumes ok: "engine_ok e" and d: "get_dir e k = Some d" and d': "vd_key d' = k" "payload_bytes d' \<le> payload_bytes d"
  shows "engine_ok (e\<lparr>en_dirs := remove_by vd_key k (en_dirs e), en_used := max 0 (en_used e - int (payload_bytes d))\<rparr>)"
    "engine_ok (e\<lparr>en_dirs := update_by vd_key k (\<lambda>_. d') (en_dirs e)\<rparr>)"
proof -
  have ds: "distinct (map vd_key (en_dirs e))" using ok by (simp add: engine_ok_def)
  note rem = sum_remove_by [OF ds d, of payload_bytes] and upd = sum_update_by [OF ds d, of payload_bytes d']
  show "engine_ok (e\<lparr>en_dirs := remove_by vd_key k (en_dirs e), en_used := max 0 (en_used e - int (payload_bytes d))\<rparr>)"
    using ok rem distinct_map_remove_by [OF ds, of vd_key k] by (auto simp: engine_ok_def total_payload_def)
  show "engine_ok (e\<lparr>en_dirs := update_by vd_key k (\<lambda>_. d') (en_dirs e)\<rparr>)"
    using ok upd d'(2) map_update_by_const [where key = vd_key and r' = d' and k = k and t = "en_dirs e"] d'(1) by (simp add: engine_ok_def total_payload_def)
qed

lemma payload_partly: "payload_bytes (partly_removed left d) \<le> payload_bytes d"
  by (induction "vd_files d" arbitrary: d rule: list.induct)
    (auto simp: payload_bytes_def partly_removed_def intro: sum_list_filter_le_nat)

lemma remove_tree_run:
  assumes "get_dir e k = Some d" "remove_tree k e = (r, t)"
  shows "isl r \<Longrightarrow> t = e\<lparr>en_io_pos := en_io_pos t\<rparr> \<or>
      t = e\<lparr>en_dirs := update_by vd_key k (partly_removed (en_left e (Suc (en_io_pos e)))) (en_dirs e), en_io_pos := en_io_pos t\<rparr>"
    and "\<not> isl r \<Longrightarrow> t = e\<lparr>en_io_pos := Suc (en_io_pos e), en_dirs := remove_by vd_key k (en_dirs e)\<rparr>"
  using assms
  by (auto simp: remove_tree_def bindA_def thenA_def catchA_def gets_def raiseA_def io_def change_def split: if_splits)

lemma delete_ok:
  assumes ok: "engine_ok e" and run: "delete_version ob v e = (r, t)"
  shows "engine_ok t"
proof (cases "valid_ids (ob, v) \<and> exists_version e (ob, v)")
  case False
  then show ?thesis using ok run
    by (auto simp: delete_version_def exists_version_def Let_def bindA_def gets_def raiseA_def split: option.splits if_splits)
next
  case True
  let ?k = "(ob, v)"
  obtain d where d: "get_dir e ?k = Some d" "meta_is_file (vd_meta d)"
    using True by (auto simp: exists_version_def split: option.splits)
  obtain r1 s where s: "remove_tree ?k e = (r1, s)" by (cases "remove_tree ?k e")
  have rem: "t = (case r1 of Inl x \<Rightarrow> s | Inr x \<Rightarrow> s\<lparr>en_used := max 0 (en_used s - int (payload_bytes d))\<rparr>)"
    using run True d s by (auto simp: delete_version_def Let_def bindA_def thenA_def gets_def change_def split: sum.splits)
  have key: "vd_key (partly_removed left d) = ?k" for left
    using lookup_by_SomeD [OF d(1)] by (simp add: partly_removed_def)
  have upd: "update_by vd_key ?k (partly_removed left) (en_dirs e) = update_by vd_key ?k (\<lambda>_. partly_removed left d) (en_dirs e)" for left
    using ok d by (intro update_by_const) (simp_all add: engine_ok_def)
  note parts = remove_dir_ok(2) [OF ok d(1) key payload_partly]
  show ?thesis
  proof (cases r1)
    case (Inl x)
    with rem remove_tree_run(1) [OF d(1) s] obtain left where
      "t = e\<lparr>en_io_pos := en_io_pos t\<rparr> \<or> t = (e\<lparr>en_dirs := update_by vd_key ?k (\<lambda>_. partly_removed left d) (en_dirs e)\<rparr>)\<lparr>en_io_pos := en_io_pos t\<rparr>"
      unfolding upd by (metis isl_def sum.case(1))
    then show ?thesis using ok parts engine_ok_feeds(1) by metis
  next
    case (Inr x)
    with rem remove_tree_run(2) [OF d(1) s] have
      "t = (e\<lparr>en_dirs := remove_by vd_key ?k (en_dirs e), en_used := max 0 (en_used e - int (payload_bytes d))\<rparr>)\<lparr>en_io_pos := Suc (en_io_pos e)\<rparr>"
      by simp
    then show ?thesis using remove_dir_ok(1) [OF ok d(1), of d] lookup_by_SomeD [OF d(1)] by (simp only: engine_ok_feeds order_refl)
  qed
qed

section \<open>Interleavings\<close>

text \<open>
  One step of the engine: a request begins an upload, receives a block, publishes, accounts for or
  cleans up its own upload, deletes a version or reads the statistics. Steps of different requests
  interleave freely; the lock of the engine makes each of them atomic.
\<close>

inductive engine_step :: "engine \<Rightarrow> engine \<Rightarrow> bool" where
  step_begin: "begin_upload k e = (r, e') \<Longrightarrow> engine_step e e'"
| step_receive: "get_upload e k = Some u \<Longrightarrow> \<not> up_published u \<Longrightarrow> receive buffered k bs e = (r, e') \<Longrightarrow> engine_step e e'"
| step_finish: "get_upload e k = Some u \<Longrightarrow> \<not> up_published u \<Longrightarrow> finish_upload k e = (r, e') \<Longrightarrow> engine_step e e'"
| step_account: "get_upload e k = Some u \<Longrightarrow> up_published u \<Longrightarrow> account_upload k e = (r, e') \<Longrightarrow> engine_step e e'"
| step_cleanup: "get_upload e k = Some u \<Longrightarrow> \<not> up_published u \<Longrightarrow> cleanup_upload k e = (r, e') \<Longrightarrow> engine_step e e'"
| step_delete: "delete_version ob v e = (r, e') \<Longrightarrow> engine_step e e'"
| step_stats: "stats e = (r, e') \<Longrightarrow> engine_step e e'"

inductive engine_reach :: "engine \<Rightarrow> engine \<Rightarrow> bool" for e0 where
  reach_start: "engine_reach e0 e0"
| reach_step: "engine_reach e0 e \<Longrightarrow> engine_step e e' \<Longrightarrow> engine_reach e0 e'"

lemma engine_ok_same_store: "same_store e s \<Longrightarrow> engine_ok s = engine_ok e"
  unfolding same_store_def by (metis engine_ok_feeds)

lemma engine_step_ok: "engine_step e e' \<Longrightarrow> engine_ok e \<Longrightarrow> engine_ok e'"
proof (induction rule: engine_step.induct)
  case (step_begin k e r e')
  then show ?case
    using begin_run(1) [OF step_begin(1)] engine_ok_same_store [of e e'] begin_working(1) [OF step_begin(2), of k]
    by (cases r) (auto simp: working_def)
next
  case (step_receive e k u buffered bs r e')
  then have "working k e e" by (auto simp: working_def)
  then show ?case using receive_run [OF _ step_receive(1,3)] by (simp add: working_def)
next
  case (step_finish e k u r e')
  show ?case
  proof (cases "isl r")
    case True
    then show ?thesis using finish_run(1) step_finish engine_ok_same_store by blast
  next
    case False
    note t = finish_run(2) [OF step_finish(4,1,3) False]
    have "engine_ok (e\<lparr>en_dirs := published_dir (en_chunk_size e) (close_chunk u) # en_dirs e,
        en_uploads := update_by up_key k (\<lambda>_. (close_chunk u)\<lparr>up_published := True\<rparr>) (en_uploads e)\<rparr>)"
      using publish_ok step_finish t by simp
    then show ?thesis using t engine_ok_feeds(1) by metis
  qed
next
  case (step_account e k u r e')
  then show ?case using account_run [OF step_account(1)] drop_ok [OF step_account(4,1)] by (simp add: unaccounted_def)
next
  case (step_cleanup e k u r e')
  then show ?case using cleanup_run [OF step_cleanup(1,2)] drop_ok [of "e\<lparr>en_io_pos := Suc (en_io_pos e)\<rparr>" k u]
    by (auto simp: unaccounted_def split: if_splits)
next
  case (step_delete ob v e r e')
  then show ?case by (rule delete_ok [rotated])
next
  case (step_stats e r e')
  then show ?case by (auto simp: stats_def)
qed

lemma engine_reach_ok: "engine_reach e e' \<Longrightarrow> engine_ok e \<Longrightarrow> engine_ok e'"
  by (induction rule: engine_reach.induct) (auto intro: engine_step_ok)

text \<open>Starting an engine gives the invariant when what it finds fits its capacity.\<close>

lemma forA_io_frame: "forA (\<lambda>_. io) xs e = (r, t) \<Longrightarrow> same_store e t"
  by (rule keepsD [where m = "forA (\<lambda>_. io) xs" and s = e]) (auto intro!: keeps_rules)

definition plain_ids :: "engine \<Rightarrow> bool" where
  "plain_ids e \<longleftrightarrow> (\<forall>d\<in>set (en_dirs e). \<not> ends_with ''.upload'' (snd (vd_key d)) \<and> \<not> vd_link d \<and> fst (vd_key d) \<notin> set (en_links e))"

lemma start_run:
  assumes run: "start_engine capacity cs linked e = (Inr x, t)" and plain: "plain_ids e" and dirs: "distinct (map vd_key (en_dirs e))"
  shows "en_dirs t = en_dirs e \<and> en_used t = int (total_payload t) \<and> en_reserved t = 0 \<and> en_uploads t = [] \<and>
    en_inflight t = [] \<and> en_capacity t = capacity \<and> en_chunk_size t = cs \<and> 0 < cs \<and> 0 < capacity"
proof -
  have none: "filter (swept s) (en_dirs s) = []" if "plain_ids s" for s
    using that by (auto simp: plain_ids_def swept_def staging_name_def filter_empty_conv)
  have scan: "scan_used_payload_bytes s = total_payload s" if "plain_ids s" for s
  proof -
    have "filter (\<lambda>d. \<not> vd_link d \<and> fst (vd_key d) \<notin> set (en_links s) \<and> \<not> ends_with ''.upload'' (snd (vd_key d))) (en_dirs s) = en_dirs s"
      using that by (auto simp: plain_ids_def filter_id_conv)
    then show ?thesis by (simp add: scan_used_payload_bytes_def total_payload_def)
  qed
  obtain s1 s2 where s: "0 < capacity" "0 < cs" "io e = (Inr (), s1)" "cleanup_staging_directories s1 = (Inr (), s2)"
    "t = s2\<lparr>en_capacity := capacity, en_chunk_size := cs, en_reserved := 0, en_inflight := [],
            en_uploads := [], en_used := int (scan_used_payload_bytes s2)\<rparr>"
    using run by (auto simp: start_engine_def change_def raiseA_def elim!: thenA_InrE split: if_splits)
  have s1: "s1 = e\<lparr>en_io_pos := Suc (en_io_pos e)\<rparr>" using s(3) by (auto simp: io_def split: if_splits)
  then have "plain_ids s1" using plain by (simp add: plain_ids_def)
  then have "same_store s1 s2" using s(4)
    by (auto simp: cleanup_staging_directories_def none gets_def retA_def elim!: bindA_InrE thenA_InrE dest!: forA_io_frame)
  then obtain n m where s2: "s2 = e\<lparr>en_io_pos := n, en_disk_pos := m\<rparr>" using s1 by (auto simp: same_store_def)
  then have "plain_ids s2" using plain by (simp add: plain_ids_def)
  then show ?thesis using s(1,2,5) s2 scan [of s2] by (simp add: total_payload_def)
qed

section \<open>A whole write\<close>

lemma closed_files:
  assumes "upload_ok cs u" "0 < cs"
  shows "up_files (close_chunk u) = group cs (up_fed u)" "up_digests (close_chunk u) = map sha256 (group cs (up_fed u))"
proof -
  have fed: "group cs (up_fed u) = up_files u @ group cs (open_bytes u)"
    using assms by (auto simp: upload_ok_def group_fulls)
  have "group cs (open_bytes u) = (if up_open u = None then [] else [open_bytes u])"
    using assms by (auto simp: upload_ok_def open_bytes_def split: option.splits intro!: group_short)
  then show "up_files (close_chunk u) = group cs (up_fed u)" "up_digests (close_chunk u) = map sha256 (group cs (up_fed u))"
    using fed assms by (auto simp: close_chunk_def upload_ok_def open_bytes_def split: option.splits)
qed

definition stored_metadata :: "version_key \<Rightarrow> nat \<Rightarrow> byte list \<Rightarrow> json" where
  "stored_metadata k cs data = JObj [(''object_id'', JStr (fst k)), (''version_id'', JStr (snd k)),
     (''size_bytes'', JInt (int (length data))), (''chunk_size_bytes'', JInt (int cs)),
     (''chunk_count'', JInt (int (length (group cs data)))), (''checksum'', JStr (sha256 data)),
     (''chunk_checksums'', JList (map JStr (map sha256 (group cs data))))]"

definition stored_dir :: "version_key \<Rightarrow> nat \<Rightarrow> byte list \<Rightarrow> version_dir" where
  "stored_dir k cs data = \<lparr>vd_key = k, vd_link = False, vd_meta = Some (MetaFile (stored_metadata k cs data)),
     vd_files = map (\<lambda>i. (chunk_name i, PlainFile (group cs data ! i))) [0..<length (group cs data)]\<rparr>"

lemma published_stored:
  assumes "upload_ok cs u" "0 < cs"
  shows "published_dir cs (close_chunk u) = stored_dir (up_key u) cs (up_fed u)"
  using closed_files [OF assms] assms(1)
  by (simp add: published_dir_def stored_dir_def metadata_of_def stored_metadata_def upload_ok_def)

lemma finallyA_InrE:
  assumes "finallyA m f s = (Inr x, t)"
  obtains s' y where "m s = (Inr x, s')" "f s' = (Inr y, t)"
  using assms by (auto simp: finallyA_def split: prod.splits sum.splits)

lemma write_run:
  assumes ok: "engine_ok e" and run: "write_with buffered k p e = (Inr n, t)"
  defines "data \<equiv> concat (chunks p)"
  shows "valid_ids k \<and> fst k \<notin> set (en_links e) \<and> get_dir e k = None \<and> n = length data \<and> engine_ok t \<and>
    en_dirs t = stored_dir k (en_chunk_size e) data # en_dirs e \<and> en_uploads t = en_uploads e \<and>
    en_used t = en_used e + int n \<and> en_links t = en_links e \<and> en_chunk_size t = en_chunk_size e \<and> en_io t = en_io e"
proof -
  obtain e1 s1 s2 s3 y where b: "begin_upload k e = (Inr (), e1)"
    and r: "forA (receive buffered k) (chunks p) e1 = (Inr y, s1)" and ab: "abort p = None"
    and f: "finish_upload k s1 = (Inr (), s2)" and a: "account_upload k s2 = (Inr n, s3)"
    and c: "cleanup_upload k s3 = (Inr (), t)"
    using run unfolding write_with_def
    by (elim thenA_InrE finallyA_InrE) (auto simp: retA_def raiseA_def split: option.splits)
  note b1 = begin_run(2) [OF b, simplified] and bw = begin_working [OF ok b]
  have cs: "0 < en_chunk_size e" using ok by (simp add: engine_ok_def)
  have e1: "en_chunk_size e1 = en_chunk_size e" "en_dirs e1 = en_dirs e" "en_links e1 = en_links e" "en_used e1 = en_used e" "en_io e1 = en_io e"
    using b1 by simp_all
  obtain u where u: "working k e1 s1" "get_upload s1 k = Some u" "up_fed u = data"
    using receives_run [OF bw(1,2) r] e1 cs by (auto simp: data_def)
  note w = u(1) [unfolded working_def]
  have okt: "upload_ok (en_chunk_size e) u" "\<not> up_published u" "up_key u = k" "engine_ok s1"
    using working_upload [OF u(1)] u(2) w e1 lookup_by_SomeD [OF u(2)] by auto
  note s2 = finish_run(2) [OF okt(4) u(2) f, simplified]
  let ?u = "(close_chunk u)\<lparr>up_published := True\<rparr>"
  have g2: "get_upload s2 k = Some ?u" using u(2) okt(3) by (subst conjunct2 [OF s2]) simp
  have "engine_step s1 s2" using engine_step.step_finish [OF u(2) okt(2) f] .
  then have ok2: "engine_ok s2" using okt(4) engine_step_ok by blast
  have "engine_step s2 s3" using engine_step.step_account [OF g2 _ a] by simp
  then have ok3: "engine_ok s3" using ok2 engine_step_ok by blast
  note s3 = account_run [OF g2, unfolded a, simplified]
  have up3: "en_uploads s3 = en_uploads e"
  proof -
    have "en_uploads s3 = remove_by up_key k (en_uploads s2)" using s3 by (simp add: drop_upload_def)
    also have "\<dots> = remove_by up_key k (en_uploads s1)" using okt(3) by (subst conjunct2 [OF s2]) (simp add: remove_update_by)
    also have "\<dots> = en_uploads e" using w bw(3) by simp
    finally show ?thesis .
  qed
  have "get_upload s3 k = None" using s3 by (simp add: drop_upload_def table_simps)
  then have t: "t = s3" using c by (simp add: cleanup_upload_def bindA_def gets_def retA_def)
  have size: "up_size u = length data" using okt(1) u(3) by (simp add: upload_ok_def)
  have dirs: "en_dirs s2 = stored_dir k (en_chunk_size e) data # en_dirs e"
    using published_stored [OF okt(1) cs] okt(3) u(3) w e1 by (subst conjunct2 [OF s2]) simp
  have rest: "en_used s2 = en_used e" "en_links s2 = en_links e" "en_chunk_size s2 = en_chunk_size e" "en_io s2 = en_io e"
    using w e1 by (subst conjunct2 [OF s2], simp)+
  show ?thesis using b1 s2 t ok3 up3 s3 size dirs rest w e1 by (simp add: drop_upload_def)
qed

section \<open>Reading back\<close>

abbreviation io_works :: "engine \<Rightarrow> bool" where
  "io_works e \<equiv> \<forall>i. en_io e i"

abbreviation at_io :: "nat \<Rightarrow> engine \<Rightarrow> engine" where
  "at_io n e \<equiv> e\<lparr>en_io_pos := n\<rparr>"

lemma io_works_run: "io_works e \<Longrightarrow> io (at_io n e) = (Inr (), at_io (Suc n) e)"
  by (simp add: io_def)

lemma try_io_works: "io_works e \<Longrightarrow> tryA io (at_io n e) = (Inr (Inr ()), at_io (Suc n) e)"
  by (simp add: tryA_def io_works_run)

definition stores :: "engine \<Rightarrow> version_key \<Rightarrow> byte list \<Rightarrow> bool" where
  "stores e k data \<longleftrightarrow> valid_ids k \<and> fst k \<notin> set (en_links e) \<and> get_dir e k = Some (stored_dir k (en_chunk_size e) data) \<and>
     0 < en_chunk_size e"

lemma stores_at_io [simp]: "stores (at_io n e) k data = stores e k data"
  by (simp add: stores_def)

definition stored_entries :: "version_key \<Rightarrow> nat \<Rightarrow> byte list \<Rightarrow> (string \<times> json) list" where
  "stored_entries k cs data = [(''object_id'', JStr (fst k)), (''version_id'', JStr (snd k)),
     (''size_bytes'', JInt (int (length data))), (''chunk_size_bytes'', JInt (int cs)),
     (''chunk_count'', JInt (int (length (group cs data)))), (''checksum'', JStr (sha256 data)),
     (''chunk_checksums'', JList (map JStr (map sha256 (group cs data))))]"

lemma stored_entries_simps [simp]:
  "map_of (stored_entries k cs data) ''object_id'' = Some (JStr (fst k))"
  "map_of (stored_entries k cs data) ''version_id'' = Some (JStr (snd k))"
  "map_of (stored_entries k cs data) ''size_bytes'' = Some (JInt (int (length data)))"
  "map_of (stored_entries k cs data) ''chunk_size_bytes'' = Some (JInt (int cs))"
  "map_of (stored_entries k cs data) ''chunk_count'' = Some (JInt (int (length (group cs data))))"
  "map_of (stored_entries k cs data) ''checksum'' = Some (JStr (sha256 data))"
  "map_of (stored_entries k cs data) ''chunk_checksums'' = Some (JList (map JStr (map sha256 (group cs data))))"
  by (simp_all add: stored_entries_def)

lemma read_metadata_stored:
  assumes "stores e k data" "io_works e"
  shows "read_metadata k (at_io n e) = (Inr (stored_entries k (en_chunk_size e) data), at_io (Suc n) e)"
  using assms io_works_run [OF assms(2), of n]
  by (simp add: stores_def read_metadata_def bindA_def thenA_def catchA_def gets_def retA_def stored_dir_def stored_metadata_def
      stored_entries_def)

lemma read_chunks_run:
  assumes d: "get_dir e k = Some d" and io: "io_works e" and rs: "0 < rs"
  shows "(\<And>i. i \<in> set ids \<Longrightarrow> map_of (vd_files d) (chunk_name i) = Some (PlainFile (f i))) \<Longrightarrow>
    \<exists>m blocks. read_chunks k rs ids (at_io n e) = (Inr (blocks, None), at_io m e) \<and> concat blocks = concat (map f ids)"
proof (induction ids arbitrary: n)
  case Nil
  then show ?case by (auto simp: retA_def)
next
  case (Cons i ids)
  have chunk: "read_chunk k rs i (at_io n e) = (Inr (group rs (f i)), at_io (Suc n) e)"
    using d Cons.prems io_works_run [OF io, of n] by (simp add: read_chunk_def bindA_def thenA_def gets_def retA_def)
  obtain m blocks where "read_chunks k rs ids (at_io (Suc n) e) = (Inr (blocks, None), at_io m e)" "concat blocks = concat (map f ids)"
    using Cons.IH [of "Suc n"] Cons.prems by auto
  then show ?case using chunk rs by (simp add: bindA_def tryA_def retA_def concat_group) blast
qed

text \<open>Reading a version whose metadata gives its layout and whose chunks are plain files.\<close>

lemma iter_chunks_run:
  assumes meta: "read_metadata (ob, v) e = (Inr entries, at_io m e)" and d: "get_dir e (ob, v) = Some d"
    and n: "map_of entries ''chunk_count'' = Some (JInt (int n))" and c: "map_of entries ''chunk_size_bytes'' = Some (JInt c)" "0 < c"
    and cs: "0 < en_chunk_size e" and io: "io_works e"
    and f: "\<And>i. i < n \<Longrightarrow> map_of (vd_files d) (chunk_name i) = Some (PlainFile (f i))"
  obtains blocks l where "iter_chunks ob v e = (Inr (blocks, None), at_io l e)" "concat blocks = concat (map f [0..<n])"
proof -
  let ?rs = "min (nat c) (en_chunk_size e)"
  obtain l blocks where r: "read_chunks (ob, v) ?rs [0..<n] (at_io m e) = (Inr (blocks, None), at_io l e)"
      "concat blocks = concat (map f [0..<n])"
    using read_chunks_run [OF d io, where rs = ?rs and ids = "[0..<n]" and f = f and n = m] f c cs by auto
  have "iter_chunks ob v e = (Inr (blocks, None), at_io l e)"
    using r(1) n c by (simp add: iter_chunks_def Let_def bindA_def tryA_def meta lift_result_def int_field_def retA_def gets_def)
  then show thesis using r(2) that by blast
qed

lemma read_bytes_run:
  assumes meta: "read_metadata (ob, v) e = (Inr entries, at_io m e)" and d: "get_dir e (ob, v) = Some d"
    and n: "map_of entries ''chunk_count'' = Some (JInt (int n))" and c: "map_of entries ''chunk_size_bytes'' = Some (JInt c)" "0 < c"
    and cs: "0 < en_chunk_size e" and io: "io_works e"
    and f: "\<And>i. i < n \<Longrightarrow> map_of (vd_files d) (chunk_name i) = Some (PlainFile (f i))"
  shows "fst (read_bytes ob v e) = Inr (concat (map f [0..<n]))"
  by (rule iter_chunks_run [OF assms]) (simp_all add: read_bytes_def bindA_def retA_def)

lemma read_bytes_stored:
  assumes st: "stores e (ob, v) data" and io: "io_works e"
  shows "fst (read_bytes ob v e) = Inr data" "fst (object_size ob v e) = Inr (int (length data))"
proof -
  let ?cs = "en_chunk_size e" and ?k = "(ob, v)"
  have cs: "0 < ?cs" using st by (simp add: stores_def)
  have meta: "read_metadata ?k e = (Inr (stored_entries ?k ?cs data), at_io (Suc (en_io_pos e)) e)"
    using read_metadata_stored [OF st io, of "en_io_pos e"] by simp
  show "fst (object_size ob v e) = Inr (int (length data))"
    by (simp add: object_size_def bindA_def meta lift_result_def int_field_def retA_def)
  have "fst (read_bytes ob v e) = Inr (concat (map ((!) (group ?cs data)) [0..<length (group ?cs data)]))"
    using st cs by (intro read_bytes_run [OF meta _ _ _ _ cs io]) (auto simp: stores_def stored_dir_def map_of_chunks)
  then show "fst (read_bytes ob v e) = Inr data" using cs by (simp add: map_nth concat_group)
qed

section \<open>Verifying what was written\<close>

lemma is_sha256_digest: "is_sha256 (Some (JStr (sha256 m)))"
proof -
  have "lower_char c = c" if "c \<in> set hexdigits" for c
    using that by (auto simp: hexdigits_def lower_char_def)
  then have "lower s = s" if "set s \<subseteq> set hexdigits" for s
    using that by (auto simp: lower_def map_idI subset_iff)
  then show ?thesis using sha256_shape [of m] by (auto simp: is_sha256_def checksum_ok_def)
qed

definition stored_layout :: "nat \<Rightarrow> byte list \<Rightarrow> layout" where
  "stored_layout cs data = \<lparr>ly_errors = [], ly_size = Some (int (length data)), ly_chunk_size = Some (int cs),
     ly_count = Some (int (length (group cs data))), ly_checksum = Some (sha256 data),
     ly_chunk_checksums = map JStr (map sha256 (group cs data))\<rparr>"

lemma expected_count:
  assumes "0 < cs"
  shows "(if int (length data) = 0 then 0 else (int (length data) + int cs - 1) div int cs) = int (length (group cs data))"
proof (cases "data = []")
  case False
  then have "int (length data) + int cs - 1 = int (length data + cs - 1)" by (cases data) simp_all
  then show ?thesis using False assms by (simp add: length_group zdiv_int)
qed simp

lemma check_metadata_stored:
  assumes cs: "0 < cs" and few: "length (group cs data) \<le> MAX_VERIFY_CHUNKS"
  shows "check_metadata k (stored_entries k cs data) = stored_layout cs data"
proof -
  have sums: "check_checksums (stored_entries k cs data) = ([], map JStr (map sha256 (group cs data)))"
    using few by (auto simp: check_checksums_def filter_empty_conv is_sha256_digest)
  have fields: "metadata_int (stored_entries k cs data) ''size_bytes'' = ([], Some (int (length data)))"
    "metadata_int (stored_entries k cs data) ''chunk_size_bytes'' = ([], Some (int cs))"
    "metadata_int (stored_entries k cs data) ''chunk_count'' = ([], Some (int (length (group cs data))))"
    by (simp_all add: metadata_int_def)
  have refuse: "refuse (\<lambda>n. n < 0) i ([], Some (int (length data))) = ([], Some (int (length data)))"
    "refuse (\<lambda>n. n \<le> 0) i ([], Some (int cs)) = ([], Some (int cs))"
    "refuse (\<lambda>n. n < 0) i ([], Some (int (length (group cs data)))) = ([], Some (int (length (group cs data))))"
    "refuse (\<lambda>n. int MAX_VERIFY_CHUNKS < n) i ([], Some (int (length (group cs data)))) = ([], Some (int (length (group cs data))))" for i
    using cs few by (simp_all add: refuse_def)
  show ?thesis
    unfolding check_metadata_def Let_def sums fields snd_conv fst_conv refuse stored_entries_simps is_sha256_digest if_True option.case prod.case
      expected_count [OF cs]
    by (simp add: stored_layout_def is_sha256_digest)
qed

lemma check_entries_stored:
  assumes "set ids \<subseteq> {0..<n}" "n \<le> MAX_VERIFY_CHUNKS"
  shows "forA (check_entry (Some (int n))) (map chunk_name ids) e = (Inr (map (\<lambda>_. ([], [])) ids), e)"
  using assms
proof (induction ids)
  case (Cons i ids)
  then have "parse_chunk_index (chunk_name i) = Inr (Some i)" by (intro parse_chunk_name) auto
  then have "check_entry (Some (int n)) (chunk_name i) e = (Inr ([], []), e)"
    using Cons.prems by (simp add: check_entry_def lift_result_def retA_def bindA_def)
  then show ?case using Cons by (simp add: bindA_def retA_def)
qed (simp add: retA_def)

lemma group_nth_length:
  assumes "0 < cs" "i < length (group cs data)"
  shows "expected_chunk_size (Some (int (length data))) (Some (int cs)) (Some (int (length (group cs data)))) (int i) =
    Some (int (length (group cs data ! i)))"
  using assms
proof (induction cs data arbitrary: i rule: group.induct)
  case (1 cs data)
  then have ne: "data \<noteq> []" by auto
  have g: "group cs data = take cs data # group cs (drop cs data)" using 1(2) ne by (subst group.simps) simp
  show ?case
  proof (cases i)
    case 0
    show ?thesis
    proof (cases "group cs (drop cs data)")
      case Nil
      then have "drop cs data = []" using 1(2) concat_group [of cs "drop cs data"] by simp
      then show ?thesis using g 0 Nil ne by (simp add: expected_chunk_size_def)
    next
      case (Cons x xs)
      then have "cs < length data" using 1(2) by (metis drop_all group_Nil leI list.distinct(1))
      then show ?thesis using g 0 Cons by (simp add: expected_chunk_size_def)
    qed
  next
    case (Suc j)
    then have j: "j < length (group cs (drop cs data))" using 1(3) g by simp
    then have "cs < length data" using 1(2) by (metis drop_all group_Nil leI length_0_conv not_less_zero)
    with 1(1) [of j] 1(2) ne j Suc g show ?thesis
      by (auto simp: expected_chunk_size_def of_nat_diff algebra_simps split: if_splits)
  qed
qed

lemma check_chunks_stored:
  assumes cs: "0 < cs" and io: "io_works e"
  shows "set ids \<subseteq> {0..<length (group cs data)} \<Longrightarrow>
    \<exists>m. forA (check_chunk (stored_dir k cs data) (stored_layout cs data)) ids (at_io n e) =
      (Inr (map (\<lambda>i. ([], [], group cs data ! i)) ids), at_io m e)"
proof (induction ids arbitrary: n)
  case Nil
  then show ?case by (auto simp: retA_def)
next
  case (Cons i ids)
  have "map_of (vd_files (stored_dir k cs data)) (chunk_name i) = Some (PlainFile (group cs data ! i))"
    using Cons.prems by (simp add: stored_dir_def map_of_chunks)
  then have "check_chunk (stored_dir k cs data) (stored_layout cs data) i (at_io n e) = (Inr ([], [], group cs data ! i), at_io (Suc (Suc n)) e)"
    using Cons.prems group_nth_length [OF cs, of i data]
    by (simp add: check_chunk_def bindA_def stored_layout_def retA_def Let_def try_io_works [OF io])
  then show ?case using Cons.IH [of "Suc (Suc n)"] Cons.prems by (auto simp: bindA_def retA_def)
qed

lemma concat_nils: "concat (map (\<lambda>_. []) xs) = []"
  by (induction xs) simp_all

lemma verify_stored:
  assumes st: "stores e (ob, v) data" and io: "io_works e" and few: "length data \<le> en_chunk_size e * MAX_VERIFY_CHUNKS"
  shows "\<exists>r. fst (verify ob v e) = Inr r \<and> vr_valid r \<and> vr_checksum r = Some (sha256 data) \<and> vr_size r = length data \<and>
    vr_corrupt r = [] \<and> vr_errors r = []"
proof -
  let ?cs = "en_chunk_size e" and ?k = "(ob, v)"
  let ?g = "group ?cs data"
  have cs: "0 < ?cs" using st by (simp add: stores_def)
  have n: "length ?g \<le> MAX_VERIFY_CHUNKS"
  proof -
    have "length data + ?cs - 1 < Suc MAX_VERIFY_CHUNKS * ?cs" using few cs by (simp add: mult.commute)
    then show ?thesis using cs by (simp only: length_group less_Suc_eq_le [symmetric] div_less_iff_less_mult)
  qed
  have meta: "read_metadata ?k e = (Inr (stored_entries ?k ?cs data), at_io (Suc (en_io_pos e)) e)"
    using read_metadata_stored [OF st io, of "en_io_pos e"] by simp
  have names: "map fst (vd_files (stored_dir ?k ?cs data)) = map chunk_name [0..<length ?g]" by (simp add: stored_dir_def)
  obtain m where m: "forA (check_chunk (stored_dir ?k ?cs data) (stored_layout ?cs data)) [0..<length ?g] (at_io (Suc (Suc (en_io_pos e))) e) =
      (Inr (map (\<lambda>i. ([], [], ?g ! i)) [0..<length ?g]), at_io m e)"
    using check_chunks_stored [OF cs io, where ids = "[0..<length ?g]" and data = data and k = ?k and n = "Suc (Suc (en_io_pos e))"]
    by auto
  let ?r = "verification_summary ?k (stored_layout ?cs data) (map (\<lambda>_. ([], [])) [0..<length ?g]) (map (\<lambda>i. ([], [], ?g ! i)) [0..<length ?g])"
  have "verify_layout ?k (stored_layout ?cs data) (at_io (Suc (en_io_pos e)) e) = (Inr ?r, at_io m e)"
    using st m check_entries_stored [of "[0..<length ?g]" "length ?g", OF _ n] names
    by (simp add: verify_layout_def bindA_def gets_def stores_def retA_def stored_layout_def try_io_works [OF io])
  then have "fst (verify ob v e) = Inr ?r"
    by (simp add: verify_def Let_def bindA_def tryA_def meta check_metadata_stored [OF cs n])
  moreover have "concat (map (\<lambda>i. ?g ! i) [0..<length ?g]) = data" using cs by (simp add: map_nth concat_group)
  ultimately show ?thesis by (auto simp: verification_summary_def Let_def stored_layout_def comp_def concat_nils)
qed

section \<open>What a valid verification shows\<close>

lemma check_metadata_clean:
  assumes "ly_errors (check_metadata k entries) = []"
  obtains s c n h where "map_of entries ''size_bytes'' = Some (JInt s)" "map_of entries ''chunk_size_bytes'' = Some (JInt c)" "0 < c"
    "map_of entries ''chunk_count'' = Some (JInt (int n))" "map_of entries ''checksum'' = Some (JStr h)"
    "ly_size (check_metadata k entries) = Some s" "ly_count (check_metadata k entries) = Some (int n)"
    "ly_checksum (check_metadata k entries) = Some h" "0 \<le> s"
proof -
  have ints: "metadata_int entries key = ([], y) \<Longrightarrow> \<exists>n. map_of entries key = Some (JInt n) \<and> y = Some n" for key y
    by (auto simp: metadata_int_def split: option.splits json.splits)
  let ?size = "metadata_int entries ''size_bytes''" and ?cs = "metadata_int entries ''chunk_size_bytes''"
    and ?cc = "metadata_int entries ''chunk_count''"
  have "fst ?size = []" "fst ?cs = []" "fst ?cc = []" using assms by (simp_all add: check_metadata_def Let_def)
  then obtain s c n where f: "?size = ([], Some s)" "?cs = ([], Some c)" "?cc = ([], Some n)"
    "map_of entries ''size_bytes'' = Some (JInt s)" "map_of entries ''chunk_size_bytes'' = Some (JInt c)"
    "map_of entries ''chunk_count'' = Some (JInt n)"
    using ints by (metis prod.collapse)
  have sha: "is_sha256 (map_of entries ''checksum'')" using assms by (simp add: check_metadata_def Let_def split: if_splits)
  then obtain h where h: "map_of entries ''checksum'' = Some (JStr h)"
    by (auto simp: is_sha256_def split: option.splits json.splits)
  have ranges: "0 \<le> s" "0 < c" "0 \<le> n" "n \<le> int MAX_VERIFY_CHUNKS"
    using assms by (simp_all add: check_metadata_def Let_def f refuse_def split: if_splits)
  have ly: "ly_size (check_metadata k entries) = Some s" "ly_count (check_metadata k entries) = Some n"
    "ly_checksum (check_metadata k entries) = Some h"
    using ranges sha h by (simp_all add: check_metadata_def Let_def f refuse_def)
  show thesis by (rule that [of s c "nat n" h]) (use f h ranges ly in simp_all)
qed

lemma check_chunk_clean:
  "check_chunk d ly i s = (Inr p, t) \<Longrightarrow> fst p = [] \<Longrightarrow> map_of (vd_files d) (chunk_name i) = Some (PlainFile (snd (snd p)))"
  by (auto simp: check_chunk_def retA_def Let_def elim!: bindA_InrE split: option.splits dir_entry.splits if_splits)

lemma list_all2_nth_map: "list_all2 (\<lambda>i p. R i p) [0..<n] ps \<Longrightarrow> length ps = n \<and> (\<forall>i<n. R i (ps ! i))"
  by (auto simp: list_all2_conv_all_nth)

lemma read_metadata_InrE:
  assumes "read_metadata k e = (Inr entries, t)"
  shows "t = at_io (Suc (en_io_pos e)) e \<and> (\<exists>d. get_dir e k = Some d \<and> vd_meta d = Some (MetaFile (JObj entries)))"
  using assms
  by (auto simp: read_metadata_def bindA_def thenA_def catchA_def gets_def raiseA_def retA_def io_def
      split: if_splits option.splits meta_entry.splits json.splits)

lemma verify_layout_ran:
  assumes lay: "verify_layout k ly e = (Inr r, t)" and valid: "vr_valid r"
  obtains d s1 extra parts where "get_dir e k = Some d"
    "forA (check_chunk d ly) (case ly_count ly of Some n \<Rightarrow> [0..<nat n] | None \<Rightarrow> []) s1 = (Inr parts, t)"
    "r = verification_summary k ly extra parts"
proof -
  obtain listing :: "engine_error + unit" and s0 where s0: "(case (get_dir e k, listing) of
       (Some d, Inr _) \<Rightarrow>
         bindA (forA (check_entry (ly_count ly)) (map fst (vd_files d))) (\<lambda>extra.
         bindA (forA (check_chunk d ly) (case ly_count ly of Some n \<Rightarrow> [0..<nat n] | None \<Rightarrow> [])) (\<lambda>parts.
         retA (verification_summary k ly extra parts)))
     | _ \<Rightarrow> retA (failed_verification k (case ly_count ly of Some n \<Rightarrow> n | None \<Rightarrow> 0) (ly_errors ly @ [Cannot_Inspect]))) s0 = (Inr r, t)"
    using lay unfolding verify_layout_def by (elim bindA_InrE) (simp only: gets_def prod.inject sum.inject, blast)
  have valid_not: "r \<noteq> failed_verification k n xs" for n xs using valid by (auto simp: failed_verification_def)
  show thesis
  proof (cases "get_dir e k")
    case None
    then show thesis using s0 valid_not by (auto simp: retA_def)
  next
    case (Some d)
    show thesis
    proof (cases listing)
      case (Inl x)
      then show thesis using s0 valid_not Some by (auto simp: retA_def)
    next
      case (Inr x)
      with s0 Some have "bindA (forA (check_entry (ly_count ly)) (map fst (vd_files d))) (\<lambda>extra.
         bindA (forA (check_chunk d ly) (case ly_count ly of Some n \<Rightarrow> [0..<nat n] | None \<Rightarrow> [])) (\<lambda>parts.
         retA (verification_summary k ly extra parts))) s0 = (Inr r, t)"
        by (simp only: option.case sum.case prod.case)
      then obtain extra s1 where "bindA (forA (check_chunk d ly) (case ly_count ly of Some n \<Rightarrow> [0..<nat n] | None \<Rightarrow> [])) (\<lambda>parts.
         retA (verification_summary k ly extra parts)) s1 = (Inr r, t)"
        by (rule bindA_InrE)
      then obtain parts where "forA (check_chunk d ly) (case ly_count ly of Some n \<Rightarrow> [0..<nat n] | None \<Rightarrow> []) s1 = (Inr parts, t)"
        "r = verification_summary k ly extra parts"
        by (elim bindA_InrE) (simp add: retA_def)
      then show thesis using that Some by blast
    qed
  qed
qed

lemma verify_layout_valid:
  assumes lay: "verify_layout k ly e = (Inr r, t)" and valid: "vr_valid r" and n: "ly_count ly = Some (int n)"
    and h: "ly_checksum ly = Some h" and s: "ly_size ly = Some s"
  obtains d ps where "get_dir e k = Some d" "ly_errors ly = []" "length ps = n"
    "\<And>i. i < n \<Longrightarrow> map_of (vd_files d) (chunk_name i) = Some (PlainFile (ps ! i))"
    "sha256 (concat ps) = h" "vr_checksum r = Some h" "vr_size r = length (concat ps)" "s = int (length (concat ps))"
proof -
  obtain d s1 extra parts where d: "get_dir e k = Some d"
    and parts: "forA (check_chunk d ly) [0..<n] s1 = (Inr parts, t)"
    and r: "r = verification_summary k ly extra parts"
    by (rule verify_layout_ran [OF lay valid]) (use n in simp)
  have none: "ly_errors ly = []" "concat (map fst parts) = []" "sha256 (concat (map (\<lambda>p. snd (snd p)) parts)) = h"
    "s = int (length (concat (map (\<lambda>p. snd (snd p)) parts)))"
    using valid unfolding r verification_summary_def Let_def by (simp_all add: h s split: if_splits)
  have "list_all2 (\<lambda>i p. fst p = [] \<longrightarrow> map_of (vd_files d) (chunk_name i) = Some (PlainFile (snd (snd p)))) [0..<n] parts"
    by (rule conjunct2 [OF forA_induct_ok [OF parts, where I = "\<lambda>_. True"]]) (auto dest: check_chunk_clean)
  then have "length parts = n \<and> (\<forall>i<n. fst (parts ! i) = [] \<longrightarrow> map_of (vd_files d) (chunk_name i) = Some (PlainFile (snd (snd (parts ! i)))))"
    by (rule list_all2_nth_map)
  moreover have "\<forall>p\<in>set parts. fst p = []" using none(2) by auto
  ultimately show thesis using d none r
    by (intro that [where d = d and ps = "map (\<lambda>p. snd (snd p)) parts"])
      (auto simp: verification_summary_def Let_def)
qed

text \<open>
  A version whose bytes can be read back as its metadata says. It depends on the directory of the
  version only, so what does not touch the directory keeps it.
\<close>

definition intact :: "engine \<Rightarrow> version_key \<Rightarrow> byte list \<Rightarrow> bool" where
  "intact e k data \<longleftrightarrow> valid_ids k \<and> fst k \<notin> set (en_links e) \<and>
     (\<exists>d entries c ps. get_dir e k = Some d \<and> \<not> vd_link d \<and> vd_meta d = Some (MetaFile (JObj entries)) \<and>
       map_of entries ''size_bytes'' = Some (JInt (int (length data))) \<and> map_of entries ''chunk_size_bytes'' = Some (JInt c) \<and> 0 < c \<and>
       map_of entries ''chunk_count'' = Some (JInt (int (length ps))) \<and> map_of entries ''checksum'' = Some (JStr (sha256 data)) \<and>
       (\<forall>i<length ps. map_of (vd_files d) (chunk_name i) = Some (PlainFile (ps ! i))) \<and> concat ps = data)"

lemma intact_cong: "get_dir t k = get_dir e k \<Longrightarrow> en_links t = en_links e \<Longrightarrow> intact t k data = intact e k data"
  by (simp add: intact_def)

lemma verify_valid_intact:
  assumes run: "verify ob v e = (Inr r, t)" and valid: "vr_valid r"
  shows "\<exists>data. intact e (ob, v) data \<and> vr_checksum r = Some (sha256 data) \<and> vr_size r = length data"
proof -
  let ?k = "(ob, v)"
  obtain entries s1 where m1: "read_metadata ?k e = (Inr entries, s1)"
    and lay: "verify_layout ?k (check_metadata ?k entries) s1 = (Inr r, t)"
    using run valid by (auto simp: verify_def Let_def tryA_def retA_def raiseA_def failed_verification_def
        split: prod.splits sum.splits engine_error.splits elim!: bindA_InrE)
  obtain d where d: "s1 = at_io (Suc (en_io_pos e)) e" "get_dir e ?k = Some d" "vd_meta d = Some (MetaFile (JObj entries))"
    using read_metadata_InrE [OF m1] by blast
  have ids: "valid_ids ?k" "fst ?k \<notin> set (en_links e)" "\<not> vd_link d"
    using m1 d(2) by (auto simp: read_metadata_def bindA_def gets_def raiseA_def split: if_splits)
  have "ly_errors (check_metadata ?k entries) = []"
    by (rule verify_layout_ran [OF lay valid]) (use valid in \<open>auto simp: verification_summary_def Let_def\<close>)
  then obtain s c n h where ly: "map_of entries ''size_bytes'' = Some (JInt s)" "map_of entries ''chunk_size_bytes'' = Some (JInt c)" "0 < c"
    "map_of entries ''chunk_count'' = Some (JInt (int n))" "map_of entries ''checksum'' = Some (JStr h)"
    "ly_size (check_metadata ?k entries) = Some s" "ly_count (check_metadata ?k entries) = Some (int n)"
    "ly_checksum (check_metadata ?k entries) = Some h"
    by (rule check_metadata_clean)
  obtain d' ps where ps: "get_dir s1 ?k = Some d'" "length ps = n"
    "\<And>i. i < n \<Longrightarrow> map_of (vd_files d') (chunk_name i) = Some (PlainFile (ps ! i))"
    "sha256 (concat ps) = h" "vr_checksum r = Some h" "vr_size r = length (concat ps)" "s = int (length (concat ps))"
    using verify_layout_valid [OF lay valid ly(7,8,6)] by metis
  have "d' = d" using ps(1) d(1,2) by simp
  then have "intact e ?k (concat ps)"
    unfolding intact_def using ids d(2,3) ly(1-5) ps
    by (intro conjI exI [of _ d] exI [of _ entries] exI [of _ c] exI [of _ ps]) simp_all
  then show ?thesis using ps(4-6) by blast
qed

lemma intact_metadata:
  assumes "intact e (ob, v) data" "io_works e"
  obtains d entries c ps where "read_metadata (ob, v) e = (Inr entries, at_io (Suc (en_io_pos e)) e)" "get_dir e (ob, v) = Some d"
    "map_of entries ''size_bytes'' = Some (JInt (int (length data)))" "map_of entries ''chunk_size_bytes'' = Some (JInt c)" "0 < c"
    "map_of entries ''chunk_count'' = Some (JInt (int (length ps)))" "map_of entries ''checksum'' = Some (JStr (sha256 data))"
    "\<And>i. i < length ps \<Longrightarrow> map_of (vd_files d) (chunk_name i) = Some (PlainFile (ps ! i))" "concat ps = data"
    "vd_meta d = Some (MetaFile (JObj entries))"
proof -
  obtain d entries c ps where d: "valid_ids (ob, v)" "ob \<notin> set (en_links e)" "get_dir e (ob, v) = Some d" "\<not> vd_link d"
    "vd_meta d = Some (MetaFile (JObj entries))"
    "map_of entries ''size_bytes'' = Some (JInt (int (length data)))" "map_of entries ''chunk_size_bytes'' = Some (JInt c)" "0 < c"
    "map_of entries ''chunk_count'' = Some (JInt (int (length ps)))" "map_of entries ''checksum'' = Some (JStr (sha256 data))"
    "\<forall>i<length ps. map_of (vd_files d) (chunk_name i) = Some (PlainFile (ps ! i))" "concat ps = data"
    using assms(1) unfolding intact_def by auto
  have "read_metadata (ob, v) e = (Inr entries, at_io (Suc (en_io_pos e)) e)"
    using d(1-5) assms(2) by (simp add: read_metadata_def bindA_def thenA_def catchA_def gets_def retA_def io_def)
  then show thesis using that d by blast
qed

lemma intact_reads:
  assumes ok: "intact e (ob, v) data" "io_works e" and cs: "0 < en_chunk_size e"
  shows "object_size ob v e = (Inr (int (length data)), at_io (Suc (en_io_pos e)) e)"
    "\<exists>blocks l. iter_chunks ob v e = (Inr (blocks, None), at_io l e) \<and> concat blocks = data"
    "fst (read_bytes ob v e) = Inr data"
proof -
  obtain d entries c ps where d: "read_metadata (ob, v) e = (Inr entries, at_io (Suc (en_io_pos e)) e)" "get_dir e (ob, v) = Some d"
    "map_of entries ''size_bytes'' = Some (JInt (int (length data)))" "map_of entries ''chunk_size_bytes'' = Some (JInt c)" "0 < c"
    "map_of entries ''chunk_count'' = Some (JInt (int (length ps)))"
    "\<And>i. i < length ps \<Longrightarrow> map_of (vd_files d) (chunk_name i) = Some (PlainFile (ps ! i))" "concat ps = data"
    using intact_metadata [OF ok] by metis
  show "object_size ob v e = (Inr (int (length data)), at_io (Suc (en_io_pos e)) e)"
    by (simp add: object_size_def bindA_def d(1,3) lift_result_def int_field_def retA_def)
  obtain blocks l where it: "iter_chunks ob v e = (Inr (blocks, None), at_io l e)" "concat blocks = concat (map ((!) ps) [0..<length ps])"
    by (rule iter_chunks_run [OF d(1,2,6,4,5) cs ok(2), where f = "(!) ps"]) (use d(7) in simp_all)
  then show "\<exists>blocks l. iter_chunks ob v e = (Inr (blocks, None), at_io l e) \<and> concat blocks = data"
    using d(8) by (simp add: map_nth) blast
  show "fst (read_bytes ob v e) = Inr data"
    using it d(8) by (simp add: map_nth read_bytes_def bindA_def retA_def)
qed

lemma verify_valid_reads:
  assumes run: "fst (verify ob v e) = Inr r" and valid: "vr_valid r" and io: "io_works e" and cs: "0 < en_chunk_size e"
  shows "\<exists>data. fst (read_bytes ob v e) = Inr data \<and> vr_checksum r = Some (sha256 data) \<and> vr_size r = length data \<and>
    fst (object_size ob v e) = Inr (int (length data)) \<and>
    (\<exists>d entries. get_dir e (ob, v) = Some d \<and> vd_meta d = Some (MetaFile (JObj entries)) \<and>
      map_of entries ''checksum'' = Some (JStr (sha256 data)))"
proof -
  obtain data where data: "intact e (ob, v) data" "vr_checksum r = Some (sha256 data)" "vr_size r = length data"
    using verify_valid_intact [of ob v e r] run valid by (metis prod.collapse)
  moreover have "\<exists>d entries. get_dir e (ob, v) = Some d \<and> vd_meta d = Some (MetaFile (JObj entries)) \<and>
      map_of entries ''checksum'' = Some (JStr (sha256 data))"
    by (rule intact_metadata [OF data(1) io]) blast
  ultimately show ?thesis using intact_reads [OF data(1) io cs] by simp
qed

section \<open>Writes that fail and writes that complete\<close>

lemma drop_restores:
  assumes ok: "engine_ok e" and s: "engine_ok s" "get_upload s k = Some u" "\<not> up_published u" "remove_by up_key k (en_uploads s) = en_uploads e"
    and t: "t = drop_upload k (s\<lparr>en_io_pos := n, en_reserved := max (en_reserved s - int (up_reserved u)) 0\<rparr>)"
  shows "engine_ok t" "en_uploads t = en_uploads e" "en_reserved t = en_reserved e" "en_inflight t = en_inflight e"
proof -
  show okt: "engine_ok t"
    using drop_ok [of "at_io n s" k u] s by (simp add: t unaccounted_def)
  show u: "en_uploads t = en_uploads e" using s(4) by (simp add: t drop_upload_def)
  show "en_reserved t = en_reserved e" "en_inflight t = en_inflight e"
    using okt ok u by (simp_all add: engine_ok_def)
qed

lemma working_same_store:
  assumes "working k e s" "same_store s t"
  shows "working k e t"
proof -
  obtain p q where "t = s\<lparr>en_io_pos := p, en_disk_pos := q\<rparr>" using assms(2) by (auto simp: same_store_def)
  then show ?thesis using assms(1) by (simp add: working_def)
qed

lemma finish_account_returns:
  assumes w: "working k e s" and run: "thenA (finish_upload k) (account_upload k) s = (r, t)"
  shows "isl r \<Longrightarrow> working k e t" "\<not> isl r \<Longrightarrow> get_upload t k = None"
proof -
  obtain u where u: "get_upload s k = Some u" "\<not> up_published u" "up_key u = k" "engine_ok s"
    using w lookup_by_SomeD(2) by (fastforce simp: working_def)
  obtain rf s2 where f: "finish_upload k s = (rf, s2)" by (cases "finish_upload k s")
  note fr = finish_run [OF u(4,1) f]
  show "isl r \<Longrightarrow> working k e t" "\<not> isl r \<Longrightarrow> get_upload t k = None"
  proof -
    have "(isl r \<longrightarrow> working k e t) \<and> (\<not> isl r \<longrightarrow> get_upload t k = None)"
    proof (cases "isl rf")
      case True
      then show ?thesis using run f fr(1) working_same_store [OF w] by (cases rf) (auto simp: thenA_def bindA_def)
    next
      case False
      have "get_upload s2 k = Some ((close_chunk u)\<lparr>up_published := True\<rparr>)"
        using u by (subst conjunct2 [OF fr(2) [OF False]]) simp
      then show ?thesis using run f False account_run [where e = s2 and k = k]
        by (cases rf) (auto simp: thenA_def bindA_def drop_upload_def table_simps)
    qed
    then show "isl r \<Longrightarrow> working k e t" "\<not> isl r \<Longrightarrow> get_upload t k = None" by auto
  qed
qed

definition write_body :: "bool \<Rightarrow> version_key \<Rightarrow> payload \<Rightarrow> nat eng" where
  "write_body buffered k p = thenA (forA (receive buffered k) (chunks p))
     (thenA (case abort p of None \<Rightarrow> retA () | Some x \<Rightarrow> raiseA (StreamError x))
     (thenA (finish_upload k) (account_upload k)))"

lemma write_body_run:
  assumes w: "working k e e" and run: "write_body buffered k p e = (r, t)"
  shows "isl r \<Longrightarrow> working k e t" "\<not> isl r \<Longrightarrow> get_upload t k = None"
proof -
  obtain u where u: "get_upload e k = Some u" using w by (auto simp: working_def)
  obtain rr s where s: "forA (receive buffered k) (chunks p) e = (rr, s)" by (cases "forA (receive buffered k) (chunks p) e")
  have ws: "working k e s" using receives_run [OF w u s] by blast
  note fin = finish_account_returns [OF ws]
  show "isl r \<Longrightarrow> working k e t" "\<not> isl r \<Longrightarrow> get_upload t k = None"
    using run s ws fin
    by (auto simp: write_body_def thenA_def [of "forA _ _"] thenA_def [of "case_option _ _ _"] bindA_def retA_def raiseA_def
        split: sum.splits option.splits)
qed

lemma write_with_body: "write_with buffered k p = thenA (begin_upload k) (finallyA (write_body buffered k p) (cleanup_upload k))"
  by (simp add: write_with_def write_body_def)

lemma write_fails:
  assumes ok: "engine_ok e" and run: "write_with buffered k p e = (Inl x, t)"
  shows "engine_ok t \<and> en_dirs t = en_dirs e \<and> en_used t = en_used e \<and>
    (io_works e \<longrightarrow> en_uploads t = en_uploads e \<and> en_reserved t = en_reserved e \<and> en_inflight t = en_inflight e)"
proof (cases "begin_upload k e")
  case (Pair r e1)
  show ?thesis
  proof (cases r)
    case (Inl y)
    then have "same_store e t" using run Pair begin_run(1) [OF Pair] by (auto simp: write_with_def thenA_def bindA_def)
    then obtain p q where "t = e\<lparr>en_io_pos := p, en_disk_pos := q\<rparr>" by (auto simp: same_store_def)
    then show ?thesis using ok by simp
  next
    case (Inr y)
    have b: "begin_upload k e = (Inr (), e1)" using Pair Inr by simp
    note b1 = begin_run(2) [OF b, simplified] and bw = begin_working [OF ok b]
    obtain rb s where body: "write_body buffered k p e1 = (rb, s)" by (cases "write_body buffered k p e1")
    have fin: "finallyA (write_body buffered k p) (cleanup_upload k) e1 = (Inl x, t)"
      using run b by (simp add: write_with_body thenA_def bindA_def)
    have "isl rb"
    proof (rule ccontr)
      assume "\<not> isl rb"
      then have "cleanup_upload k s = (Inr (), s)"
        using write_body_run(2) [OF bw(1) body] by (simp add: cleanup_upload_def bindA_def gets_def retA_def)
      then show False using fin body \<open>\<not> isl rb\<close> by (cases rb) (auto simp: finallyA_def)
    qed
    then have w: "working k e1 s" using write_body_run(1) [OF bw(1) body] by simp
    obtain u where u: "get_upload s k = Some u" "\<not> up_published u" using w by (auto simp: working_def)
    note c = cleanup_run [OF u] and w' = w [unfolded working_def]
    have rest: "remove_by up_key k (en_uploads s) = en_uploads e" "en_dirs s = en_dirs e" "en_used s = en_used e" "en_io s = en_io e" "engine_ok s"
      using w' bw(3) b1 by auto
    show ?thesis
    proof (cases "en_io s (en_io_pos s)")
      case True
      then have t: "t = drop_upload k (s\<lparr>en_io_pos := Suc (en_io_pos s), en_reserved := max (en_reserved s - int (up_reserved u)) 0\<rparr>)"
        using fin body c \<open>isl rb\<close> by (cases rb) (auto simp: finallyA_def)
      show ?thesis using drop_restores [OF ok rest(5) u rest(1) t] rest t by (simp add: drop_upload_def)
    next
      case False
      then have t: "t = at_io (Suc (en_io_pos s)) s" using fin body c \<open>isl rb\<close> by (cases rb) (auto simp: finallyA_def)
      show ?thesis using t rest False by auto
    qed
  qed
qed

text \<open>Operations that only touch the upload's own files succeed when the file system does.\<close>

definition unfailing :: "'a eng \<Rightarrow> bool" where
  "unfailing m \<longleftrightarrow> (\<forall>s. io_works s \<longrightarrow> \<not> isl (fst (m s)) \<and> io_works (snd (m s)) \<and> en_reserved (snd (m s)) = en_reserved s)"

lemma unfailing_basic:
  "unfailing io" "unfailing (gets f)" "unfailing (retA x)" "unfailing (upd_upload k g)"
  by (simp_all add: unfailing_def io_def gets_def retA_def upd_upload_def change_def)

lemma unfailing_bind: "unfailing m \<Longrightarrow> (\<And>x. unfailing (f x)) \<Longrightarrow> unfailing (bindA m f)"
  by (fastforce simp: unfailing_def bindA_def split: prod.splits sum.splits)

lemma unfailing_compound:
  "unfailing m \<Longrightarrow> unfailing n' \<Longrightarrow> unfailing (thenA m n')"
  "unfailing m' \<Longrightarrow> unfailing n \<Longrightarrow> unfailing (if b then m' else n)"
  "unfailing n \<Longrightarrow> (\<And>y. unfailing (h y)) \<Longrightarrow> unfailing (case z of None \<Rightarrow> n | Some y \<Rightarrow> h y)"
  by (simp_all add: thenA_def unfailing_bind split: option.split)

lemmas unfailing_rules = unfailing_basic unfailing_bind unfailing_compound

lemma unfailing_forA: "(\<And>x. unfailing (f x)) \<Longrightarrow> unfailing (forA f xs)"
  by (induction xs) (auto intro!: unfailing_rules)

lemma unfailing_write_piece: "unfailing (write_piece buffered k p)"
  unfolding write_piece_def by (intro unfailing_rules)

lemma receive_completes:
  assumes w: "working k e s" and io: "io_works s" and room: "int (length bs) \<le> min (logical_free s) (en_disk_free s (en_disk_pos s))"
  obtains t where "receive buffered k bs s = (Inr (), t)" "en_reserved t = en_reserved s + int (length bs)"
proof (cases "bs = []")
  case True
  then show thesis using that [of s] by (simp add: receive_def retA_def)
next
  case False
  obtain u where u: "get_upload s k = Some u" using w by (auto simp: working_def)
  obtain e1 where e1: "thenA (reserve_capacity (length bs)) (upd_upload k (\<lambda>u. u\<lparr>up_reserved := up_reserved u + length bs\<rparr>)) s = (Inr (), e1)"
    "en_reserved e1 = en_reserved s + int (length bs)" "io_works e1"
    using reserve_run(1) [OF w u room] io by force
  let ?rest = "bindA (gets (\<lambda>e. case get_upload e k of None \<Rightarrow> [] | Some u \<Rightarrow> pieces (en_chunk_size e) (filled_bytes u) bs))
          (\<lambda>ps. thenA (forA (write_piece buffered k) ps) (retA ()))"
  have "unfailing ?rest" by (intro unfailing_rules unfailing_forA unfailing_write_piece)
  then obtain t where t: "?rest e1 = (Inr (), t)" "en_reserved t = en_reserved e1"
    using e1(3) unfolding unfailing_def by (cases "?rest e1"; cases "fst (?rest e1)") auto
  have "receive buffered k bs = thenA (thenA (reserve_capacity (length bs))
        (upd_upload k (\<lambda>u. u\<lparr>up_reserved := up_reserved u + length bs\<rparr>))) ?rest"
    using False by (simp add: receive_def thenA_def bindA_assoc)
  then show thesis using that [of t] e1 t by (simp add: thenA_def [of "thenA _ _"] bindA_def [of "thenA _ _"])
qed

lemma receives_complete:
  assumes "working k e s" "io_works s"
    "int (length (concat bss)) \<le> logical_free s" "\<forall>i. int (length (concat bss)) \<le> en_disk_free s i"
  shows "\<exists>y t. forA (receive buffered k) bss s = (Inr y, t) \<and> working k e t"
  using assms
proof (induction bss arbitrary: s)
  case Nil
  then show ?case by (auto simp: retA_def)
next
  case (Cons bs bss)
  have room: "int (length bs) \<le> logical_free s" "int (length bs) \<le> en_disk_free s (en_disk_pos s)"
    using Cons.prems(3) spec [OF Cons.prems(4), of "en_disk_pos s"] by simp_all
  obtain t where t: "receive buffered k bs s = (Inr (), t)" "en_reserved t = en_reserved s + int (length bs)"
    by (rule receive_completes [OF Cons.prems(1,2), of bs]) (use room in simp)
  obtain u where u: "get_upload s k = Some u" using Cons.prems(1) by (auto simp: working_def)
  have w: "working k e t" using receive_run [OF Cons.prems(1) u t(1)] by blast
  have same: "en_io t = en_io s" "en_disk_free t = en_disk_free s" "en_capacity t = en_capacity s" "en_used t = en_used s"
    using w Cons.prems(1) by (simp_all add: working_def)
  have "int (length (concat bss)) \<le> logical_free t"
    using Cons.prems(3) t(2) same by (simp add: logical_free_def del: length_concat)
  moreover have "\<forall>i. int (length (concat bss)) \<le> en_disk_free t i"
  proof
    show "int (length (concat bss)) \<le> en_disk_free t i" for i using spec [OF Cons.prems(4), of i] same by simp
  qed
  ultimately obtain y t' where "forA (receive buffered k) bss t = (Inr y, t')" "working k e t'"
    using Cons.IH [OF w] Cons.prems(2) same by auto
  then show ?case using t by (simp add: bindA_def retA_def)
qed

lemma write_completes:
  assumes ok: "engine_ok e" and io: "io_works e" and ab: "abort p = None"
    and k: "valid_ids k" "fst k \<notin> set (en_links e)" "get_dir e k = None" "k \<notin> set (en_inflight e)"
    and room: "int (length (concat (chunks p))) \<le> logical_free e" "\<forall>i. int (length (concat (chunks p))) \<le> en_disk_free e i"
  shows "\<exists>n t. write_with buffered k p e = (Inr n, t)"
proof -
  obtain e1 where b: "begin_upload k e = (Inr (), e1)"
    using io k by (auto simp: begin_upload_def bindA_def thenA_def gets_def io_def change_def exists_version_def)
  note b1 = begin_run(2) [OF b, simplified] and w1 = begin_working(1) [OF ok b]
  obtain y s where s: "forA (receive buffered k) (chunks p) e1 = (Inr y, s)" "working k e1 s"
  proof -
    have "io_works e1" "logical_free e1 = logical_free e" "en_disk_free e1 = en_disk_free e"
      using b1 io by (simp_all add: logical_free_def)
    then show thesis using receives_complete [OF w1, where bss = "chunks p" and buffered = buffered] room that by auto
  qed
  obtain u where u: "get_upload s k = Some u" "\<not> up_published u" "engine_ok s" using s(2) by (auto simp: working_def)
  have free: "io_works s" "get_dir s k = None" using s(2) b1 io k(3) by (auto simp: working_def)
  obtain s2 where f: "finish_upload k s = (Inr (), s2)"
    using u(1) free by (cases "up_open u") (auto simp: finish_upload_def bindA_def thenA_def gets_def retA_def io_def change_def)
  have "get_upload s2 k = Some ((close_chunk u)\<lparr>up_published := True\<rparr>)"
    using u(1) lookup_by_SomeD(2) [OF u(1)] by (subst conjunct2 [OF finish_run(2) [OF u(3,1) f, simplified]]) simp
  note a = account_run [OF this]
  obtain n t where body: "write_body buffered k p e1 = (Inr n, t)"
    using s(1) ab f a by (simp add: write_body_def thenA_def bindA_def retA_def)
  then have "cleanup_upload k t = (Inr (), t)"
    using write_body_run(2) [OF w1 body] by (simp add: cleanup_upload_def bindA_def gets_def retA_def)
  then show ?thesis using b body by (auto simp: write_with_body thenA_def bindA_def finallyA_def)
qed

end
