(* ===== verification/Engine_Spec.thy ===== *)
theory Engine_Spec
  imports Engine_Layout
begin

text \<open>
  What the storage engine promises. \<open>keyed_store\<close> is the contract of a write-once store: a
  successful write adds a key that had no content, a failed one changes nothing, a deletion
  removes at most its own key. The engine meets it with \<open>content\<close> as its abstraction, and the
  lemmas of the contract give the behaviour of any sequence of requests. The properties of the
  engine follow: the round trip, completion, failure, capacity and verification.
\<close>

section \<open>The contract of a write-once store\<close>

datatype ('k, 'p) request = Put 'k 'p | Del 'k

locale keyed_store =
  fixes ok :: "'s \<Rightarrow> bool"
    and content :: "'s \<Rightarrow> 'k \<Rightarrow> 'd option"
    and put :: "'k \<Rightarrow> 'p \<Rightarrow> ('e, 's, 'r) action"
    and data :: "'p \<Rightarrow> 'd"
    and del :: "'k \<Rightarrow> ('e, 's, unit) action"
  assumes put_stores: "ok s \<Longrightarrow> put k p s = (Inr r, t) \<Longrightarrow> ok t \<and> content s k = None \<and> content t = (content s)(k \<mapsto> data p)"
    and put_fails: "ok s \<Longrightarrow> put k p s = (Inl x, t) \<Longrightarrow> ok t \<and> content t = content s"
    and del_removes: "ok s \<Longrightarrow> del k s = (Inr u, t) \<Longrightarrow> ok t \<and> content t = (content s)(k := None)"
    and del_fails: "ok s \<Longrightarrow> del k s = (Inl x, t) \<Longrightarrow> ok t \<and> (content t = content s \<or> content t = (content s)(k := None))"
begin

lemma put_effect:
  assumes "ok s"
  shows "ok (snd (put k p s))"
    "content (snd (put k p s)) = content s \<or> content s k = None \<and> content (snd (put k p s)) = (content s)(k \<mapsto> data p)"
proof -
  obtain r t where run: "put k p s = (r, t)" by (cases "put k p s")
  have "ok t \<and> (content t = content s \<or> content s k = None \<and> content t = (content s)(k \<mapsto> data p))"
  proof (cases r)
    case (Inl x)
    then show ?thesis using put_fails [OF assms] run by simp
  next
    case (Inr x)
    then show ?thesis using put_stores [OF assms] run by simp
  qed
  then show "ok (snd (put k p s))"
    "content (snd (put k p s)) = content s \<or> content s k = None \<and> content (snd (put k p s)) = (content s)(k \<mapsto> data p)"
    using run by simp_all
qed

lemma del_effect:
  assumes "ok s"
  shows "ok (snd (del k s))" "content (snd (del k s)) = content s \<or> content (snd (del k s)) = (content s)(k := None)"
proof -
  obtain r t where run: "del k s = (r, t)" by (cases "del k s")
  have "ok t \<and> (content t = content s \<or> content t = (content s)(k := None))"
  proof (cases r)
    case (Inl x)
    then show ?thesis using del_fails [OF assms] run by simp
  next
    case (Inr x)
    then show ?thesis using del_removes [OF assms] run by simp
  qed
  then show "ok (snd (del k s))" "content (snd (del k s)) = content s \<or> content (snd (del k s)) = (content s)(k := None)"
    using run by simp_all
qed

primrec serve :: "('k, 'p) request \<Rightarrow> 's \<Rightarrow> 's" where
  "serve (Put k p) s = snd (put k p s)"
| "serve (Del k) s = snd (del k s)"

lemma serve_ok: "ok s \<Longrightarrow> ok (serve q s)"
  by (cases q) (simp_all add: put_effect del_effect)

lemma serve_content:
  assumes "ok s"
  shows "content (serve q s) k = content s k \<or> content (serve q s) k = None \<or> (\<exists>p. q = Put k p \<and> content (serve q s) k = Some (data p))"
proof (cases q)
  case (Put k' p)
  then show ?thesis using put_effect(2) [OF assms, of k' p] by (auto split: if_splits)
next
  case (Del k')
  then show ?thesis using del_effect(2) [OF assms, of k'] by (auto split: if_splits)
qed

lemma serve_keeps:
  assumes "ok s" "content s k = Some d" "q \<noteq> Del k"
  shows "content (serve q s) k = Some d"
proof (cases q)
  case (Put k' p)
  then show ?thesis using put_effect(2) [OF assms(1), of k' p] assms(2) by auto
next
  case (Del k')
  then show ?thesis using del_effect(2) [OF assms(1), of k'] assms(2,3) by auto
qed

definition serves :: "('k, 'p) request list \<Rightarrow> 's \<Rightarrow> 's" where
  "serves qs s = foldl (\<lambda>s q. serve q s) s qs"

lemma serves_ok: "ok s \<Longrightarrow> ok (serves qs s)"
  by (induction qs arbitrary: s) (simp_all add: serves_def serve_ok)

text \<open>No content out of thin air.\<close>

lemma serves_content:
  "ok s \<Longrightarrow> content (serves qs s) k = Some d \<Longrightarrow> content s k = Some d \<or> (\<exists>p. Put k p \<in> set qs \<and> data p = d)"
proof (induction qs arbitrary: s)
  case (Cons q qs)
  then have "content (serve q s) k = Some d \<or> (\<exists>p. Put k p \<in> set qs \<and> data p = d)"
    by (simp add: serves_def serve_ok)
  then show ?case using serve_content [OF Cons.prems(1), of q k] by auto
qed (simp add: serves_def)

text \<open>Content is written once: it stays until its key is deleted.\<close>

lemma serves_keeps:
  "ok s \<Longrightarrow> content s k = Some d \<Longrightarrow> Del k \<notin> set qs \<Longrightarrow> content (serves qs s) k = Some d"
proof (induction qs arbitrary: s)
  case (Cons q qs)
  have "content (serve q s) k = Some d" using serve_keeps [OF Cons.prems(1,2), of q] Cons.prems(3) by auto
  then show ?case using Cons by (simp add: serves_def serve_ok)
qed (simp add: serves_def)

end

section \<open>The engine meets the contract\<close>

definition payload_data :: "version_dir \<Rightarrow> byte list" where
  "payload_data d = concat (map (\<lambda>f. case snd f of PlainFile bs \<Rightarrow> bs | _ \<Rightarrow> []) (vd_files d))"

definition content :: "engine \<Rightarrow> version_key \<Rightarrow> byte list option" where
  "content e k = (case get_dir e k of None \<Rightarrow> None
     | Some d \<Rightarrow> if d = stored_dir k (en_chunk_size e) (payload_data d) then Some (payload_data d) else None)"

lemma payload_data_stored: "0 < cs \<Longrightarrow> payload_data (stored_dir k cs bs) = bs"
  by (simp add: payload_data_def stored_dir_def comp_def map_nth concat_group)

lemma content_iff: "0 < en_chunk_size e \<Longrightarrow> content e k = Some bs \<longleftrightarrow> get_dir e k = Some (stored_dir k (en_chunk_size e) bs)"
  by (auto simp: content_def payload_data_stored split: option.splits)

lemma content_cong: "en_dirs t = en_dirs s \<Longrightarrow> en_chunk_size t = en_chunk_size s \<Longrightarrow> content t = content s"
  by (rule ext) (simp add: content_def cong: option.case_cong)

lemma content_write:
  assumes ok: "engine_ok e" and run: "write_with buffered k p e = (Inr n, t)"
  shows "engine_ok t \<and> content e k = None \<and> content t = (content e)(k \<mapsto> concat (chunks p))"
proof -
  note w = write_run [OF ok run]
  have cs: "0 < en_chunk_size e" using ok by (simp add: engine_ok_def)
  have key: "vd_key (stored_dir k (en_chunk_size e) bs) = k" for bs by (simp add: stored_dir_def)
  have "content t k' = ((content e)(k \<mapsto> concat (chunks p))) k'" for k'
  proof (cases "k' = k")
    case True
    then show ?thesis using w cs key by (simp add: content_iff)
  next
    case False
    then show ?thesis using w key by (simp add: content_def cong: option.case_cong)
  qed
  then show ?thesis using w by (auto simp: content_def)
qed

text \<open>
  In a run that starts without versions every directory is what a write left, less what an
  interrupted removal took away.
\<close>

definition tidy :: "engine \<Rightarrow> bool" where
  "tidy e \<longleftrightarrow> engine_ok e \<and>
     (\<forall>d\<in>set (en_dirs e). \<exists>left bs. d = partly_removed left (stored_dir (vd_key d) (en_chunk_size e) bs))"

lemma partly_removed_twice: "partly_removed l (partly_removed l' d) = partly_removed (\<lambda>x. l' x \<and> l x) d"
  by (simp add: partly_removed_def)

lemma partly_removed_all: "partly_removed (\<lambda>_. True) d = d"
  by (simp add: partly_removed_def)

lemma partly_removed_key [simp]: "vd_key (partly_removed left d) = vd_key d" "vd_key (stored_dir k cs bs) = k"
  by (simp_all add: partly_removed_def stored_dir_def)

text \<open>A part of a stored version is a stored version only when nothing is missing.\<close>

lemma partly_stored:
  assumes "partly_removed left (stored_dir k cs bs) = stored_dir k cs bs'"
  shows "partly_removed left (stored_dir k cs bs) = stored_dir k cs bs"
proof -
  let ?fs = "vd_files (stored_dir k cs bs)"
  have meta: "left ''metadata.json''" "stored_metadata k cs bs = stored_metadata k cs bs'"
    using arg_cong [OF assms, of vd_meta] by (auto simp: partly_removed_def stored_dir_def split: if_splits)
  then have "length (group cs bs) = length (group cs bs')" by (simp add: stored_metadata_def)
  moreover have "filter (\<lambda>f. left (fst f)) ?fs = vd_files (stored_dir k cs bs')"
    using arg_cong [OF assms, of vd_files] by (simp add: partly_removed_def)
  then have "length (filter (\<lambda>f. left (fst f)) ?fs) = length (vd_files (stored_dir k cs bs'))" by simp
  ultimately have "length (filter (\<lambda>f. left (fst f)) ?fs) = length ?fs" by (simp add: stored_dir_def)
  then have "filter (\<lambda>f. left (fst f)) ?fs = ?fs" by (metis filter_True length_filter_less less_irrefl)
  then show ?thesis using meta(1) by (simp add: partly_removed_def)
qed

lemma partly_stored_twice:
  assumes "partly_removed l (partly_removed l' (stored_dir k cs bs)) = stored_dir k cs bs'"
  shows "partly_removed l' (stored_dir k cs bs) = partly_removed l (partly_removed l' (stored_dir k cs bs))"
proof -
  let ?S = "stored_dir k cs bs"
  have whole: "partly_removed (\<lambda>x. l' x \<and> l x) ?S = ?S"
    using partly_stored assms by (simp add: partly_removed_twice)
  then have both: "partly_removed l (partly_removed l' ?S) = ?S" by (simp only: partly_removed_twice)
  have "l' ''metadata.json''" "\<forall>f\<in>set (vd_files ?S). l' (fst f)"
  proof -
    show "l' ''metadata.json''" using arg_cong [OF whole, of vd_meta] by (auto simp: partly_removed_def stored_dir_def split: if_splits)
    have "filter (\<lambda>f. l' (fst f) \<and> l (fst f)) (vd_files ?S) = vd_files ?S"
      using arg_cong [OF whole, of vd_files] by (simp add: partly_removed_def)
    then show "\<forall>f\<in>set (vd_files ?S). l' (fst f)" by (auto simp: filter_id_conv)
  qed
  then have "partly_removed l' ?S = ?S" by (simp add: partly_removed_def)
  then show ?thesis using both by simp
qed

lemma delete_dirs:
  assumes ok: "engine_ok e" and run: "delete_version ob v e = (r, t)"
  shows "en_chunk_size t = en_chunk_size e \<and> (if isl r then en_dirs t = en_dirs e \<or>
      (\<exists>left d. get_dir e (ob, v) = Some d \<and> en_dirs t = update_by vd_key (ob, v) (\<lambda>_. partly_removed left d) (en_dirs e))
    else en_dirs t = remove_by vd_key (ob, v) (en_dirs e))"
proof (cases "valid_ids (ob, v) \<and> exists_version e (ob, v)")
  case False
  then show ?thesis using run
    by (auto simp: delete_version_def exists_version_def Let_def bindA_def gets_def raiseA_def split: option.splits if_splits)
next
  case True
  let ?k = "(ob, v)"
  obtain d where d: "get_dir e ?k = Some d" "meta_is_file (vd_meta d)"
    using True by (auto simp: exists_version_def split: option.splits)
  obtain r1 s where s: "remove_tree ?k e = (r1, s)" by (cases "remove_tree ?k e")
  have rt: "isl r = isl r1" "en_dirs t = en_dirs s" "en_chunk_size t = en_chunk_size s"
    using run True d s by (auto simp: delete_version_def Let_def bindA_def thenA_def gets_def change_def split: sum.splits)
  have upd: "update_by vd_key ?k (partly_removed left) (en_dirs e) = update_by vd_key ?k (\<lambda>_. partly_removed left d) (en_dirs e)" for left
    using ok d by (intro update_by_const) (simp_all add: engine_ok_def)
  show ?thesis
  proof (cases "isl r1")
    case True
    from remove_tree_run(1) [OF d(1) s True] show ?thesis
    proof
      assume "s = e\<lparr>en_io_pos := en_io_pos s\<rparr>"
      then obtain n where "s = e\<lparr>en_io_pos := n\<rparr>" ..
      then show ?thesis using rt True by simp
    next
      assume "s = e\<lparr>en_dirs := update_by vd_key ?k (partly_removed (en_left e (Suc (en_io_pos e)))) (en_dirs e), en_io_pos := en_io_pos s\<rparr>"
      then obtain n where "s = e\<lparr>en_dirs := update_by vd_key ?k (partly_removed (en_left e (Suc (en_io_pos e)))) (en_dirs e), en_io_pos := n\<rparr>" ..
      then show ?thesis using rt True d(1) upd by auto
    qed
  next
    case False
    then show ?thesis using rt remove_tree_run(2) [OF d(1) s False] by simp
  qed
qed

lemma lookup_update_const_any:
  "key r' = k \<Longrightarrow> lookup_by key k' (update_by key k (\<lambda>_. r') t) = (if k' = k then map_option (\<lambda>_. r') (lookup_by key k t) else lookup_by key k' t)"
  by (induction t) auto

lemma keeps_chunk_size:
  "keeps (\<lambda>e. en_chunk_size e = c) io" "keeps (\<lambda>e. en_chunk_size e = c) (gets f)" "keeps (\<lambda>e. en_chunk_size e = c) (upd_upload k g)"
  "keeps (\<lambda>e. en_chunk_size e = c) (reserve_capacity n)" "keeps (\<lambda>e. en_chunk_size e = c) (release_capacity n)"
  by (simp_all add: keeps_def io_def gets_def upd_upload_def change_def reserve_capacity_def release_capacity_def Let_def)

lemma keeps_change: "(\<And>e. I e \<Longrightarrow> I (f e)) \<Longrightarrow> keeps I (change f)"
  by (simp add: keeps_def change_def)

lemma keeps_finally: "keeps I m \<Longrightarrow> keeps I f \<Longrightarrow> keeps I (finallyA m f)"
  by (fastforce simp: keeps_def finallyA_def split: prod.splits sum.splits)

lemma write_chunk_size: "write_with buffered k p e = (r, t) \<Longrightarrow> en_chunk_size t = en_chunk_size e"
  by (rule keepsD [where m = "write_with buffered k p" and s = e])
    (auto simp: write_with_def begin_upload_def receive_def write_piece_def finish_upload_def account_upload_def cleanup_upload_def drop_upload_def
      intro!: keeps_rules keeps_chunk_size keeps_change keeps_finally)

lemma tidy_delete:
  assumes tidy: "tidy e" and run: "delete_version ob v e = (r, t)"
  shows "tidy t \<and> (content t = content e \<and> isl r \<or> content t = (content e)((ob, v) := None))"
proof -
  let ?k = "(ob, v)"
  have ok: "engine_ok e" using tidy by (simp add: tidy_def)
  have okt: "engine_ok t" using delete_ok [OF ok run] .
  have ds: "distinct (map vd_key (en_dirs e))" and cs: "0 < en_chunk_size e" using ok by (simp_all add: engine_ok_def)
  note shape = delete_dirs [OF ok run]
  consider (same) "isl r" "en_dirs t = en_dirs e"
    | (part) left d where "isl r" "get_dir e ?k = Some d" "en_dirs t = update_by vd_key ?k (\<lambda>_. partly_removed left d) (en_dirs e)"
    | (gone) "\<not> isl r" "en_dirs t = remove_by vd_key ?k (en_dirs e)"
    using shape by (auto split: if_splits)
  then show ?thesis
  proof cases
    case same
    then show ?thesis using tidy okt shape content_cong [of t e] by (simp add: tidy_def)
  next
    case gone
    have "content t = (content e)(?k := None)"
      using gone(2) shape by (intro ext) (simp add: content_def table_simps cong: option.case_cong)
    then show ?thesis using tidy okt gone(2) shape by (simp add: tidy_def table_simps)
  next
    case part
    have key: "vd_key d = ?k" and "d \<in> set (en_dirs e)" using lookup_by_SomeD [OF part(2)] by auto
    then obtain l bs where d: "d = partly_removed l (stored_dir ?k (en_chunk_size e) bs)" using tidy unfolding tidy_def by metis
    let ?d = "partly_removed left d"
    have get: "get_dir t k' = (if k' = ?k then Some ?d else get_dir e k')" for k'
      using part(2,3) key lookup_update_const_any [where key = vd_key and r' = ?d and k = ?k] by simp
    have "content t k' = (if k' = ?k \<and> ?d \<noteq> d then None else content e k')" for k'
    proof (cases "k' = ?k")
      case True
      then show ?thesis
        using part(2) get [of k'] shape partly_stored_twice [of left l ?k "en_chunk_size e" bs "payload_data ?d"] d
        by (auto simp: content_def)
    next
      case False
      then show ?thesis using get [of k'] shape by (simp add: content_def cong: option.case_cong)
    qed
    then have "content t = content e \<or> content t = (content e)(?k := None)" by (cases "?d = d") auto
    moreover have "\<exists>left bs. x = partly_removed left (stored_dir (vd_key x) (en_chunk_size e) bs)" if "x \<in> set (en_dirs t)" for x
    proof -
      have "x = ?d \<or> x \<in> set (en_dirs e)" using that part(3) by (auto elim!: in_update_byE)
      moreover have "?d = partly_removed (\<lambda>y. l y \<and> left y) (stored_dir (vd_key ?d) (en_chunk_size e) bs)"
        using key unfolding partly_removed_key by (subst d) (simp add: partly_removed_twice)
      ultimately show ?thesis using tidy unfolding tidy_def by metis
    qed
    ultimately show ?thesis using okt shape part(1) by (auto simp: tidy_def)
  qed
qed

lemma tidy_write:
  assumes tidy: "tidy e"
  shows "write_with buffered k p e = (Inr n, t) \<Longrightarrow> tidy t \<and> content e k = None \<and> content t = (content e)(k \<mapsto> concat (chunks p))"
    and "write_with buffered k p e = (Inl x, t) \<Longrightarrow> tidy t \<and> content t = content e"
proof -
  have ok: "engine_ok e" using tidy by (simp add: tidy_def)
  show "tidy t \<and> content e k = None \<and> content t = (content e)(k \<mapsto> concat (chunks p))"
    if run: "write_with buffered k p e = (Inr n, t)"
  proof -
    have "stored_dir k (en_chunk_size e) bs = partly_removed (\<lambda>_. True) (stored_dir k (en_chunk_size e) bs)" for bs
      by (simp add: partly_removed_all)
    then show ?thesis using content_write [OF ok run] write_run [OF ok run] tidy by (auto simp: tidy_def)
  qed
  show "tidy t \<and> content t = content e" if run: "write_with buffered k p e = (Inl x, t)"
    using write_fails [OF ok run] tidy content_cong [of t e] write_chunk_size [OF run] by (simp add: tidy_def)
qed

interpretation engine: keyed_store tidy content "write_with buffered" "\<lambda>p. concat (chunks p)" "\<lambda>k. delete_version (fst k) (snd k)"
  for buffered
proof unfold_locales
  fix s t :: engine and k :: version_key and p :: payload and n :: nat and x :: engine_error and u :: unit
  assume s: "tidy s"
  show "write_with buffered k p s = (Inr n, t) \<Longrightarrow> tidy t \<and> content s k = None \<and> content t = (content s)(k \<mapsto> concat (chunks p))"
    "write_with buffered k p s = (Inl x, t) \<Longrightarrow> tidy t \<and> content t = content s"
    by (fact tidy_write [OF s])+
  show "delete_version (fst k) (snd k) s = (Inr u, t) \<Longrightarrow> tidy t \<and> content t = (content s)(k := None)"
    "delete_version (fst k) (snd k) s = (Inl x, t) \<Longrightarrow> tidy t \<and> (content t = content s \<or> content t = (content s)(k := None))"
    using tidy_delete [OF s, of "fst k" "snd k"] by fastforce+
qed

section \<open>Reads\<close>

lemma read_chunks_shape:
  assumes "read_chunks k rs ids s = (Inr (blocks, None), t)" "get_dir s k = Some d" "0 < rs"
  shows "\<forall>i\<in>set ids. \<exists>bs. map_of (vd_files d) (chunk_name i) = Some (PlainFile bs)"
    "concat blocks = concat (map (\<lambda>i. case map_of (vd_files d) (chunk_name i) of Some (PlainFile bs) \<Rightarrow> bs | _ \<Rightarrow> []) ids)"
proof -
  have "(\<forall>i\<in>set ids. \<exists>bs. map_of (vd_files d) (chunk_name i) = Some (PlainFile bs)) \<and>
    concat blocks = concat (map (\<lambda>i. case map_of (vd_files d) (chunk_name i) of Some (PlainFile bs) \<Rightarrow> bs | _ \<Rightarrow> []) ids)"
    using assms
  proof (induction ids arbitrary: s blocks)
    case Nil
    then show ?case by (simp add: retA_def)
  next
    case (Cons i ids)
    obtain c s1 where c: "read_chunk k rs i s = (c, s1)" by (cases "read_chunk k rs i s")
    have dir: "get_dir s1 k = Some d"
      using c Cons.prems(2) by (auto simp: read_chunk_def bindA_def thenA_def gets_def raiseA_def retA_def io_def
          split: option.splits dir_entry.splits if_splits)
    obtain b where b: "c = Inr b" using Cons.prems(1) c by (cases c) (auto simp: tryA_def bindA_def retA_def)
    have entry: "\<exists>bs. map_of (vd_files d) (chunk_name i) = Some (PlainFile bs) \<and> b = group rs bs"
      using c b Cons.prems(2) by (auto simp: read_chunk_def bindA_def thenA_def gets_def raiseA_def retA_def io_def
          split: option.splits dir_entry.splits if_splits)
    obtain rest where rest: "read_chunks k rs ids s1 = (Inr (rest, None), t)" "blocks = b @ rest"
      using Cons.prems(1) c b by (auto simp: tryA_def bindA_def retA_def split: prod.splits sum.splits)
    show ?case using Cons.IH [OF rest(1) dir Cons.prems(3)] entry rest(2) Cons.prems(3) by (auto simp: concat_group)
  qed
  then show "\<forall>i\<in>set ids. \<exists>bs. map_of (vd_files d) (chunk_name i) = Some (PlainFile bs)"
    "concat blocks = concat (map (\<lambda>i. case map_of (vd_files d) (chunk_name i) of Some (PlainFile bs) \<Rightarrow> bs | _ \<Rightarrow> []) ids)"
    by blast+
qed

lemma map_of_filter_name: "map_of (filter (\<lambda>f. P (fst f)) fs) x = Some y \<Longrightarrow> P x \<and> map_of fs x = Some y"
  by (induction fs) (auto split: if_splits)

text \<open>A read that returns has returned the content of its key.\<close>

lemma tidy_read:
  assumes tidy: "tidy e" and read: "fst (read_bytes ob v e) = Inr bs"
  shows "content e (ob, v) = Some bs"
proof -
  let ?k = "(ob, v)" and ?cs = "en_chunk_size e"
  have cs: "0 < ?cs" using tidy by (simp add: tidy_def engine_ok_def)
  obtain t blocks where it: "iter_chunks ob v e = (Inr (blocks, None), t)" "concat blocks = bs"
    using read by (auto simp: read_bytes_def bindA_def retA_def raiseA_def split: prod.splits sum.splits option.splits)
  obtain entries s1 where m: "read_metadata ?k e = (Inr entries, s1)"
    using it(1) by (auto simp: iter_chunks_def Let_def bindA_def tryA_def retA_def split: prod.splits sum.splits)
  obtain d where d: "s1 = at_io (Suc (en_io_pos e)) e" "get_dir e ?k = Some d" "vd_meta d = Some (MetaFile (JObj entries))"
    using read_metadata_InrE [OF m] by blast
  obtain l data where S: "d = partly_removed l (stored_dir ?k ?cs data)"
    using tidy lookup_by_SomeD [OF d(2)] unfolding tidy_def by metis
  let ?S = "stored_dir ?k ?cs data" and ?g = "group ?cs data"
  have meta: "l ''metadata.json''" "entries = stored_entries ?k ?cs data"
    using d(3) by (auto simp: S partly_removed_def stored_dir_def stored_metadata_def stored_entries_def split: if_splits)
  have r: "read_chunks ?k ?cs [0..<length ?g] s1 = (Inr (blocks, None), t)"
    using it(1) m meta(2) cs d(1)
    by (simp add: iter_chunks_def Let_def bindA_def tryA_def lift_result_def int_field_def retA_def gets_def)
  have files: "vd_files d = filter (\<lambda>f. l (fst f)) (vd_files ?S)" by (simp add: S partly_removed_def)
  note sh = read_chunks_shape [OF r, of d] 
  have have_all: "l (chunk_name i) \<and> map_of (vd_files d) (chunk_name i) = Some (PlainFile (?g ! i))" if "i < length ?g" for i
  proof -
    have "\<exists>b. map_of (vd_files d) (chunk_name i) = Some (PlainFile b)" using sh(1) d(1,2) cs that by simp
    then obtain b where b: "map_of (vd_files d) (chunk_name i) = Some (PlainFile b)" ..
    then have "l (chunk_name i)" "map_of (vd_files ?S) (chunk_name i) = Some (PlainFile b)"
      using map_of_filter_name [where P = l and fs = "vd_files ?S" and x = "chunk_name i" and y = "PlainFile b"] b files by simp_all
    then show ?thesis using b that by (simp add: stored_dir_def map_of_chunks)
  qed
  then have "vd_files d = vd_files ?S" unfolding files by (auto simp: filter_id_conv stored_dir_def)
  then have "d = ?S" using meta(1) by (simp add: S partly_removed_def)
  moreover have "bs = data"
  proof -
    have "bs = concat (map ((!) ?g) [0..<length ?g])"
      using sh(2) d(1,2) cs it(2) have_all by (auto intro!: arg_cong [of _ _ concat])
    then show ?thesis using cs by (simp add: map_nth concat_group)
  qed
  ultimately show ?thesis using d(2) cs by (simp add: content_iff)
qed

section \<open>Properties of the storage engine\<close>

text \<open>An empty engine on a working file system, for concrete runs.\<close>

definition demo_engine :: engine where
  "demo_engine = \<lparr>en_capacity = 100, en_chunk_size = 2, en_used = 0, en_reserved = 0, en_inflight = [], en_dirs = [],
     en_links = [], en_uploads = [], en_disk_free = (\<lambda>_. 1000), en_disk_pos = 0, en_io = (\<lambda>_. True), en_io_pos = 0,
     en_left = (\<lambda>_ _. False)\<rparr>"

lemma demo_engine_ok: "engine_ok demo_engine" "tidy demo_engine"
  by (simp_all add: demo_engine_def engine_ok_def total_payload_def tidy_def)

lemma demo_write:
  assumes "length (concat (chunks p)) \<le> 100" "abort p = None"
  obtains n t where "write_with buffered (''o'', ''v'') p demo_engine = (Inr n, t)"
proof -
  have "\<exists>n t. write_with buffered (''o'', ''v'') p demo_engine = (Inr n, t)"
    using assms demo_engine_ok
    by (intro write_completes) (simp_all add: demo_engine_def valid_ids_def valid_id_def MAX_IDENTIFIER_LENGTH_def logical_free_def)
  then show thesis using that by blast
qed

primrec engine_serve :: "(version_key, payload) request \<Rightarrow> engine \<Rightarrow> engine" where
  "engine_serve (Put k p) e = snd (write_stream (fst k) (snd k) p e)"
| "engine_serve (Del k) e = snd (delete_version (fst k) (snd k) e)"

lemma engine_serve_eq: "engine_serve q e = engine.serve False q e"
  by (cases q) (simp_all add: write_stream_def)

text \<open>
  C9. Whatever a storage node answers to a read is something it was given: after any sequence of
  write and delete requests on an engine that started empty, successful or not, a read that returns
  has returned, byte for byte, the payload of a write of that very key among the requests; nothing is
  truncated, mixed with another version or left over from an interrupted removal.
\<close>

theorem engine_reads_what_was_written:
  assumes "engine_ok e" "en_dirs e = []"
    and "fst (read_bytes ob v (foldl (\<lambda>s q. engine_serve q s) e qs)) = Inr bs"
  shows "\<exists>p. Put (ob, v) p \<in> set qs \<and> concat (chunks p) = bs"
proof -
  have t: "foldl (\<lambda>s q. engine_serve q s) e qs = engine.serves False qs e"
    by (simp add: engine.serves_def engine_serve_eq)
  have e: "tidy e" "content e (ob, v) = None" using assms(1,2) by (simp_all add: tidy_def content_def)
  have "content (engine.serves False qs e) (ob, v) = Some bs"
    using tidy_read [OF engine.serves_ok [OF e(1), of False qs]] assms(3) t by simp
  then show ?thesis using engine.serves_content [OF e(1)] e(2) by fastforce
qed

theorem engine_reads_what_was_written_witness:
  "\<exists>p. Put (''o'', ''v'') p \<in> set [Put (''o'', ''v'') (Payload [[1, 2], [], [3]] None)] \<and> concat (chunks p) = ([1, 2, 3] :: byte list)"
proof (rule engine_reads_what_was_written [where e = demo_engine])
  obtain n t where run: "write_with False (''o'', ''v'') (Payload [[1, 2], [], [3]] None) demo_engine = (Inr n, t)"
    by (rule demo_write [where p = "Payload [[1, 2], [], [3]] None" and buffered = False]) auto
  have "stores t (''o'', ''v'') [1, 2, 3]" "io_works t"
    using write_run [OF demo_engine_ok(1) run] by (simp_all add: stores_def demo_engine_def)
  then show "fst (read_bytes ''o'' ''v'' (foldl (\<lambda>s q. engine_serve q s) demo_engine [Put (''o'', ''v'') (Payload [[1, 2], [], [3]] None)])) = Inr [1, 2, 3]"
    using run by (simp add: write_stream_def read_bytes_stored)
qed (simp_all add: demo_engine_ok, simp add: demo_engine_def)

text \<open>
  C18. A write that returns has stored the stream: it reports the number of bytes of the stream, the
  stored size and the bytes read back are those of the stream, however it was cut into blocks, the
  stored chunks are the stream cut every \<open>chunk_size\<close> bytes, and verification reports the version
  valid with the SHA-256 of the stream, as long as it has at most a million chunks.
\<close>

theorem engine_write_read:
  assumes ok: "engine_ok e" and run: "write_with buffered (ob, v) p e = (Inr n, t)" and io: "io_works e"
    and few: "length (concat (chunks p)) \<le> en_chunk_size e * MAX_VERIFY_CHUNKS"
  shows "n = length (concat (chunks p)) \<and> fst (object_size ob v t) = Inr (int n) \<and>
    fst (read_bytes ob v t) = Inr (concat (chunks p)) \<and>
    (\<exists>d. get_dir t (ob, v) = Some d \<and>
      vd_files d = map (\<lambda>i. (chunk_name i, PlainFile (group (en_chunk_size e) (concat (chunks p)) ! i)))
        [0..<length (group (en_chunk_size e) (concat (chunks p)))]) \<and>
    (\<exists>r. fst (verify ob v t) = Inr r \<and> vr_valid r \<and> vr_checksum r = Some (sha256 (concat (chunks p))) \<and> vr_size r = n)"
proof -
  note w = write_run [OF ok run]
  have st: "stores t (ob, v) (concat (chunks p))" "io_works t"
    using w io ok by (simp_all add: stores_def engine_ok_def)
  moreover have "vd_files (stored_dir (ob, v) (en_chunk_size e) bs) =
      map (\<lambda>i. (chunk_name i, PlainFile (group (en_chunk_size e) bs ! i))) [0..<length (group (en_chunk_size e) bs)]" for bs
    by (simp add: stored_dir_def)
  ultimately show ?thesis using read_bytes_stored [OF st] verify_stored [OF st] w few by auto
qed

theorem engine_write_read_witness:
  "\<exists>n t. write_with True (''o'', ''v'') (Payload [[1, 2, 3]] None) demo_engine = (Inr n, t) \<and> n = 3 \<and>
    fst (read_bytes ''o'' ''v'' t) = Inr [1, 2, 3]"
proof -
  obtain n t where run: "write_with True (''o'', ''v'') (Payload [[1, 2, 3]] None) demo_engine = (Inr n, t)"
    by (rule demo_write [where p = "Payload [[1, 2, 3]] None" and buffered = True]) auto
  have "io_works demo_engine" "length (concat (chunks (Payload [[1, 2, 3]] None))) \<le> en_chunk_size demo_engine * MAX_VERIFY_CHUNKS"
    by (simp_all add: demo_engine_def MAX_VERIFY_CHUNKS_def)
  then show ?thesis using engine_write_read [OF demo_engine_ok(1) run] run by auto
qed

text \<open>
  C38. A write whose stream ends normally returns, whatever the blocks of the stream are, when the
  identifiers are valid, the version is neither stored nor being written, its object directory is no
  symbolic link, the file system works, and the stream fits the free space.
\<close>

theorem engine_write_completes:
  assumes "engine_ok e" "io_works e" "abort p = None" "valid_ids k" "fst k \<notin> set (en_links e)" "get_dir e k = None"
    "k \<notin> set (en_inflight e)" "int (length (concat (chunks p))) \<le> logical_free e"
    "\<forall>i. int (length (concat (chunks p))) \<le> en_disk_free e i"
  shows "\<exists>t. write_with buffered k p e = (Inr (length (concat (chunks p))), t)"
  using write_completes [OF assms, of buffered] write_run [OF assms(1)] by blast

theorem engine_write_completes_witness:
  "\<exists>t. write_with False (''o'', ''v'') (Payload [[7], [8, 9]] None) demo_engine = (Inr 3, t)"
  using engine_write_completes [OF demo_engine_ok(1), of "Payload [[7], [8, 9]] None" "(''o'', ''v'')" False]
  by (simp add: demo_engine_def valid_ids_def valid_id_def MAX_IDENTIFIER_LENGTH_def logical_free_def numeral_3_eq_3)

text \<open>
  C37. A write that raises, because the version exists, space runs out, the file system fails or
  the client stops sending, publishes nothing and charges nothing; and unless the file system fails
  it gives back its reservation and its in-flight key.
\<close>

theorem engine_write_failure:
  assumes "engine_ok e" "write_with buffered k p e = (Inl x, t)"
  shows "engine_ok t \<and> en_dirs t = en_dirs e \<and> en_used t = en_used e \<and>
    (io_works e \<longrightarrow> en_uploads t = en_uploads e \<and> en_reserved t = en_reserved e \<and> en_inflight t = en_inflight e)"
  using assms by (rule write_fails)

lemma demo_abort:
  "fst (write_with False (''o'', ''v'') (Payload [] (Some ValueError)) demo_engine) = Inl (StreamError ValueError)"
  by (simp add: write_with_def finallyA_def begin_upload_def cleanup_upload_def thenA_def bindA_def gets_def io_def change_def
      retA_def raiseA_def release_capacity_def demo_engine_def valid_ids_def valid_id_def MAX_IDENTIFIER_LENGTH_def exists_version_def)

theorem engine_write_failure_witness:
  "fst (write_with False (''o'', ''v'') (Payload [] (Some ValueError)) demo_engine) = Inl (StreamError ValueError) \<and>
   en_inflight (snd (write_with False (''o'', ''v'') (Payload [] (Some ValueError)) demo_engine)) = []"
proof -
  let ?w = "write_with False (''o'', ''v'') (Payload [] (Some ValueError)) demo_engine"
  have "?w = (Inl (StreamError ValueError), snd ?w)" using demo_abort by (metis prod.collapse)
  moreover have "io_works demo_engine" "en_inflight demo_engine = []" by (simp_all add: demo_engine_def)
  ultimately show ?thesis using engine_write_failure [OF demo_engine_ok(1), of False "(''o'', ''v'')" "Payload [] (Some ValueError)"] demo_abort
    by metis
qed

lemma upload_named_version_uncounted:
  assumes "vd_key d = (''o'', ''a.upload'')"
  shows "\<exists>t. start_engine 100 2 False (demo_engine\<lparr>en_dirs := [d]\<rparr>) = (Inr (), t) \<and> en_dirs t = [d] \<and> en_used t = 0"
    "valid_id ''a.upload''"
proof -
  have "ends_with ''.upload'' ''a.upload'' \<and> \<not> staging_name ''a.upload''" by code_simp
  then show "\<exists>t. start_engine 100 2 False (demo_engine\<lparr>en_dirs := [d]\<rparr>) = (Inr (), t) \<and> en_dirs t = [d] \<and> en_used t = 0"
    using assms by (simp add: start_engine_def cleanup_staging_directories_def thenA_def bindA_def gets_def io_def change_def retA_def
        demo_engine_def swept_def scan_used_payload_bytes_def)
  show "valid_id ''a.upload''" by code_simp
qed

text \<open>
  C10. The capacity is never exceeded. Start an engine on files whose chunk bytes fit the
  configured capacity, among which there is no symbolic link and no version whose identifier ends in
  \<^verbatim>\<open>.upload\<close>, and let requests interleave in any order, with any failures of the file
  system: the chunk bytes of the published versions, and the bytes counted as used or reserved, stay
  within the capacity, the reservation is exactly what the unfinished uploads hold, and no key is
  uploaded twice at the same time. (The start does not count a version whose identifier ends in
  \<^verbatim>\<open>.upload\<close>, although such an identifier is accepted, so that the capacity can be exceeded after a
  restart over one: \<open>upload_named_version_uncounted\<close>.)
\<close>

theorem engine_capacity_bound:
  assumes start: "start_engine capacity cs linked e0 = (Inr u, e1)" and plain: "plain_ids e0" "distinct (map vd_key (en_dirs e0))"
    and fits: "int (total_payload e0) \<le> capacity" and reach: "engine_reach e1 e2"
  shows "int (total_payload e2) \<le> en_capacity e2 \<and> en_used e2 + en_reserved e2 \<le> en_capacity e2 \<and>
    en_reserved e2 = int (sum_list (map up_reserved (en_uploads e2))) \<and> distinct (en_inflight e2)"
proof -
  note s = start_run [OF start plain]
  have "engine_ok e1" using s plain(2) fits by (simp add: engine_ok_def total_payload_def)
  then have ok: "engine_ok e2" using reach engine_reach_ok by blast
  have "sum_list (map unaccounted us) \<le> sum_list (map up_reserved us)"
    if "\<forall>u\<in>set us. if up_published u then up_size u \<le> up_reserved u else upload_ok (en_chunk_size e2) u" for us
    using that by (intro sum_list_mono) (auto simp: unaccounted_def)
  then have "sum_list (map unaccounted (en_uploads e2)) \<le> sum_list (map up_reserved (en_uploads e2))"
    using ok by (simp add: engine_ok_def)
  then show ?thesis using ok by (simp add: engine_ok_def)
qed

theorem engine_capacity_bound_witness:
  "en_used (snd (begin_upload (''o'', ''v'') (snd (start_engine 100 2 False demo_engine)))) +
   en_reserved (snd (begin_upload (''o'', ''v'') (snd (start_engine 100 2 False demo_engine)))) \<le>
   en_capacity (snd (begin_upload (''o'', ''v'') (snd (start_engine 100 2 False demo_engine))))"
proof -
  let ?e1 = "snd (start_engine 100 2 False demo_engine)"
  let ?e2 = "snd (begin_upload (''o'', ''v'') ?e1)"
  have s: "fst (start_engine 100 2 False demo_engine) = Inr ()"
    by (simp add: start_engine_def cleanup_staging_directories_def thenA_def bindA_def gets_def io_def change_def retA_def demo_engine_def)
  have "engine_step ?e1 ?e2" by (rule step_begin [of _ _ "fst (begin_upload (''o'', ''v'') ?e1)"]) simp
  then have "engine_reach ?e1 ?e2" by (rule reach_step [OF reach_start])
  moreover have "start_engine 100 2 False demo_engine = (Inr (), ?e1)" using s by (metis prod.collapse)
  ultimately show ?thesis
    using engine_capacity_bound [of 100 2 False demo_engine "()" ?e1 ?e2]
    by (simp add: demo_engine_def plain_ids_def total_payload_def)
qed

text \<open>
  C17. A version that verification calls valid is intact, whatever has happened to its files: reading
  it returns bytes whose length is the reported and the stored size, whose SHA-256 is the reported
  checksum, and whose SHA-256 is the checksum in the stored metadata.
\<close>

theorem engine_verify_sound:
  assumes "fst (verify ob v e) = Inr r" "vr_valid r" "io_works e" "0 < en_chunk_size e"
  shows "\<exists>bs. fst (read_bytes ob v e) = Inr bs \<and> vr_checksum r = Some (sha256 bs) \<and> vr_size r = length bs \<and>
    fst (object_size ob v e) = Inr (int (length bs)) \<and>
    (\<exists>d entries. get_dir e (ob, v) = Some d \<and> vd_meta d = Some (MetaFile (JObj entries)) \<and>
      map_of entries ''checksum'' = Some (JStr (sha256 bs)))"
  using assms by (rule verify_valid_reads)

theorem engine_verify_sound_witness:
  "\<exists>e r bs. fst (verify ''o'' ''v'' e) = Inr r \<and> fst (read_bytes ''o'' ''v'' e) = Inr bs \<and> vr_checksum r = Some (sha256 bs)"
proof -
  obtain n e where run: "write_with True (''o'', ''v'') (Payload [[1, 2, 3]] None) demo_engine = (Inr n, e)"
    by (rule demo_write [where p = "Payload [[1, 2, 3]] None" and buffered = True]) auto
  have st: "stores e (''o'', ''v'') [1, 2, 3]" "io_works e" "0 < en_chunk_size e" "en_chunk_size e = 2"
    using write_run [OF demo_engine_ok(1) run] by (simp_all add: stores_def demo_engine_def)
  obtain r where "fst (verify ''o'' ''v'' e) = Inr r" "vr_valid r"
    using verify_stored [OF st(1,2)] st(4) by (auto simp: MAX_VERIFY_CHUNKS_def)
  then show ?thesis using engine_verify_sound [of "''o''" "''v''" e r] st(2,3) by blast
qed

section \<open>Observed defects\<close>

text \<open>
  \<open>_read_metadata\<close> catches \<open>OSError\<close> and \<open>JSONDecodeError\<close>, but metadata that is no UTF-8 makes
  \<open>json.load\<close> raise \<open>UnicodeDecodeError\<close>, a \<open>ValueError\<close>: verification raises, and the node server
  answers 400, where it reports every other kind of broken metadata as an invalid version.
\<close>

lemma verify_undecodable_raises:
  assumes "valid_ids (ob, v)" "ob \<notin> set (en_links e)" "get_dir e (ob, v) = Some d" "\<not> vd_link d" "vd_meta d = Some MetaUndecodable"
    "io_works e"
  shows "fst (verify ob v e) = Inl EngineValueError"
  using assms by (simp add: verify_def Let_def bindA_def tryA_def read_metadata_def thenA_def catchA_def gets_def io_def raiseA_def)

text \<open>
  A deletion between the publication of a version and its accounting takes the bytes off \<open>_used_bytes\<close>
  first, where they are not yet counted and the result is cut off at zero; the accounting then adds
  them for good, although nothing is stored any more.
\<close>

lemma delete_before_accounting_leaks:
  assumes up: "get_upload e (ob, v) = Some u" and d: "get_dir e (ob, v) = Some d" "\<not> vd_link d" "meta_is_file (vd_meta d)"
    and ids: "valid_ids (ob, v)" and io: "io_works e" and none: "en_used e = 0"
  shows "en_used (snd (account_upload (ob, v) (snd (delete_version ob v e)))) = int (up_size u)"
    "get_dir (snd (account_upload (ob, v) (snd (delete_version ob v e)))) (ob, v) = None"
proof -
  have del: "delete_version ob v e = (Inr (), e\<lparr>en_io_pos := Suc (en_io_pos e), en_dirs := remove_by vd_key (ob, v) (en_dirs e), en_used := 0\<rparr>)"
    using assms by (simp add: delete_version_def remove_tree_def Let_def bindA_def thenA_def catchA_def gets_def io_def change_def)
  show "en_used (snd (account_upload (ob, v) (snd (delete_version ob v e)))) = int (up_size u)"
    "get_dir (snd (account_upload (ob, v) (snd (delete_version ob v e)))) (ob, v) = None"
    using up by (simp_all add: del account_run drop_upload_def table_simps)
qed

text \<open>
  Version identifiers may look like staging directories: an engine that starts removes such a
  version as a left-over upload.
\<close>

lemma remove_tree_gone:
  assumes "remove_tree k e = (Inr u, t)"
  shows "get_dir t k = None \<and> en_links t = en_links e \<and> (\<forall>k'. k' \<noteq> k \<longrightarrow> get_dir t k' = get_dir e k')"
  using assms
  by (auto simp: remove_tree_def bindA_def thenA_def catchA_def gets_def raiseA_def io_def change_def table_simps split: if_splits)

lemma remove_trees_gone:
  assumes "forA remove_tree ks e = (Inr us, t)"
  shows "\<forall>k\<in>set ks. get_dir t k = None" "\<And>k. get_dir e k = None \<Longrightarrow> get_dir t k = None"
proof -
  have "(\<forall>k\<in>set ks. get_dir t k = None) \<and> (\<forall>k. get_dir e k = None \<longrightarrow> get_dir t k = None)"
    using assms
  proof (induction ks arbitrary: e us)
    case (Cons k ks)
    obtain u e1 vs where "remove_tree k e = (Inr u, e1)" "forA remove_tree ks e1 = (Inr vs, t)"
      using Cons.prems by (rule forA_ConsE)
    then show ?case using Cons.IH [of e1 vs] remove_tree_gone [of k e u e1] by (metis set_ConsD)
  qed (simp add: retA_def)
  then show "\<forall>k\<in>set ks. get_dir t k = None" "\<And>k. get_dir e k = None \<Longrightarrow> get_dir t k = None" by blast+
qed

lemma staging_named_version_lost:
  assumes run: "start_engine capacity cs linked e = (Inr u, t)" and d: "get_dir e (ob, v) = Some d"
    and name: "staging_name v" "ob \<notin> set (en_links e)"
  shows "get_dir t (ob, v) = None" "valid_id ''.a.upload''" "staging_name ''.a.upload''"
proof -
  obtain s1 s2 where s: "io e = (Inr (), s1)" "cleanup_staging_directories s1 = (Inr (), s2)" "en_dirs t = en_dirs s2"
    using run by (auto simp: start_engine_def change_def raiseA_def elim!: thenA_InrE split: if_splits)
  have s1: "s1 = e\<lparr>en_io_pos := Suc (en_io_pos e)\<rparr>" using s(1) by (auto simp: io_def split: if_splits)
  obtain us s3 zs and ys :: "version_key list" where s3: "forA remove_tree (map vd_key (filter (swept s1) (en_dirs s1))) s1 = (Inr us, s3)"
    "forA (\<lambda>_. io) ys s3 = (Inr zs, s2)"
    using s(2) unfolding cleanup_staging_directories_def by (auto simp: gets_def retA_def elim!: bindA_InrE thenA_InrE)
  have "d \<in> set (en_dirs s1)" "vd_key d = (ob, v)" using lookup_by_SomeD [OF d] s1 by auto
  then have "(ob, v) \<in> set (map vd_key (filter (swept s1) (en_dirs s1)))"
    using name s1 by (force simp: swept_def)
  then have "get_dir s3 (ob, v) = None" using remove_trees_gone(1) [OF s3(1)] by blast
  moreover obtain p q where "s2 = s3\<lparr>en_io_pos := p, en_disk_pos := q\<rparr>"
    using forA_io_frame [OF s3(2)] by (auto simp: same_store_def)
  ultimately show "get_dir t (ob, v) = None" using s(3) by simp
  show "valid_id ''.a.upload''" "staging_name ''.a.upload''"
    by (simp_all add: valid_id_def MAX_IDENTIFIER_LENGTH_def staging_name_def ends_with_def)
qed

end
