(* ===== verification/Node_Server.thy ===== *)
theory Node_Server
  imports Engine_Spec
begin

text \<open>
  \<^verbatim>\<open>storage/node_server.py\<close>: the HTTP interface of a storage node, one definition per
  route. A response has its status, the \<^verbatim>\<open>Content-Length\<close> a handler sets and its body; an
  exception no handler catches is the framework's 500 with a plain-text body. The texts in error
  bodies, the list of verification messages and the headers that only name the request are left out.
\<close>

datatype http_request =
    HealthRequest | StatsRequest
  | HeadRequest string string | GetRequest string string | PutRequest string string payload
  | DeleteRequest string string | VerifyRequest string string

datatype http_body = JsonBody json | TextBody | NoBody | StreamBody "byte list list" "engine_error option"

record http_response =
  rs_status :: int
  rs_length :: "string option"
  rs_body :: http_body

text \<open>\<open>str\<close> of an integer.\<close>

definition int_digits :: "int \<Rightarrow> string" where
  "int_digits i = (if i < 0 then CHR ''-'' # nat_digits (nat (- i)) else nat_digits (nat i))"

definition plain_response :: "int \<Rightarrow> http_body \<Rightarrow> http_response" where
  "plain_response st body = \<lparr>rs_status = st, rs_length = None, rs_body = body\<rparr>"

text \<open>The body FastAPI gives an \<open>HTTPException\<close>.\<close>

definition http_exception :: "int \<Rightarrow> http_response" where
  "http_exception st = plain_response st (JsonBody (JObj [(''detail'', JStr [])]))"

definition unhandled :: http_response where
  "unhandled = plain_response 500 TextBody"

type_synonym handler = "engine \<Rightarrow> http_response \<times> engine"

definition respond :: "'a eng \<Rightarrow> (engine_error \<Rightarrow> http_response) \<Rightarrow> ('a \<Rightarrow> http_response) \<Rightarrow> handler" where
  "respond m h f e = (case m e of (Inl x, e') \<Rightarrow> (h x, e') | (Inr y, e') \<Rightarrow> (f y, e'))"

definition server_health :: "string \<Rightarrow> handler" where
  "server_health node_id e = (plain_response 200 (JsonBody (JObj [(''status'', JStr ''healthy''), (''node_id'', JStr node_id)])), e)"

definition server_stats :: "string \<Rightarrow> handler" where
  "server_stats node_id = respond stats (\<lambda>_. unhandled) (\<lambda>s. plain_response 200 (JsonBody (JObj
     [(''node_id'', JStr node_id), (''capacity_bytes'', JInt (ss_capacity s)), (''used_bytes'', JInt (ss_used s)),
      (''free_bytes'', JInt (ss_free s))])))"

text \<open>The \<open>except\<close> clauses of the read and delete routes; \<open>StorageError\<close> itself is not caught there.\<close>

definition read_errors :: "engine_error \<Rightarrow> http_response" where
  "read_errors x = (case x of EngineValueError \<Rightarrow> http_exception 400 | ObjectNotFoundError \<Rightarrow> http_exception 404 | _ \<Rightarrow> unhandled)"

definition server_head :: "string \<Rightarrow> string \<Rightarrow> handler" where
  "server_head object_id version_id =
     respond (object_size object_id version_id) read_errors (\<lambda>bytes. \<lparr>rs_status = 200, rs_length = Some (int_digits bytes), rs_body = NoBody\<rparr>)"

text \<open>The generator of \<open>iter_chunks\<close> only starts when the response streams its body.\<close>

definition server_get :: "string \<Rightarrow> string \<Rightarrow> handler" where
  "server_get object_id version_id e =
     (case object_size object_id version_id e of
        (Inl x, e') \<Rightarrow> (read_errors x, e')
      | (Inr bytes, e') \<Rightarrow>
          (case iter_chunks object_id version_id e' of
             (Inl x, e'') \<Rightarrow> (unhandled, e'')
           | (Inr (blocks, x), e'') \<Rightarrow> (\<lparr>rs_status = 200, rs_length = Some (int_digits bytes), rs_body = StreamBody blocks x\<rparr>, e'')))"

definition put_errors :: "engine_error \<Rightarrow> http_response" where
  "put_errors x = (case x of ObjectAlreadyExistsError \<Rightarrow> http_exception 409 | StorageFullError \<Rightarrow> http_exception 507
     | EngineValueError \<Rightarrow> http_exception 400 | ObjectNotFoundError \<Rightarrow> http_exception 500 | StorageError \<Rightarrow> http_exception 500
     | _ \<Rightarrow> unhandled)"

definition server_put :: "string \<Rightarrow> string \<Rightarrow> payload \<Rightarrow> handler" where
  "server_put object_id version_id p =
     respond (write_stream object_id version_id p) put_errors (\<lambda>bytes. plain_response 201 (JsonBody (JObj
       [(''object_id'', JStr object_id), (''version_id'', JStr version_id), (''size_bytes'', JInt (int bytes))])))"

definition server_delete :: "string \<Rightarrow> string \<Rightarrow> handler" where
  "server_delete object_id version_id = respond (delete_version object_id version_id) read_errors (\<lambda>_. plain_response 204 NoBody)"

definition verify_errors :: "engine_error \<Rightarrow> http_response" where
  "verify_errors x = (case x of EngineValueError \<Rightarrow> http_exception 400 | ObjectNotFoundError \<Rightarrow> http_exception 404
     | ObjectAlreadyExistsError \<Rightarrow> http_exception 500 | StorageFullError \<Rightarrow> http_exception 500 | StorageError \<Rightarrow> http_exception 500
     | _ \<Rightarrow> unhandled)"

definition verify_body :: "verification_result \<Rightarrow> json" where
  "verify_body r = JObj [(''object_id'', JStr (fst (vr_key r))), (''version_id'', JStr (snd (vr_key r))),
     (''size_bytes'', JInt (int (vr_size r))), (''checksum'', (case vr_checksum r of None \<Rightarrow> JNull | Some c \<Rightarrow> JStr c)),
     (''verified'', JBool True), (''valid'', JBool (vr_valid r)), (''chunk_count'', JInt (vr_chunk_count r)),
     (''corrupt_chunks'', JList (map (\<lambda>i. JInt (int i)) (vr_corrupt r)))]"

definition server_verify :: "string \<Rightarrow> string \<Rightarrow> handler" where
  "server_verify object_id version_id =
     respond (verify object_id version_id) verify_errors (\<lambda>r. plain_response 200 (JsonBody (verify_body r)))"

fun serve_http :: "string \<Rightarrow> http_request \<Rightarrow> handler" where
  "serve_http node_id HealthRequest = server_health node_id"
| "serve_http node_id StatsRequest = server_stats node_id"
| "serve_http node_id (HeadRequest ob v) = server_head ob v"
| "serve_http node_id (GetRequest ob v) = server_get ob v"
| "serve_http node_id (PutRequest ob v p) = server_put ob v p"
| "serve_http node_id (DeleteRequest ob v) = server_delete ob v"
| "serve_http node_id (VerifyRequest ob v) = server_verify ob v"

lemma engine_error_statuses:
  "rs_status (read_errors x) \<in> {400, 404, 500}" "rs_status (put_errors x) \<in> {400, 409, 500, 507}"
  "rs_status (verify_errors x) \<in> {400, 404, 500}"
  by (cases x; simp add: read_errors_def put_errors_def verify_errors_def http_exception_def unhandled_def plain_response_def)+

section \<open>What requests leave alone\<close>

text \<open>
  A request other than a deletion leaves every stored version alone, and none changes the
  configuration of the engine.
\<close>

definition settings_of :: "engine \<Rightarrow> (nat \<Rightarrow> bool) \<times> nat \<times> string list" where
  "settings_of e = (en_io e, en_chunk_size e, en_links e)"

definition grown :: "engine \<Rightarrow> engine \<Rightarrow> bool" where
  "grown e t \<longleftrightarrow> engine_ok t \<and> settings_of t = settings_of e \<and> (\<forall>k d. get_dir e k = Some d \<longrightarrow> get_dir t k = Some d)"

lemma grown_refl: "engine_ok e \<Longrightarrow> grown e e"
  by (simp add: grown_def)

lemma grown_trans: "grown e s \<Longrightarrow> grown s t \<Longrightarrow> grown e t"
  by (simp add: grown_def)

lemma grown_intact: "grown e t \<Longrightarrow> intact e k data \<Longrightarrow> intact t k data"
proof -
  assume "grown e t" "intact e k data"
  moreover from this have "get_dir t k = get_dir e k" unfolding grown_def intact_def by metis
  ultimately show ?thesis using intact_cong [of k t e data] by (simp add: grown_def settings_of_def)
qed

lemma same_store_grown:
  assumes "same_store e t" "engine_ok e"
  shows "grown e t"
proof -
  obtain p q where "t = e\<lparr>en_io_pos := p, en_disk_pos := q\<rparr>" using assms(1) by (auto simp: same_store_def)
  then show ?thesis using assms engine_ok_same_store [OF assms(1)] by (simp add: grown_def settings_of_def)
qed

lemma settings_change: "(\<And>e. settings_of (f e) = settings_of e) \<Longrightarrow> keeps (\<lambda>s. settings_of s = x) (change f)"
  by (simp add: keeps_def change_def)

lemma settings_io [keeps_rules]: "keeps (\<lambda>s. settings_of s = x) io" "keeps (\<lambda>s. settings_of s = x) (gets f)"
  by (simp_all add: keeps_def io_def gets_def settings_of_def)

lemma settings_steps [keeps_rules]:
  "keeps (\<lambda>s. settings_of s = x) (upd_upload k f)" "keeps (\<lambda>s. settings_of s = x) (reserve_capacity n)"
  "keeps (\<lambda>s. settings_of s = x) (release_capacity n)" "keeps (\<lambda>s. settings_of s = x) (change (drop_upload k))"
  by (auto simp: keeps_def upd_upload_def reserve_capacity_def release_capacity_def change_def drop_upload_def settings_of_def
      bindA_def thenA_def gets_def raiseA_def Let_def split: if_splits prod.splits sum.splits)

lemma keeps_finallyA: "keeps I m \<Longrightarrow> keeps I f \<Longrightarrow> keeps I (finallyA m f)"
  by (fastforce simp: keeps_def finallyA_def split: prod.splits sum.splits)

lemma settings_write: "keeps (\<lambda>s. settings_of s = x) (write_with buffered k p)"
  unfolding write_with_def begin_upload_def receive_def write_piece_def finish_upload_def account_upload_def cleanup_upload_def
  by (intro keeps_rules keeps_finallyA settings_change) (simp_all add: settings_of_def drop_upload_def)

lemma write_grown:
  assumes ok: "engine_ok e"
  shows "grown e (snd (write_with buffered k p e))"
proof -
  obtain r t where run: "write_with buffered k p e = (r, t)" by (cases "write_with buffered k p e")
  have "settings_of t = settings_of e" using keepsD [OF settings_write _ run, of "settings_of e"] by simp
  moreover have "engine_ok t \<and> (\<forall>k d. get_dir e k = Some d \<longrightarrow> get_dir t k = Some d)"
  proof (cases r)
    case (Inl x)
    then show ?thesis using write_fails [OF ok] run by simp
  next
    case (Inr n)
    then show ?thesis using write_run [OF ok] run by auto
  qed
  ultimately show ?thesis using run by (simp add: grown_def)
qed

lemma keeps_case_engine_error [keeps_rules]:
  assumes "keeps I m1" "keeps I m2"
  shows "keeps I (case x of StorageError \<Rightarrow> m1 | _ \<Rightarrow> m2)"
  using assms by (cases x) simp_all

lemma read_metadata_same [keeps_rules]: "keeps (same_store e) (read_metadata k)"
  unfolding read_metadata_def
  by (intro keeps_rules) (auto split: meta_entry.splits json.splits intro!: keeps_rules)

lemma lift_result_keeps [keeps_rules]: "keeps I (lift_result r)"
  by (cases r) (simp_all add: lift_result_def keeps_rules)

lemma read_chunks_same [keeps_rules]: "keeps (same_store e) (read_chunks k rs ids)"
proof (induction ids)
  case (Cons i ids)
  have "keeps (same_store e) (read_chunk k rs i)"
    unfolding read_chunk_def by (intro keeps_rules) (auto split: option.splits dir_entry.splits intro!: keeps_rules)
  with Cons show ?case by (simp, intro keeps_rules)
qed (simp add: keeps_rules)

lemma reads_same [keeps_rules]:
  "keeps (same_store e) (object_size ob v)" "keeps (same_store e) (iter_chunks ob v)" "keeps (same_store e) (read_bytes ob v)"
  unfolding object_size_def iter_chunks_def read_bytes_def by (intro keeps_rules)+

lemma verify_same [keeps_rules]: "keeps (same_store e) (verify ob v)"
  unfolding verify_def verify_layout_def check_entry_def check_chunk_def
  by (intro keeps_rules) (auto split: option.splits dir_entry.splits engine_error.splits intro!: keeps_rules)

lemma respond_snd: "snd (respond m h f e) = snd (m e)"
  by (simp add: respond_def split: prod.splits sum.splits)

lemma keeps_grown: "keeps (same_store e) m \<Longrightarrow> engine_ok e \<Longrightarrow> grown e (snd (m e))"
  by (auto simp: keeps_def intro: same_store_grown)

lemma server_get_grown:
  assumes "engine_ok e"
  shows "grown e (snd (server_get ob v e))"
proof -
  obtain r t where s: "object_size ob v e = (r, t)" by (cases "object_size ob v e")
  have t: "grown e t" using keeps_grown [OF reads_same(1) assms, of ob v] s by simp
  then have "grown t (snd (iter_chunks ob v t))" by (intro keeps_grown reads_same) (simp add: grown_def)
  then show ?thesis using s t by (auto simp: server_get_def split: prod.splits sum.splits intro: grown_trans)
qed

lemma serve_http_grown:
  assumes ok: "engine_ok e" and q: "\<forall>ob v. q \<noteq> DeleteRequest ob v"
  shows "grown e (snd (serve_http i q e))"
proof (cases q)
  case StatsRequest
  have "same_store e (snd (stats e))" by (simp add: stats_def same_store_def)
  then show ?thesis using StatsRequest ok by (simp add: server_stats_def respond_snd same_store_grown)
next
  case (PutRequest ob v p)
  then show ?thesis using write_grown [OF ok] by (simp add: server_put_def respond_snd write_stream_def)
qed (use q ok in \<open>simp_all add: server_health_def grown_refl server_head_def server_verify_def respond_snd keeps_grown keeps_rules server_get_grown\<close>)

end
