(* ===== verification/Node_Client.thy ===== *)
theory Node_Client
  imports Node_Server
begin

text \<open>
  \<^verbatim>\<open>replication/node_client.py\<close>: the client of the storage-node HTTP interface, over an
  arbitrary HTTP transport. The transport is the third-party library: a function that answers or
  fails every request on a state of its own. The wire around it records the requests that were sent
  and the pauses that were made, so that the bounds on retries can be stated.
\<close>

section \<open>Configuration\<close>

record retry_policy =
  ry_attempts :: int
  ry_base :: rat
  ry_max :: rat
  ry_jitter :: rat

definition make_retry_policy :: "retry_policy \<Rightarrow> exn + retry_policy" where
  "make_retry_policy p =
     (if ry_attempts p < 1 \<or> ry_base p < 0 \<or> ry_max p < ry_base p \<or> \<not> (0 \<le> ry_jitter p \<and> ry_jitter p \<le> 1)
      then Inl ValueError else Inr p)"

definition default_retry :: retry_policy where
  "default_retry = \<lparr>ry_attempts = 3, ry_base = 1 / 5, ry_max = 2, ry_jitter = 1 / 4\<rparr>"

record node_timeouts =
  tm_connect :: rat
  tm_health :: rat
  tm_stats :: rat
  tm_head :: rat
  tm_read :: rat
  tm_write :: rat
  tm_verify :: rat
  tm_delete :: rat
  tm_pool :: rat

definition make_timeouts :: "node_timeouts \<Rightarrow> exn + node_timeouts" where
  "make_timeouts t =
     (if \<exists>x\<in>set [tm_connect t, tm_health t, tm_stats t, tm_head t, tm_read t, tm_write t, tm_verify t, tm_delete t, tm_pool t]. x \<le> 0
      then Inl ValueError else Inr t)"

datatype operation = Op_health | Op_stats | Op_head | Op_read | Op_write | Op_verify | Op_delete

record http_timeout =
  ht_connect :: rat
  ht_read :: rat
  ht_write :: rat
  ht_pool :: rat

definition operation_seconds :: "node_timeouts \<Rightarrow> operation \<Rightarrow> rat" where
  "operation_seconds t op = (case op of Op_health \<Rightarrow> tm_health t | Op_stats \<Rightarrow> tm_stats t | Op_head \<Rightarrow> tm_head t
     | Op_read \<Rightarrow> tm_read t | Op_write \<Rightarrow> tm_write t | Op_verify \<Rightarrow> tm_verify t | Op_delete \<Rightarrow> tm_delete t)"

definition for_operation :: "node_timeouts \<Rightarrow> operation \<Rightarrow> http_timeout" where
  "for_operation t op = \<lparr>ht_connect = tm_connect t, ht_read = operation_seconds t op,
     ht_write = (if op = Op_write then tm_write t else operation_seconds t op), ht_pool = tm_pool t\<rparr>"

record client_config =
  cf_address :: string
  cf_timeout :: "rat option"
  cf_timeouts :: "node_timeouts option"
  cf_retry :: retry_policy
  cf_connections :: int
  cf_keepalive :: int
  cf_key :: "string option"

text \<open>
  The parts of \<open>urlparse\<close> the checks use: leading control characters and blanks are dropped, tabs and
  line ends removed; the scheme is what precedes the first colon when it is made of scheme characters;
  the authority follows two slashes. Unbalanced brackets raise; bracketed hosts are taken as they are.
\<close>

definition scheme_char :: "char \<Rightarrow> bool" where
  "scheme_char c \<longleftrightarrow> (let n = (of_char c :: nat) in
     48 \<le> n \<and> n \<le> 57 \<or> 65 \<le> n \<and> n \<le> 90 \<or> 97 \<le> n \<and> n \<le> 122 \<or> c \<in> {CHR ''+'', CHR ''-'', CHR ''.''})"

definition ascii_letter :: "char \<Rightarrow> bool" where
  "ascii_letter c \<longleftrightarrow> (let n = (of_char c :: nat) in 65 \<le> n \<and> n \<le> 90 \<or> 97 \<le> n \<and> n \<le> 122)"

definition clean_url :: "string \<Rightarrow> string" where
  "clean_url s = filter (\<lambda>c. (of_char c :: nat) \<notin> {9, 10, 13}) (dropWhile (\<lambda>c. (of_char c :: nat) \<le> 32) s)"

definition split_scheme :: "string \<Rightarrow> string \<times> string" where
  "split_scheme url =
     (let before = takeWhile (\<lambda>c. c \<noteq> CHR '':'') url in
      if before \<noteq> [] \<and> length before < length url \<and> ascii_letter (hd before) \<and> (\<forall>c\<in>set before. scheme_char c)
      then (lower before, drop (Suc (length before)) url) else ([], url))"

definition url_netloc :: "string \<Rightarrow> string" where
  "url_netloc rest = (if take 2 rest = ''//''
     then takeWhile (\<lambda>c. c \<notin> {CHR ''/'', CHR ''?'', CHR ''#''}) (drop 2 rest) else [])"

definition check_address :: "string \<Rightarrow> exn + string" where
  "check_address text =
     (let address = rstrip_slash (strip text);
          (scheme, rest) = split_scheme (clean_url address);
          netloc = url_netloc rest in
      if address = [] then Inl ValueError
      else if (CHR ''['' \<in> set netloc) \<noteq> (CHR '']'' \<in> set netloc) then Inl ValueError
      else if scheme \<notin> {''http'', ''https''} \<or> netloc = [] then Inl ValueError
      else if CHR ''@'' \<in> set netloc then Inl ValueError
      else Inr address)"

definition default_timeouts :: "rat option \<Rightarrow> node_timeouts" where
  "default_timeouts timeout =
     (let pick = (\<lambda>x. case timeout of Some t \<Rightarrow> if t = 0 then x else t | None \<Rightarrow> x) in
      \<lparr>tm_connect = pick 5, tm_health = pick 2, tm_stats = pick 3, tm_head = pick 5, tm_read = pick 30, tm_write = pick 60,
       tm_verify = pick 30, tm_delete = pick 10, tm_pool = pick 5\<rparr>)"

definition make_client_config :: "string \<Rightarrow> client_config \<Rightarrow> exn + client_config" where
  "make_client_config env_key c =
     bindE (check_address (cf_address c)) (\<lambda>address.
     let key = (case cf_key c of Some k \<Rightarrow> k | None \<Rightarrow> strip env_key) in
     if (case cf_timeout c of Some t \<Rightarrow> t \<le> 0 | None \<Rightarrow> False) then Inl ValueError
     else if key = [] then Inl ValueError
     else if cf_connections c < 1 then Inl ValueError
     else if \<not> (1 \<le> cf_keepalive c \<and> cf_keepalive c \<le> cf_connections c) then Inl ValueError
     else bindE (case cf_timeouts c of Some t \<Rightarrow> Inr t | None \<Rightarrow> make_timeouts (default_timeouts (cf_timeout c))) (\<lambda>timeouts.
     Inr (c\<lparr>cf_address := address, cf_key := Some key, cf_timeouts := Some timeouts\<rparr>)))"

definition client_init :: "string \<Rightarrow> rat \<Rightarrow> string \<Rightarrow> exn + client_config" where
  "client_init env_key request_timeout address =
     make_client_config env_key \<lparr>cf_address = address, cf_timeout = Some request_timeout, cf_timeouts = None,
       cf_retry = default_retry, cf_connections = 100, cf_keepalive = 20, cf_key = None\<rparr>"

section \<open>Requests and retries\<close>

datatype transport_error = TimeoutException | RequestError | ContentError exn

record 'n transport =
  tr_send :: "string \<Rightarrow> http_timeout \<Rightarrow> http_request \<Rightarrow> (transport_error, 'n, http_response) action"
  tr_random :: "nat \<Rightarrow> rat"

record 'n wire =
  wi_net :: 'n
  wi_log :: "http_request list"
  wi_slept :: "rat list"

type_synonym ('n, 'a) wired = "(exn, 'n wire, 'a) action"

definition send :: "'n transport \<Rightarrow> client_config \<Rightarrow> operation \<Rightarrow> http_request \<Rightarrow> (transport_error, 'n wire, http_response) action" where
  "send tr cf op q w =
     (case tr_send tr (cf_address cf) (for_operation (case cf_timeouts cf of Some t \<Rightarrow> t | None \<Rightarrow> default_timeouts None) op) q (wi_net w) of
        (r, n) \<Rightarrow> (r, w\<lparr>wi_net := n, wi_log := wi_log w @ [q]\<rparr>))"

definition retry_base :: "retry_policy \<Rightarrow> nat \<Rightarrow> rat" where
  "retry_base p attempt = min (ry_max p) (ry_base p * 2 ^ (attempt - 1))"

definition retry_delay :: "retry_policy \<Rightarrow> rat \<Rightarrow> nat \<Rightarrow> rat" where
  "retry_delay p u attempt =
     (let base = retry_base p attempt;
          low = base * (1 - ry_jitter p);
          high = base * (1 + ry_jitter p) in
      min (low + (high - low) * u) (ry_max p))"

definition sleep_before_retry :: "'n transport \<Rightarrow> client_config \<Rightarrow> nat \<Rightarrow> ('n, unit) wired" where
  "sleep_before_retry tr cf attempt w =
     (if retry_base (cf_retry cf) attempt \<le> 0 then (Inr (), w)
      else (Inr (), w\<lparr>wi_slept := wi_slept w @ [retry_delay (cf_retry cf) (tr_random tr (length (wi_slept w))) attempt]\<rparr>))"

definition RETRYABLE_STATUS_CODES :: "int list" where
  "RETRYABLE_STATUS_CODES = [502, 503, 504]"

definition SAFE_RETRY_OPERATIONS :: "operation list" where
  "SAFE_RETRY_OPERATIONS = [Op_health, Op_stats, Op_head, Op_read, Op_verify, Op_delete]"

text \<open>
  What the \<open>except\<close> clauses let through. Content that is itself read from another node may end in an
  \<open>httpx\<close> error, which they catch like one of the request.
\<close>

definition escaping :: "transport_error \<Rightarrow> exn option" where
  "escaping err = (case err of ContentError x \<Rightarrow> if x = HttpError then None else Some x | _ \<Rightarrow> None)"

text \<open>The loop of \<open>_request\<close>; the first number counts the attempts that are left.\<close>

primrec try_request :: "nat \<Rightarrow> 'n transport \<Rightarrow> client_config \<Rightarrow> operation \<Rightarrow> http_request \<Rightarrow> nat \<Rightarrow> nat \<Rightarrow> ('n, http_response) wired" where
  "try_request 0 tr cf op q attempts attempt = raiseA (ClientE StorageNodeUnavailableError)"
| "try_request (Suc left) tr cf op q attempts attempt =
     bindA (tryA (send tr cf op q)) (\<lambda>r.
     case r of
       Inr response \<Rightarrow>
         if rs_status response \<in> set RETRYABLE_STATUS_CODES \<and> attempt < attempts
         then thenA (sleep_before_retry tr cf attempt) (try_request left tr cf op q attempts (Suc attempt))
         else retA response
     | Inl err \<Rightarrow>
         (case escaping err of
            Some x \<Rightarrow> raiseA x
          | None \<Rightarrow>
              if attempts \<le> attempt then raiseA (ClientE StorageNodeUnavailableError)
              else thenA (sleep_before_retry tr cf attempt) (try_request left tr cf op q attempts (Suc attempt))))"

definition request :: "'n transport \<Rightarrow> client_config \<Rightarrow> operation \<Rightarrow> bool \<Rightarrow> http_request \<Rightarrow> ('n, http_response) wired" where
  "request tr cf op retry q =
     (let attempts = (if retry \<and> op \<in> set SAFE_RETRY_OPERATIONS then nat (ry_attempts (cf_retry cf)) else 1) in
      try_request attempts tr cf op q attempts 1)"

section \<open>Responses\<close>

definition is_success :: "int \<Rightarrow> bool" where
  "is_success st \<longleftrightarrow> 200 \<le> st \<and> st \<le> 299"

definition response_error :: "int \<Rightarrow> client_error" where
  "response_error st =
     (if st \<in> {400, 422} then StorageNodeInvalidRequestError
      else if st \<in> set RETRYABLE_STATUS_CODES then StorageNodeUnavailableError
      else if st = 404 then StorageObjectNotFoundError
      else if st = 409 then StorageObjectAlreadyExistsError
      else if st = 507 then StorageNodeInsufficientCapacityError
      else StorageNodeProtocolError)"

definition raise_for_response :: "http_response \<Rightarrow> exn + unit" where
  "raise_for_response r = (if is_success (rs_status r) then Inr () else Inl (ClientE (response_error (rs_status r))))"

definition protocol_error :: "exn + 'a" where
  "protocol_error = Inl (ClientE StorageNodeProtocolError)"

definition expect_status :: "int \<Rightarrow> http_response \<Rightarrow> exn + unit" where
  "expect_status st r = bindE (raise_for_response r) (\<lambda>_. if rs_status r \<noteq> st then protocol_error else Inr ())"

definition json_object :: "http_response \<Rightarrow> exn + (string \<times> json) list" where
  "json_object r = (case rs_body r of JsonBody (JObj entries) \<Rightarrow> Inr entries | _ \<Rightarrow> protocol_error)"

definition required_string :: "(string \<times> json) list \<Rightarrow> string \<Rightarrow> exn + string" where
  "required_string payload name = (case map_of payload name of Some (JStr s) \<Rightarrow> if s = [] then protocol_error else Inr s | _ \<Rightarrow> protocol_error)"

definition required_nonnegative_int :: "(string \<times> json) list \<Rightarrow> string \<Rightarrow> exn + int" where
  "required_nonnegative_int payload name =
     (case map_of payload name of Some (JInt n) \<Rightarrow> if n < 0 then protocol_error else Inr n | _ \<Rightarrow> protocol_error)"

definition checksum_chars :: string where
  "checksum_chars = ''0123456789abcdefABCDEF''"

definition required_checksum :: "(string \<times> json) list \<Rightarrow> string \<Rightarrow> exn + string" where
  "required_checksum payload name =
     (case map_of payload name of
        Some (JStr s) \<Rightarrow> if length s \<noteq> 64 \<or> \<not> (\<forall>c\<in>set s. c \<in> set checksum_chars) then protocol_error else Inr (lower s)
      | _ \<Rightarrow> protocol_error)"

definition validate_identifier :: "string \<Rightarrow> exn + unit" where
  "validate_identifier s =
     (if s = [] \<or> s \<in> {''.'', ''..''} \<or> CHR ''/'' \<in> set s \<or> CHR 0x5C \<in> set s \<or> CHR 0x00 \<in> set s
      then Inl ValueError else Inr ())"

definition validate_identifiers :: "string \<Rightarrow> string \<Rightarrow> exn + unit" where
  "validate_identifiers object_id version_id = bindE (validate_identifier object_id) (\<lambda>_. validate_identifier version_id)"

definition lift :: "exn + 'a \<Rightarrow> ('n, 'a) wired" where
  "lift r = (case r of Inl x \<Rightarrow> raiseA x | Inr y \<Rightarrow> retA y)"

section \<open>Operations\<close>

definition stored_object :: "string \<Rightarrow> string \<Rightarrow> (string \<times> json) list \<Rightarrow> exn + int" where
  "stored_object object_id version_id payload =
     bindE (required_string payload ''object_id'') (\<lambda>ob.
     bindE (required_string payload ''version_id'') (\<lambda>v.
     bindE (required_nonnegative_int payload ''size_bytes'') (\<lambda>n.
     if ob \<noteq> object_id \<or> v \<noteq> version_id then protocol_error else Inr n)))"

definition client_put :: "'n transport \<Rightarrow> client_config \<Rightarrow> string \<Rightarrow> string \<Rightarrow> payload \<Rightarrow> ('n, int) wired" where
  "client_put tr cf object_id version_id p =
     thenA (lift (validate_identifiers object_id version_id))
     (bindA (request tr cf Op_write False (PutRequest object_id version_id p)) (\<lambda>response.
     lift (bindE (expect_status 201 response) (\<lambda>_.
       bindE (json_object response) (stored_object object_id version_id)))))"

text \<open>
  Opening the stream is retried; the bytes then arrive without the client's help. Another success
  status is meant to be a protocol error, but its text is taken from a body nobody has read, which
  raises in \<open>httpx\<close>.
\<close>

definition stream_payload :: "http_response \<Rightarrow> payload" where
  "stream_payload r = (case rs_body r of
     StreamBody blocks x \<Rightarrow> Payload blocks (if x = None then None else Some HttpError) | _ \<Rightarrow> Payload [] None)"

definition client_stream :: "'n transport \<Rightarrow> client_config \<Rightarrow> string \<Rightarrow> string \<Rightarrow> ('n, payload) wired" where
  "client_stream tr cf object_id version_id =
     thenA (lift (validate_identifiers object_id version_id))
     (bindA (try_request (nat (ry_attempts (cf_retry cf))) tr cf Op_read (GetRequest object_id version_id) (nat (ry_attempts (cf_retry cf))) 1) (\<lambda>response.
     lift (bindE (raise_for_response response) (\<lambda>_.
       if rs_status response \<noteq> 200 then Inl HttpError else Inr (stream_payload response)))))"

definition head_size :: "http_response \<Rightarrow> exn + int" where
  "head_size response =
     (case rs_length response of
        None \<Rightarrow> protocol_error
      | Some raw \<Rightarrow> (case int_of_string raw of
            None \<Rightarrow> protocol_error
          | Some n \<Rightarrow> if n < 0 then protocol_error else Inr n))"

definition client_head :: "'n transport \<Rightarrow> client_config \<Rightarrow> string \<Rightarrow> string \<Rightarrow> ('n, int) wired" where
  "client_head tr cf object_id version_id =
     thenA (lift (validate_identifiers object_id version_id))
     (bindA (request tr cf Op_head True (HeadRequest object_id version_id)) (\<lambda>response.
     lift (bindE (expect_status 200 response) (\<lambda>_. head_size response))))"

definition client_delete :: "'n transport \<Rightarrow> client_config \<Rightarrow> string \<Rightarrow> string \<Rightarrow> ('n, unit) wired" where
  "client_delete tr cf object_id version_id =
     thenA (lift (validate_identifiers object_id version_id))
     (bindA (request tr cf Op_delete True (DeleteRequest object_id version_id)) (\<lambda>response.
     if rs_status response = 404 then retA ()
     else lift (expect_status 204 response)))"

definition verified_of :: "string \<Rightarrow> string \<Rightarrow> bool \<Rightarrow> (string \<times> json) list \<Rightarrow> exn + verified_object" where
  "verified_of object_id version_id raise_on_invalid payload =
     (if map_of payload ''verified'' \<noteq> Some (JBool True) then protocol_error
      else bindE (case map_of payload ''valid'' of None \<Rightarrow> Inr True | Some (JBool b) \<Rightarrow> Inr b | _ \<Rightarrow> protocol_error) (\<lambda>valid.
      bindE (required_string payload ''object_id'') (\<lambda>ob.
      bindE (required_string payload ''version_id'') (\<lambda>v.
      bindE (required_nonnegative_int payload ''size_bytes'') (\<lambda>n.
      bindE (required_checksum payload ''checksum'') (\<lambda>checksum.
      if ob \<noteq> object_id \<or> v \<noteq> version_id then protocol_error
      else if \<not> valid \<and> raise_on_invalid then Inl (ClientE StorageNodeIntegrityError)
      else Inr \<lparr>vo_size = n, vo_checksum = checksum, vo_verified = True, vo_valid = valid\<rparr>))))))"

definition client_verify :: "'n transport \<Rightarrow> client_config \<Rightarrow> string \<Rightarrow> string \<Rightarrow> bool \<Rightarrow> ('n, verified_object) wired" where
  "client_verify tr cf object_id version_id raise_on_invalid =
     thenA (lift (validate_identifiers object_id version_id))
     (bindA (request tr cf Op_verify True (VerifyRequest object_id version_id)) (\<lambda>response.
     lift (bindE (expect_status 200 response) (\<lambda>_.
       bindE (json_object response) (verified_of object_id version_id raise_on_invalid)))))"

definition client_health :: "'n transport \<Rightarrow> client_config \<Rightarrow> ('n, node_health) wired" where
  "client_health tr cf =
     bindA (request tr cf Op_health True HealthRequest) (\<lambda>response.
     lift (bindE (expect_status 200 response) (\<lambda>_.
       bindE (json_object response) (\<lambda>payload.
       bindE (required_string payload ''status'') (\<lambda>st.
       bindE (required_string payload ''node_id'') (\<lambda>i.
       Inr \<lparr>nh_status = st, nh_node_id = i\<rparr>))))))"

definition client_stats :: "'n transport \<Rightarrow> client_config \<Rightarrow> ('n, node_stats) wired" where
  "client_stats tr cf =
     bindA (request tr cf Op_stats True StatsRequest) (\<lambda>response.
     lift (bindE (expect_status 200 response) (\<lambda>_.
       bindE (json_object response) (\<lambda>payload.
       bindE (required_string payload ''node_id'') (\<lambda>i.
       bindE (required_nonnegative_int payload ''capacity_bytes'') (\<lambda>c.
       bindE (required_nonnegative_int payload ''used_bytes'') (\<lambda>u.
       bindE (required_nonnegative_int payload ''free_bytes'') (\<lambda>f.
       if c < u \<or> c < f then protocol_error
       else Inr \<lparr>st_node_id = i, st_capacity = c, st_used = u, st_free = f\<rparr>))))))))"

text \<open>
  The client operations the managers receive: a client is constructed for an address, which
  validates its configuration, and then used.
\<close>

definition with_client :: "string \<Rightarrow> rat \<Rightarrow> string \<Rightarrow> (client_config \<Rightarrow> ('n, 'a) wired) \<Rightarrow> ('n, 'a) wired" where
  "with_client env_key request_timeout address f = bindA (lift (client_init env_key request_timeout address)) f"

definition node_client :: "'n transport \<Rightarrow> string \<Rightarrow> rat \<Rightarrow> 'n wire client" where
  "node_client tr env_key request_timeout =
     \<lparr>c_open = (\<lambda>a. with_client env_key request_timeout a (\<lambda>_. retA ())),
      c_put = (\<lambda>a ob v p. with_client env_key request_timeout a (\<lambda>cf. client_put tr cf ob v p)),
      c_verify = (\<lambda>a ob v b. with_client env_key request_timeout a (\<lambda>cf. client_verify tr cf ob v b)),
      c_delete = (\<lambda>a ob v. with_client env_key request_timeout a (\<lambda>cf. client_delete tr cf ob v)),
      c_stream = (\<lambda>a ob v. with_client env_key request_timeout a (\<lambda>cf. client_stream tr cf ob v)),
      c_head = (\<lambda>a ob v. with_client env_key request_timeout a (\<lambda>cf. client_head tr cf ob v)),
      c_health = (\<lambda>a. with_client env_key request_timeout a (client_health tr)),
      c_stats = (\<lambda>a. with_client env_key request_timeout a (client_stats tr))\<rparr>"

section \<open>Retries are bounded\<close>

definition policy_ok :: "retry_policy \<Rightarrow> bool" where
  "policy_ok p \<longleftrightarrow> 1 \<le> ry_attempts p \<and> 0 \<le> ry_base p \<and> ry_base p \<le> ry_max p \<and> 0 \<le> ry_jitter p \<and> ry_jitter p \<le> 1"

lemma make_retry_policy_ok: "make_retry_policy p = Inr p' \<Longrightarrow> p' = p \<and> policy_ok p"
  by (auto simp: make_retry_policy_def policy_ok_def split: if_splits)

lemma retry_delay_bounds:
  assumes "policy_ok p" "0 \<le> u" "u \<le> 1" "0 < retry_base p attempt"
  shows "0 \<le> retry_delay p u attempt" "retry_delay p u attempt \<le> ry_max p"
proof -
  let ?b = "retry_base p attempt" and ?j = "ry_jitter p"
  have j: "0 \<le> ?j" "?j \<le> 1" and m: "0 \<le> ry_max p" using assms(1) by (simp_all add: policy_ok_def)
  have "0 \<le> ?b * (1 - ?j)" using assms(4) j by simp
  moreover have "0 \<le> (?b * (1 + ?j) - ?b * (1 - ?j)) * u"
    using assms(2,4) j by (intro mult_nonneg_nonneg) (simp_all add: algebra_simps)
  ultimately show "0 \<le> retry_delay p u attempt" using m by (simp add: retry_delay_def Let_def)
  show "retry_delay p u attempt \<le> ry_max p" by (simp add: retry_delay_def Let_def)
qed

text \<open>What a run of the request loop leaves on the wire.\<close>

definition sent :: "http_request \<Rightarrow> nat \<Rightarrow> rat \<Rightarrow> 'n wire \<Rightarrow> 'n wire \<Rightarrow> bool" where
  "sent q n longest w w' \<longleftrightarrow> wi_log w' = wi_log w @ replicate n q \<and>
     (\<exists>ds. wi_slept w' = wi_slept w @ ds \<and> length ds < n \<and> (\<forall>d\<in>set ds. 0 \<le> d \<and> d \<le> longest))"

lemma sleep_run:
  fixes w :: "'n wire"
  assumes "policy_ok (cf_retry cf)" "\<forall>i. 0 \<le> tr_random tr i \<and> tr_random tr i \<le> 1"
  obtains ds where "sleep_before_retry tr cf attempt w = (Inr (), w\<lparr>wi_slept := wi_slept w @ ds\<rparr>)" "length ds \<le> 1"
    "\<forall>d\<in>set ds. 0 \<le> d \<and> d \<le> ry_max (cf_retry cf)"
proof (cases "retry_base (cf_retry cf) attempt \<le> 0")
  case True
  then show thesis using that [of "[]"] by (simp add: sleep_before_retry_def)
next
  case False
  let ?d = "retry_delay (cf_retry cf) (tr_random tr (length (wi_slept w))) attempt"
  show thesis
    by (rule that [of "[?d]"])
      (use False assms retry_delay_bounds [of "cf_retry cf" "tr_random tr (length (wi_slept w))" attempt]
        in \<open>auto simp: sleep_before_retry_def\<close>)
qed

text \<open>
  The answers to a request that is sent again and again, which of them are transient, and what an
  answer means for the caller.
\<close>

primrec nth_answer :: "'n transport \<Rightarrow> client_config \<Rightarrow> operation \<Rightarrow> http_request \<Rightarrow> nat \<Rightarrow> 'n wire \<Rightarrow> transport_error + http_response" where
  "nth_answer tr cf op q 0 w = fst (send tr cf op q w)"
| "nth_answer tr cf op q (Suc k) w = nth_answer tr cf op q k (snd (send tr cf op q w))"

definition transient :: "transport_error + http_response \<Rightarrow> bool" where
  "transient a \<longleftrightarrow> (case a of Inl err \<Rightarrow> (\<forall>x. err = ContentError x \<longrightarrow> x = HttpError) | Inr resp \<Rightarrow> rs_status resp \<in> {502, 503, 504})"

definition result_of :: "transport_error + http_response \<Rightarrow> exn + http_response" where
  "result_of a = (case a of
     Inr resp \<Rightarrow> Inr resp
   | Inl (ContentError x) \<Rightarrow> Inl (if x = HttpError then ClientE StorageNodeUnavailableError else x)
   | Inl _ \<Rightarrow> Inl (ClientE StorageNodeUnavailableError))"

lemma nth_answer_net: "wi_net w = wi_net w' \<Longrightarrow> nth_answer tr cf op q k w = nth_answer tr cf op q k w'"
proof (induction k arbitrary: w w')
  case (Suc k)
  have "wi_net (snd (send tr cf op q w)) = wi_net (snd (send tr cf op q w'))"
    using Suc.prems by (simp add: send_def split: prod.split)
  from Suc.IH [OF this] show ?case by simp
qed (simp add: send_def split: prod.split)

lemma transient_escaping: "transient (Inl err) \<longleftrightarrow> escaping err = None"
  by (auto simp: transient_def escaping_def split: transport_error.splits)

lemma result_of_escaping:
  "result_of (Inl err) = Inl (case escaping err of Some x \<Rightarrow> x | None \<Rightarrow> ClientE StorageNodeUnavailableError)"
  by (auto simp: result_of_def escaping_def split: transport_error.splits)

text \<open>\<open>n\<close> copies were sent: all answers but the last were transient, and the last one is the result.\<close>

definition settled_after :: "'n transport \<Rightarrow> client_config \<Rightarrow> operation \<Rightarrow> http_request \<Rightarrow> nat \<Rightarrow> 'n wire \<Rightarrow> exn + http_response \<Rightarrow> bool" where
  "settled_after tr cf op q n w r \<longleftrightarrow> (\<forall>k. Suc k < n \<longrightarrow> transient (nth_answer tr cf op q k w)) \<and>
     r = result_of (nth_answer tr cf op q (n - 1) w)"

lemma settled_again:
  assumes "send tr cf op q w = (a, w1)" "transient a" "wi_net w2 = wi_net w1" "1 \<le> n"
  shows "settled_after tr cf op q n w2 r \<Longrightarrow> settled_after tr cf op q (Suc n) w r"
    "nth_answer tr cf op q (Suc n - 1) w = nth_answer tr cf op q (n - 1) w2"
proof -
  have first: "nth_answer tr cf op q 0 w = a" using assms(1) by simp
  have later: "nth_answer tr cf op q (Suc k) w = nth_answer tr cf op q k w2" for k
    using assms(1) nth_answer_net [OF assms(3)] by simp
  show last: "nth_answer tr cf op q (Suc n - 1) w = nth_answer tr cf op q (n - 1) w2"
    using later [of "n - 1"] assms(4) by simp
  show "settled_after tr cf op q (Suc n) w r" if "settled_after tr cf op q n w2 r"
    unfolding settled_after_def last
  proof (intro conjI allI impI)
    fix k assume "Suc k < Suc n"
    then show "transient (nth_answer tr cf op q k w)"
      using first later assms(2) that by (cases k) (auto simp: settled_after_def simp del: nth_answer.simps)
  qed (use that in \<open>simp add: settled_after_def\<close>)
qed

lemma try_request_step:
  "try_request (Suc left) tr cf op q attempts attempt w = (case send tr cf op q w of (a, w1) \<Rightarrow>
     if transient a \<and> attempt < attempts
     then thenA (sleep_before_retry tr cf attempt) (try_request left tr cf op q attempts (Suc attempt)) w1
     else (result_of a, w1))"
proof -
  obtain a w1 where "send tr cf op q w = (a, w1)" by fastforce
  then show ?thesis
    by (cases a) (auto simp: bindA_def tryA_def retA_def raiseA_def transient_escaping transient_def [of "Inr _"] result_of_escaping
        result_of_def [of "Inr _"] RETRYABLE_STATUS_CODES_def split: option.split)
qed

lemma try_request_sent:
  assumes p: "policy_ok (cf_retry cf)" "\<forall>i. 0 \<le> tr_random tr i \<and> tr_random tr i \<le> 1"
  shows "try_request (Suc left) tr cf op q attempts attempt w = (r, w') \<Longrightarrow> attempt + left = attempts \<Longrightarrow>
    \<exists>n\<ge>1. n \<le> Suc left \<and> sent q n (ry_max (cf_retry cf)) w w' \<and> settled_after tr cf op q n w r \<and>
      (n < Suc left \<longrightarrow> \<not> transient (nth_answer tr cf op q (n - 1) w))"
proof (induction left arbitrary: attempt w)
  case (0 attempt w)
  obtain resp w1 where s: "send tr cf op q w = (resp, w1)" by (cases "send tr cf op q w")
  then have "sent q 1 (ry_max (cf_retry cf)) w w1" by (auto simp: send_def sent_def split: prod.splits)
  moreover have "w' = w1" "r = result_of resp" using 0 s unfolding try_request_step by auto
  ultimately show ?case using s by (intro exI [of _ 1]) (simp add: settled_after_def)
next
  case (Suc left attempt w)
  obtain resp w1 where s: "send tr cf op q w = (resp, w1)" by (cases "send tr cf op q w")
  then have one: "sent q 1 (ry_max (cf_retry cf)) w w1" by (auto simp: send_def sent_def split: prod.splits)
  obtain ds where ds: "sleep_before_retry tr cf attempt w1 = (Inr (), w1\<lparr>wi_slept := wi_slept w1 @ ds\<rparr>)" "length ds \<le> 1"
    "\<forall>d\<in>set ds. 0 \<le> d \<and> d \<le> ry_max (cf_retry cf)"
    by (rule sleep_run [OF p])
  let ?w2 = "w1\<lparr>wi_slept := wi_slept w1 @ ds\<rparr>"
  show ?case
  proof (cases "transient resp")
    case True
    then have r2: "try_request (Suc left) tr cf op q attempts (Suc attempt) ?w2 = (r, w')"
      using Suc.prems s ds(1) unfolding try_request_step [of "Suc left"] by (simp add: thenA_def bindA_def del: try_request.simps)
    obtain n where n: "1 \<le> n" "n \<le> Suc left" "sent q n (ry_max (cf_retry cf)) ?w2 w'" "settled_after tr cf op q n ?w2 r"
      "n < Suc left \<longrightarrow> \<not> transient (nth_answer tr cf op q (n - 1) ?w2)"
      using Suc.IH [OF r2] Suc.prems(2) by auto
    obtain es where es: "wi_slept w1 = wi_slept w" "wi_log w1 = wi_log w @ [q]" "wi_slept w' = wi_slept ?w2 @ es" "length es < n"
      "\<forall>d\<in>set es. 0 \<le> d \<and> d \<le> ry_max (cf_retry cf)" "wi_log w' = wi_log ?w2 @ replicate n q"
      using n(3) one by (auto simp: sent_def)
    then have "sent q (Suc n) (ry_max (cf_retry cf)) w w'"
      using ds(2,3) unfolding sent_def by (intro conjI exI [of _ "ds @ es"]) auto
    then show ?thesis using n settled_again [OF s True _ n(1), of ?w2] by (intro exI [of _ "Suc n"]) auto
  next
    case False
    then have "w' = w1" "r = result_of resp" using Suc.prems s unfolding try_request_step [of "Suc left"] by auto
    then show ?thesis using one s False by (intro exI [of _ 1]) (simp add: settled_after_def)
  qed
qed

lemma request_sent:
  assumes "policy_ok (cf_retry cf)" "\<forall>i. 0 \<le> tr_random tr i \<and> tr_random tr i \<le> 1" "request tr cf op retry q w = (r, w')"
    and most: "most = (if retry \<and> op \<noteq> Op_write then nat (ry_attempts (cf_retry cf)) else 1)"
  shows "\<exists>n\<ge>1. n \<le> most \<and> sent q n (ry_max (cf_retry cf)) w w' \<and> settled_after tr cf op q n w r \<and>
      (n < most \<longrightarrow> \<not> transient (nth_answer tr cf op q (n - 1) w))"
proof -
  have safe: "op \<in> set SAFE_RETRY_OPERATIONS \<longleftrightarrow> op \<noteq> Op_write" by (cases op) (simp_all add: SAFE_RETRY_OPERATIONS_def)
  have "1 \<le> most" using assms(1) most by (auto simp: policy_ok_def)
  then obtain left where left: "most = Suc left" by (cases most) auto
  have "try_request (Suc left) tr cf op q most 1 w = (r, w')"
    using assms(3) left most safe by (auto simp: request_def Let_def)
  from try_request_sent [OF assms(1,2) this] show ?thesis using left by simp
qed

lemma lift_run: "lift (Inr y) w = (Inr y, w)" "lift (Inl x) w = (Inl x, w)"
  by (simp_all add: lift_def retA_def raiseA_def)

lemma lift_frame: "lift r w = (x, w') \<Longrightarrow> w' = w"
  by (cases r) (simp_all add: lift_run)

lemma thenA_lift: "thenA (lift r) m w = (case r of Inl x \<Rightarrow> (Inl x, w) | Inr _ \<Rightarrow> m w)"
  by (cases r) (simp_all add: thenA_def bindA_def lift_run)

text \<open>
  C23. The client never sends a request more often than its policy allows: an operation that may be retried
  sends between one and \<open>max_attempts\<close> copies of the same request and stops at the first settled answer: every answer
  before the last was transient (a connection failure or a status 502, 503 or 504), the last one is settled
  unless the attempts are used up, and it is what the caller gets. Between two requests it pauses for at
  most \<open>max_delay_seconds\<close>. A PUT is sent at most once and never waits, since a lost answer does not
  show whether the node stored the version.
\<close>

theorem client_retries_bounded:
  assumes policy: "make_retry_policy (cf_retry cf) = Inr p" and random: "\<forall>i. 0 \<le> tr_random tr i \<and> tr_random tr i \<le> 1"
    and run: "request tr cf op retry q w = (r, w')" and put: "client_put tr cf ob v data w = (r2, w2)"
    and most: "most = (if retry \<and> op \<noteq> Op_write then nat (ry_attempts p) else 1)"
  shows "(\<exists>n\<ge>1. n \<le> most \<and> wi_log w' = wi_log w @ replicate n q \<and>
      (\<exists>ds. wi_slept w' = wi_slept w @ ds \<and> length ds < n \<and> (\<forall>d\<in>set ds. 0 \<le> d \<and> d \<le> ry_max p)) \<and>
      (\<forall>k. Suc k < n \<longrightarrow> transient (nth_answer tr cf op q k w)) \<and>
      (n < most \<longrightarrow> \<not> transient (nth_answer tr cf op q (n - 1) w)) \<and>
      r = result_of (nth_answer tr cf op q (n - 1) w)) \<and>
    (wi_log w2 = wi_log w \<or> wi_log w2 = wi_log w @ [PutRequest ob v data]) \<and> wi_slept w2 = wi_slept w"
proof -
  have p: "p = cf_retry cf" "policy_ok (cf_retry cf)" using make_retry_policy_ok [OF policy] by auto
  have one: "(wi_log w2 = wi_log w \<or> wi_log w2 = wi_log w @ [PutRequest ob v data]) \<and> wi_slept w2 = wi_slept w"
  proof (cases "validate_identifiers ob v")
    case (Inl x)
    then show ?thesis using put by (auto simp: client_put_def thenA_lift)
  next
    case (Inr y)
    obtain rr w1 where rr: "request tr cf Op_write False (PutRequest ob v data) w = (rr, w1)"
      by (cases "request tr cf Op_write False (PutRequest ob v data) w")
    have "w2 = w1" using put Inr rr by (cases rr) (auto simp: client_put_def thenA_lift bindA_def dest: lift_frame)
    then show ?thesis using request_sent [OF p(2) random rr refl] by (auto simp: sent_def le_Suc_eq)
  qed
  then show ?thesis using request_sent [OF p(2) random run, of most] most unfolding sent_def settled_after_def p(1) by blast
qed

section \<open>What the client returns\<close>

lemma lift_InrD: "lift r w = (Inr x, w') \<Longrightarrow> r = Inr x"
  by (cases r) (simp_all add: lift_run)

lemma required_checksum_ok: "required_checksum payload name = Inr c \<Longrightarrow> checksum_ok c"
proof -
  assume "required_checksum payload name = Inr c"
  then obtain s where s: "length s = 64" "set s \<subseteq> set checksum_chars" "c = lower s"
    by (auto simp: required_checksum_def protocol_error_def split: option.splits json.splits if_splits)
  have "\<forall>x\<in>set checksum_chars. lower_char x \<in> set hexdigits"
    by code_simp
  then show ?thesis using s by (auto simp: checksum_ok_def lower_def)
qed

lemma required_nonnegative: "required_nonnegative_int payload name = Inr n \<Longrightarrow> 0 \<le> n"
  by (auto simp: required_nonnegative_int_def protocol_error_def split: option.splits json.splits if_splits)

text \<open>
  C39. Whatever bytes a storage node answers, every value the client hands to the control plane is
  well formed: measured checksums are 64 lower-case hexadecimal digits, sizes are not negative, a
  measurement is marked verified and, unless the caller asked to see invalid versions, valid; and
  statistics have used and free space within the capacity.
\<close>

theorem client_results_typed:
  "(client_verify tr cf ob v b w = (Inr m, w1) \<longrightarrow> checksum_ok (vo_checksum m) \<and> 0 \<le> vo_size m \<and> vo_verified m \<and> (b \<longrightarrow> vo_valid m)) \<and>
   (client_stats tr cf w = (Inr st, w2) \<longrightarrow> 0 \<le> st_used st \<and> st_used st \<le> st_capacity st \<and> 0 \<le> st_free st \<and> st_free st \<le> st_capacity st) \<and>
   (client_put tr cf ob v p w = (Inr n, w3) \<longrightarrow> 0 \<le> n) \<and> (client_head tr cf ob v w = (Inr k, w4) \<longrightarrow> 0 \<le> k)"
proof (intro conjI impI)
  assume "client_verify tr cf ob v b w = (Inr m, w1)"
  then obtain payload where "verified_of ob v b payload = Inr m"
    unfolding client_verify_def by (elim thenA_InrE bindA_InrE) (auto dest!: lift_InrD simp: bindE_Inr_iff)
  then obtain n c valid where m: "required_nonnegative_int payload ''size_bytes'' = Inr n" "required_checksum payload ''checksum'' = Inr c"
    "m = \<lparr>vo_size = n, vo_checksum = c, vo_verified = True, vo_valid = valid\<rparr>" "b \<longrightarrow> valid"
    by (auto simp: verified_of_def bindE_Inr_iff protocol_error_def split: if_splits)
  then show "checksum_ok (vo_checksum m)" "0 \<le> vo_size m" "vo_verified m"
    using required_checksum_ok required_nonnegative by simp_all
  show "vo_valid m" if b using m that by simp
next
  assume "client_stats tr cf w = (Inr st, w2)"
  then obtain i c u f payload where "required_nonnegative_int payload ''used_bytes'' = Inr u" "required_nonnegative_int payload ''free_bytes'' = Inr f"
    "u \<le> c" "f \<le> c" "st = \<lparr>st_node_id = i, st_capacity = c, st_used = u, st_free = f\<rparr>"
    unfolding client_stats_def by (elim bindA_InrE) (auto dest!: lift_InrD simp: bindE_Inr_iff protocol_error_def split: if_splits)
  then show "0 \<le> st_used st" "st_used st \<le> st_capacity st" "0 \<le> st_free st" "st_free st \<le> st_capacity st"
    using required_nonnegative by simp_all
next
  assume "client_put tr cf ob v p w = (Inr n, w3)"
  then obtain payload where "stored_object ob v payload = Inr n"
    unfolding client_put_def by (elim thenA_InrE bindA_InrE) (auto dest!: lift_InrD simp: bindE_Inr_iff)
  then show "0 \<le> n" by (auto simp: stored_object_def bindE_Inr_iff protocol_error_def dest: required_nonnegative split: if_splits)
next
  assume "client_head tr cf ob v w = (Inr k, w4)"
  then obtain response where "head_size response = Inr k"
    unfolding client_head_def by (elim thenA_InrE bindA_InrE) (auto dest!: lift_InrD simp: bindE_Inr_iff)
  then show "0 \<le> k" by (auto simp: head_size_def protocol_error_def split: option.splits if_splits)
qed

section \<open>A cluster of storage nodes\<close>

text \<open>
  The transport that delivers: every address leads to the server of a node or to nobody. A PUT whose
  content breaks off reaches the server broken off and raises at the client.
\<close>

type_synonym cluster = "string \<Rightarrow> (string \<times> engine) option"

definition cluster_send :: "string \<Rightarrow> http_timeout \<Rightarrow> http_request \<Rightarrow> (transport_error, cluster, http_response) action" where
  "cluster_send address timeout q cl =
     (case cl address of
        None \<Rightarrow> (Inl RequestError, cl)
      | Some (i, e) \<Rightarrow>
          (case serve_http i q e of (response, e') \<Rightarrow>
             ((case q of PutRequest _ _ p \<Rightarrow> (case abort p of Some x \<Rightarrow> Inl (ContentError x) | None \<Rightarrow> Inr response) | _ \<Rightarrow> Inr response),
              cl(address \<mapsto> (i, e')))))"

definition cluster_transport :: "cluster transport" where
  "cluster_transport = \<lparr>tr_send = cluster_send, tr_random = (\<lambda>_. 1 / 2)\<rparr>"

definition answered :: "http_request \<Rightarrow> bool" where
  "answered q \<longleftrightarrow> (case q of PutRequest _ _ p \<Rightarrow> abort p = None | _ \<Rightarrow> True)"

text \<open>A request that is answered with no transient status is sent once.\<close>

lemma cluster_request:
  assumes node: "wi_net w (cf_address cf) = Some (i, e)" and q: "answered q" and policy: "policy_ok (cf_retry cf)"
    and resp: "serve_http i q e = (response, e')" "rs_status response \<notin> {502, 503, 504}"
  shows "request cluster_transport cf op retry q w = (Inr response,
    w\<lparr>wi_net := (wi_net w)(cf_address cf \<mapsto> (i, e')), wi_log := wi_log w @ [q]\<rparr>)"
proof -
  have send: "send cluster_transport cf op q w = (Inr response, w\<lparr>wi_net := (wi_net w)(cf_address cf \<mapsto> (i, e')), wi_log := wi_log w @ [q]\<rparr>)"
    using node q resp(1) by (cases q) (simp_all add: send_def cluster_transport_def cluster_send_def answered_def)
  have "try_request (Suc left) cluster_transport cf op q attempts attempt w = (Inr response,
      w\<lparr>wi_net := (wi_net w)(cf_address cf \<mapsto> (i, e')), wi_log := wi_log w @ [q]\<rparr>)" for left attempts attempt
    using send resp(2) by (simp add: bindA_def tryA_def retA_def RETRYABLE_STATUS_CODES_def)
  moreover have "\<exists>left. (if retry \<and> op \<in> set SAFE_RETRY_OPERATIONS then nat (ry_attempts (cf_retry cf)) else 1) = Suc left"
    using policy by (auto simp: policy_ok_def gr0_conv_Suc [symmetric])
  ultimately show ?thesis by (auto simp: request_def Let_def)
qed

lemma respond_run: "m e = (Inr y, e') \<Longrightarrow> respond m h f e = (f y, e')" "m e = (Inl x, e') \<Longrightarrow> respond m h f e = (h x, e')"
  by (simp_all add: respond_def)

lemma valid_identifiers: "valid_ids (ob, v) \<Longrightarrow> validate_identifiers ob v = Inr ()"
  by (simp add: valid_ids_def valid_id_def validate_identifiers_def validate_identifier_def)

lemma expect_simps: "rs_status r = st \<Longrightarrow> is_success st \<Longrightarrow> expect_status st r = Inr ()"
  by (simp add: expect_status_def raise_for_response_def)

definition settled :: "http_response \<Rightarrow> bool" where
  "settled r \<longleftrightarrow> rs_status r \<notin> {502, 503, 504}"

lemma settled_respond: "(\<And>x. settled (h x)) \<Longrightarrow> (\<And>y. settled (f y)) \<Longrightarrow> settled (fst (respond m h f e))"
  by (simp add: respond_def split: prod.splits sum.splits)

lemma settled_errors: "settled (read_errors x)" "settled (put_errors x)" "settled (verify_errors x)" "settled unhandled"
  using engine_error_statuses [of x] by (auto simp: settled_def unhandled_def plain_response_def)

lemma settled_plain: "st \<in> {200, 201, 204} \<Longrightarrow> settled (plain_response st body)" "settled \<lparr>rs_status = 200, rs_length = l, rs_body = b\<rparr>"
  by (auto simp: settled_def plain_response_def)

lemma serve_status: "rs_status (fst (serve_http i q e)) \<notin> {502, 503, 504}"
proof -
  have "settled (fst (serve_http i q e))"
  proof (cases q)
    case (GetRequest ob v)
    then show ?thesis by (auto simp: server_get_def settled_errors settled_plain split: prod.splits sum.splits)
  qed (simp_all add: server_health_def server_stats_def server_head_def server_put_def server_delete_def server_verify_def
      settled_respond settled_errors settled_plain)
  then show ?thesis by (simp add: settled_def)
qed

lemma sleep_net: "\<exists>w'. sleep_before_retry tr cf attempt w = (Inr (), w') \<and> wi_net w' = wi_net w"
  by (simp add: sleep_before_retry_def)

lemma cluster_request_none:
  assumes none: "wi_net w (cf_address cf) = None"
  shows "\<exists>x w'. try_request left cluster_transport cf op q attempts attempt w = (Inl x, w') \<and> wi_net w' = wi_net w"
  using none
proof (induction left arbitrary: attempt w)
  case (Suc left)
  have send: "send cluster_transport cf op q w = (Inl RequestError, w\<lparr>wi_log := wi_log w @ [q]\<rparr>)"
    using Suc.prems by (simp add: send_def cluster_transport_def cluster_send_def)
  obtain w2 where w2: "sleep_before_retry cluster_transport cf attempt (w\<lparr>wi_log := wi_log w @ [q]\<rparr>) = (Inr (), w2)" "wi_net w2 = wi_net w"
    using sleep_net [of cluster_transport cf attempt "w\<lparr>wi_log := wi_log w @ [q]\<rparr>"] by auto
  obtain x w' where "try_request left cluster_transport cf op q attempts (Suc attempt) w2 = (Inl x, w')" "wi_net w' = wi_net w"
    using Suc.IH [of w2 "Suc attempt"] w2(2) Suc.prems by auto
  then show ?case using w2(1) by (simp add: bindA_def tryA_def send raiseA_def thenA_def escaping_def)
qed (simp add: raiseA_def)

text \<open>What no request but a deletion changes.\<close>

definition cluster_grown :: "cluster \<Rightarrow> cluster \<Rightarrow> bool" where
  "cluster_grown cl cl' \<longleftrightarrow> (\<forall>a. cl a = None \<longrightarrow> cl' a = None) \<and>
     (\<forall>a i e. cl a = Some (i, e) \<longrightarrow> (\<exists>t. cl' a = Some (i, t) \<and> grown e t))"

lemma cluster_grownD: "cluster_grown cl cl' \<Longrightarrow> cl' a = Some (i, t) \<Longrightarrow> \<exists>e. cl a = Some (i, e) \<and> grown e t"
  unfolding cluster_grown_def by (cases "cl a") force+

lemma send_grown:
  assumes "cluster_grown cl (wi_net w)" "\<forall>ob v. q \<noteq> DeleteRequest ob v"
  shows "cluster_grown cl (wi_net (snd (send cluster_transport cf op q w)))"
proof (cases "wi_net w (cf_address cf)")
  case None
  then show ?thesis using assms(1) by (simp add: send_def cluster_transport_def cluster_send_def)
next
  case (Some x)
  obtain i e where x: "x = (i, e)" by (cases x)
  obtain r t where run: "serve_http i q e = (r, t)" by (cases "serve_http i q e")
  obtain e0 where e0: "cl (cf_address cf) = Some (i, e0)" "grown e0 e"
    using cluster_grownD [OF assms(1), of "cf_address cf" i e] Some x by auto
  then have "grown e t" using serve_http_grown [OF _ assms(2), of e i] run by (simp add: grown_def)
  then have "grown e0 t" using e0(2) grown_trans by blast
  moreover have "wi_net (snd (send cluster_transport cf op q w)) = (wi_net w)(cf_address cf \<mapsto> (i, t))"
    using Some x run by (simp add: send_def cluster_transport_def cluster_send_def)
  ultimately show ?thesis using assms(1) e0(1) unfolding cluster_grown_def by auto
qed

abbreviation net_grown :: "cluster \<Rightarrow> cluster wire \<Rightarrow> bool" where
  "net_grown cl w \<equiv> cluster_grown cl (wi_net w)"

lemma keeps_lift [keeps_rules]: "keeps I (lift r)"
  by (cases r) (simp_all add: lift_def keeps_rules)

lemma try_request_grown:
  assumes "\<forall>ob v. q \<noteq> DeleteRequest ob v"
  shows "keeps (net_grown cl) (try_request left cluster_transport cf op q attempts attempt)"
proof (induction left arbitrary: attempt)
  case (Suc left)
  have "keeps (net_grown cl) (send cluster_transport cf op q)" using send_grown assms by (auto simp: keeps_def)
  moreover have "keeps (net_grown cl) (sleep_before_retry cluster_transport cf attempt)"
    by (auto simp: keeps_def sleep_before_retry_def)
  ultimately show ?case
    using Suc by (auto intro!: keeps_bindA keeps_tryA keeps_thenA keeps_raiseA keeps_retA split: sum.splits option.splits)
qed (simp add: keeps_rules)

lemma client_calls_grown [keeps_rules]:
  "keeps (net_grown cl) (c_open (node_client cluster_transport key t) a)"
  "keeps (net_grown cl) (c_put (node_client cluster_transport key t) a ob v p)"
  "keeps (net_grown cl) (c_verify (node_client cluster_transport key t) a ob v b)"
  "keeps (net_grown cl) (c_stream (node_client cluster_transport key t) a ob v)"
  "keeps (net_grown cl) (c_head (node_client cluster_transport key t) a ob v)"
  "keeps (net_grown cl) (c_health (node_client cluster_transport key t) a)"
  "keeps (net_grown cl) (c_stats (node_client cluster_transport key t) a)"
  unfolding node_client_def with_client_def client_put_def client_verify_def client_stream_def client_head_def client_health_def client_stats_def request_def
  by (simp_all only: Let_def client.simps, (intro keeps_rules try_request_grown; simp)+)

section \<open>The client on the cluster\<close>

lemma client_init_policy: "client_init key t a = Inr cf \<Longrightarrow> policy_ok (cf_retry cf)"
  by (auto simp: client_init_def make_client_config_def bindE_Inr_iff policy_ok_def default_retry_def Let_def split: if_splits)

lemma cluster_requestE:
  assumes run: "request cluster_transport cf op retry q w = (Inr response, w')" and policy: "policy_ok (cf_retry cf)" and q: "answered q"
  obtains i e t where "wi_net w (cf_address cf) = Some (i, e)" "serve_http i q e = (response, t)"
    "w' = w\<lparr>wi_net := (wi_net w)(cf_address cf \<mapsto> (i, t)), wi_log := wi_log w @ [q]\<rparr>"
proof (cases "wi_net w (cf_address cf)")
  case None
  let ?n = "if retry \<and> op \<in> set SAFE_RETRY_OPERATIONS then nat (ry_attempts (cf_retry cf)) else 1"
  have "\<exists>x w'. try_request ?n cluster_transport cf op q ?n 1 w = (Inl x, w') \<and> wi_net w' = wi_net w"
    by (rule cluster_request_none [OF None])
  then show thesis using run by (auto simp only: request_def Let_def)
next
  case (Some x)
  obtain i e where x: "x = (i, e)" by (cases x)
  obtain r t where "serve_http i q e = (r, t)" by (cases "serve_http i q e")
  then show thesis using that Some x run cluster_request [OF _ q policy, of w i e r t op retry] serve_status [of i q e] by auto
qed

lemma lift_Inr: "lift r w = (Inr x, w') \<Longrightarrow> r = Inr x \<and> w' = w"
  by (cases r) (simp_all add: lift_run)

lemma verify_errors_not_ok: "rs_status (verify_errors x) \<noteq> 200"
  using engine_error_statuses(3) [of x] by auto

lemma lower_sha256: "lower (sha256 m) = sha256 m"
proof -
  have "is_sha256 (Some (JStr (sha256 m)))" by (rule is_sha256_digest)
  then show ?thesis by (simp add: is_sha256_def)
qed

text \<open>A measurement that calls a version valid describes bytes the node holds.\<close>

lemma verify_on_cluster:
  assumes run: "client_verify cluster_transport cf ob v b w = (Inr m, w')" and valid: "vo_valid m" and policy: "policy_ok (cf_retry cf)"
    and ok: "\<forall>i e. wi_net w (cf_address cf) = Some (i, e) \<longrightarrow> engine_ok e"
  shows "\<exists>i e data. wi_net w' (cf_address cf) = Some (i, e) \<and> intact e (ob, v) data \<and> vo_checksum m = sha256 data \<and> vo_size m = int (length data)"
proof -
  obtain response payload where rq: "request cluster_transport cf Op_verify True (VerifyRequest ob v) w = (Inr response, w')"
    and st: "expect_status 200 response = Inr ()" and js: "json_object response = Inr payload" and m: "verified_of ob v b payload = Inr m"
    using run unfolding client_verify_def by (elim thenA_InrE bindA_InrE) (auto dest!: lift_Inr simp: bindE_Inr_iff)
  obtain i e t where i: "wi_net w (cf_address cf) = Some (i, e)" "serve_http i (VerifyRequest ob v) e = (response, t)"
    "wi_net w' (cf_address cf) = Some (i, t)"
    by (rule cluster_requestE [OF rq policy]) (simp_all add: answered_def)
  have good: "rs_status response = 200" using st by (auto simp: expect_status_def bindE_Inr_iff protocol_error_def split: if_splits)
  obtain r where r: "verify ob v e = (Inr r, t)" "response = plain_response 200 (JsonBody (verify_body r))"
    using i(2) good verify_errors_not_ok
    by (auto simp: server_verify_def respond_def split: prod.splits sum.splits)
  have p: "payload = (case verify_body r of JObj entries \<Rightarrow> entries | _ \<Rightarrow> [])"
    using js r(2) by (simp add: json_object_def plain_response_def verify_body_def)
  obtain c where c: "vr_checksum r = Some c" "vo_checksum m = lower c" "vo_size m = int (vr_size r)" "vr_valid r"
    using m valid unfolding p verify_body_def
    by (auto simp: verified_of_def bindE_Inr_iff protocol_error_def required_checksum_def required_nonnegative_int_def split: if_splits option.splits)
  obtain data where data: "intact e (ob, v) data" "vr_checksum r = Some (sha256 data)" "vr_size r = length data"
    using verify_valid_intact [OF r(1) c(4)] by blast
  have "grown e t" using serve_http_grown [of e "VerifyRequest ob v" i] i ok by simp
  then show ?thesis using grown_intact [OF _ data(1)] data(2,3) c i(3) lower_sha256 by auto
qed

lemma stream_on_cluster:
  assumes i: "wi_net w (cf_address cf) = Some (i, e)" and data: "intact e (ob, v) data" and io: "io_works e" "0 < en_chunk_size e"
    and policy: "policy_ok (cf_retry cf)"
  shows "\<exists>blocks w'. client_stream cluster_transport cf ob v w = (Inr (Payload blocks None), w') \<and> concat blocks = data"
proof -
  let ?e1 = "at_io (Suc (en_io_pos e)) e"
  have size: "object_size ob v e = (Inr (int (length data)), ?e1)" by (rule intact_reads(1) [OF data io])
  have "intact ?e1 (ob, v) data" using data by (simp add: intact_def)
  then obtain blocks l where it: "iter_chunks ob v ?e1 = (Inr (blocks, None), at_io l ?e1)" "concat blocks = data"
    using intact_reads(2) [of ?e1 ob v data] io by auto
  let ?r = "\<lparr>rs_status = 200, rs_length = Some (int_digits (int (length data))), rs_body = StreamBody blocks None\<rparr>"
  have "serve_http i (GetRequest ob v) e = (?r, at_io l ?e1)" using size it(1) by (simp add: server_get_def)
  then have "request cluster_transport cf Op_read True (GetRequest ob v) w = (Inr ?r,
      w\<lparr>wi_net := (wi_net w)(cf_address cf \<mapsto> (i, at_io l ?e1)), wi_log := wi_log w @ [GetRequest ob v]\<rparr>)"
    by (intro cluster_request [OF i _ policy]) (simp_all add: answered_def)
  moreover have "validate_identifiers ob v = Inr ()" using data by (intro valid_identifiers) (simp add: intact_def)
  moreover have "client_stream cluster_transport cf ob v = thenA (lift (validate_identifiers ob v))
      (bindA (request cluster_transport cf Op_read True (GetRequest ob v)) (\<lambda>response.
       lift (bindE (raise_for_response response) (\<lambda>_.
         if rs_status response \<noteq> 200 then Inl HttpError else Inr (stream_payload response)))))"
    by (simp add: client_stream_def request_def SAFE_RETRY_OPERATIONS_def Let_def)
  ultimately show ?thesis using it(2)
    by (simp add: thenA_lift bindA_def raise_for_response_def is_success_def stream_payload_def lift_run)
qed

lemma put_on_cluster:
  assumes i: "wi_net w (cf_address cf) = Some (i, e)" and run: "write_stream ob v p e = (Inr n, t)" and fin: "abort p = None"
    and ok: "engine_ok e" and policy: "policy_ok (cf_retry cf)"
  shows "client_put cluster_transport cf ob v p w =
    (Inr (int n), w\<lparr>wi_net := (wi_net w)(cf_address cf \<mapsto> (i, t)), wi_log := wi_log w @ [PutRequest ob v p]\<rparr>)"
proof -
  let ?r = "plain_response 201 (JsonBody (JObj [(''object_id'', JStr ob), (''version_id'', JStr v), (''size_bytes'', JInt (int n))]))"
  have ids: "valid_ids (ob, v)" using write_run [OF ok] run by (simp add: write_stream_def)
  then have ne: "ob \<noteq> []" "v \<noteq> []" by (simp_all add: valid_ids_def valid_id_def)
  have "serve_http i (PutRequest ob v p) e = (?r, t)" using run by (simp add: server_put_def respond_def)
  then have "request cluster_transport cf Op_write False (PutRequest ob v p) w = (Inr ?r,
      w\<lparr>wi_net := (wi_net w)(cf_address cf \<mapsto> (i, t)), wi_log := wi_log w @ [PutRequest ob v p]\<rparr>)"
    by (intro cluster_request [OF i _ policy]) (simp_all add: answered_def fin plain_response_def)
  then show ?thesis using valid_identifiers [OF ids] ne
    by (simp add: client_put_def thenA_lift bindA_def expect_simps is_success_def plain_response_def json_object_def lift_run
        stored_object_def required_string_def required_nonnegative_int_def)
qed

lemma verify_key: "verify ob v e = (Inr r, t) \<Longrightarrow> vr_key r = (ob, v)"
  unfolding verify_def verify_layout_def Let_def
  by (auto simp: retA_def raiseA_def failed_verification_def verification_summary_def Let_def
      split: sum.splits engine_error.splits option.splits elim!: bindA_InrE)

lemma verify_stored_run:
  assumes "stores e (ob, v) data" "io_works e" "length data \<le> en_chunk_size e * MAX_VERIFY_CHUNKS"
  obtains r t where "verify ob v e = (Inr r, t)" "vr_valid r" "vr_checksum r = Some (sha256 data)" "vr_size r = length data" "vr_key r = (ob, v)"
  using verify_stored [OF assms] verify_key [of ob v e] by (metis prod.collapse)

lemma verify_stored_on_cluster:
  assumes i: "wi_net w (cf_address cf) = Some (i, e)" and st: "stores e (ob, v) data" "io_works e" "length data \<le> en_chunk_size e * MAX_VERIFY_CHUNKS"
    and policy: "policy_ok (cf_retry cf)"
  shows "\<exists>w'. client_verify cluster_transport cf ob v b w =
    (Inr \<lparr>vo_size = int (length data), vo_checksum = sha256 data, vo_verified = True, vo_valid = True\<rparr>, w')"
proof -
  obtain r t where r: "verify ob v e = (Inr r, t)" "vr_valid r" "vr_checksum r = Some (sha256 data)" "vr_size r = length data" "vr_key r = (ob, v)"
    by (rule verify_stored_run [OF st])
  let ?r = "plain_response 200 (JsonBody (verify_body r))"
  have ids: "valid_ids (ob, v)" using st(1) by (simp add: stores_def)
  then have ne: "ob \<noteq> []" "v \<noteq> []" by (simp_all add: valid_ids_def valid_id_def)
  have "serve_http i (VerifyRequest ob v) e = (?r, t)" using r(1) by (simp add: server_verify_def respond_def)
  then have rq: "request cluster_transport cf Op_verify True (VerifyRequest ob v) w = (Inr ?r,
      w\<lparr>wi_net := (wi_net w)(cf_address cf \<mapsto> (i, t)), wi_log := wi_log w @ [VerifyRequest ob v]\<rparr>)"
    by (intro cluster_request [OF i _ policy]) (simp_all add: answered_def plain_response_def)
  have "set (sha256 data) \<subseteq> set checksum_chars" "length (sha256 data) = 64"
  proof -
    have "set hexdigits \<subseteq> set checksum_chars" by code_simp
    then show "set (sha256 data) \<subseteq> set checksum_chars" "length (sha256 data) = 64" using sha256_shape [of data] by (auto simp: checksum_ok_def)
  qed
  then have sum: "required_checksum [(''object_id'', x1), (''version_id'', x2), (''size_bytes'', x3), (''checksum'', JStr (sha256 data)),
      (''verified'', x4), (''valid'', x5), (''chunk_count'', x6), (''corrupt_chunks'', x7)] ''checksum'' = Inr (sha256 data)" for x1 x2 x3 x4 x5 x6 x7
    by (auto simp: required_checksum_def lower_sha256)
  show ?thesis using rq valid_identifiers [OF ids] ne r
    by (simp add: client_verify_def thenA_lift bindA_def expect_simps is_success_def plain_response_def json_object_def lift_run verify_body_def
        verified_of_def required_string_def required_nonnegative_int_def sum)
qed

lemma digit_groups_decimal: "\<forall>c\<in>set s. is_decimal c \<Longrightarrow> digit_groups b s = (b \<or> s \<noteq> [])"
  by (induction s arbitrary: b) auto

lemma decimal_not_blank: "is_decimal c \<Longrightarrow> c \<noteq> CHR ''-'' \<and> c \<noteq> CHR ''+'' \<and> \<not> is_space c"
  by (auto simp: is_space_def Let_def)

lemma nat_digits_nonempty [simp]: "nat_digits n \<noteq> []"
  by (subst nat_digits.simps) simp

lemma int_of_digits:
  assumes "length (nat_digits n) \<le> 4300"
  shows "int_of_string (int_digits (int n)) = Some (int n)"
proof -
  let ?s = "nat_digits n"
  have dec: "\<forall>c\<in>set ?s. is_decimal c" by (rule nat_digits_decimal)
  then have plain: "strip ?s = ?s" "filter is_decimal ?s = ?s"
    using decimal_not_blank strip_no_space [of ?s] by (blast, simp)
  have "is_decimal (hd ?s)" using dec by simp
  then have "hd ?s \<noteq> CHR ''-''" "hd ?s \<noteq> CHR ''+''" using decimal_not_blank by blast+
  moreover have "digit_groups False ?s" using dec by (simp add: digit_groups_decimal)
  ultimately show ?thesis using assms
    unfolding int_of_string_def int_digits_def Let_def by (simp add: plain decimal_value_nat_digits)
qed

lemma head_on_cluster:
  assumes i: "wi_net w (cf_address cf) = Some (i, e)" and data: "intact e (ob, v) data" and io: "io_works e" "0 < en_chunk_size e"
    and policy: "policy_ok (cf_retry cf)" and digits: "length (nat_digits (length data)) \<le> 4300"
  shows "\<exists>w'. client_head cluster_transport cf ob v w = (Inr (int (length data)), w')"
proof -
  let ?e1 = "at_io (Suc (en_io_pos e)) e"
  let ?r = "\<lparr>rs_status = 200, rs_length = Some (int_digits (int (length data))), rs_body = NoBody\<rparr>"
  have "serve_http i (HeadRequest ob v) e = (?r, ?e1)" using intact_reads(1) [OF data io] by (simp add: server_head_def respond_def)
  then have "request cluster_transport cf Op_head True (HeadRequest ob v) w = (Inr ?r,
      w\<lparr>wi_net := (wi_net w)(cf_address cf \<mapsto> (i, ?e1)), wi_log := wi_log w @ [HeadRequest ob v]\<rparr>)"
    by (intro cluster_request [OF i _ policy]) (simp_all add: answered_def)
  moreover have "validate_identifiers ob v = Inr ()" using data by (intro valid_identifiers) (simp add: intact_def)
  ultimately show ?thesis
    by (simp add: client_head_def thenA_lift bindA_def expect_simps is_success_def head_size_def lift_run int_of_digits [OF digits])
qed

lemma stores_intact: "stores e k data \<Longrightarrow> intact e k data"
  unfolding intact_def
  by (rule conjI, simp add: stores_def, rule conjI, simp add: stores_def,
      rule exI [of _ "stored_dir k (en_chunk_size e) data"], rule exI [of _ "stored_entries k (en_chunk_size e) data"],
      rule exI [of _ "int (en_chunk_size e)"], rule exI [of _ "group (en_chunk_size e) data"])
    (auto simp: stores_def stored_dir_def stored_metadata_def stored_entries_def map_of_chunks concat_group)

text \<open>
  C16. The round trip over the wire. Put a version with the client to a node that has room for it:
  the client reports the number of bytes sent, and on the node it then reaches verification measures
  the SHA-256 and the length of the stream, HEAD reports the length, GET streams the same bytes, and
  no other node has changed.
\<close>

theorem client_server_roundtrip:
  assumes config: "client_init key t a = Inr cf" and node: "wi_net w (cf_address cf) = Some (i, e)"
    and engine: "engine_ok e" "io_works e" and key: "valid_ids (ob, v)" "ob \<notin> set (en_links e)" "get_dir e (ob, v) = None" "(ob, v) \<notin> set (en_inflight e)"
    and data: "abort p = None" "data = concat (chunks p)" "length data \<le> en_chunk_size e * MAX_VERIFY_CHUNKS" "length (nat_digits (length data)) \<le> 4300"
    and room: "int (length data) \<le> logical_free e" "\<forall>j. int (length data) \<le> en_disk_free e j"
  shows "\<exists>w' blocks. client_put cluster_transport cf ob v p w = (Inr (int (length data)), w') \<and>
    fst (client_verify cluster_transport cf ob v b w') =
      Inr \<lparr>vo_size = int (length data), vo_checksum = sha256 data, vo_verified = True, vo_valid = True\<rparr> \<and>
    fst (client_head cluster_transport cf ob v w') = Inr (int (length data)) \<and>
    fst (client_stream cluster_transport cf ob v w') = Inr (Payload blocks None) \<and> concat blocks = data \<and>
    (\<forall>a'. a' \<noteq> cf_address cf \<longrightarrow> wi_net w' a' = wi_net w a')"
proof -
  have policy: "policy_ok (cf_retry cf)" by (rule client_init_policy [OF config])
  obtain n t where run: "write_with False (ob, v) p e = (Inr n, t)"
    using write_completes [OF engine data(1) key(1) _ key(3,4), of False] key(2) room data(2) by auto
  note wr = write_run [OF engine(1) run]
  have n: "n = length data" "stores t (ob, v) data" "io_works t" "en_chunk_size t = en_chunk_size e" "0 < en_chunk_size t"
    using wr engine data(2) by (simp_all add: stores_def engine_ok_def)
  let ?w = "w\<lparr>wi_net := (wi_net w)(cf_address cf \<mapsto> (i, t)), wi_log := wi_log w @ [PutRequest ob v p]\<rparr>"
  have put: "client_put cluster_transport cf ob v p w = (Inr (int (length data)), ?w)"
    using put_on_cluster [OF node _ data(1) engine(1) policy, of ob v n t] run n(1) by (simp add: write_stream_def)
  have net: "wi_net ?w (cf_address cf) = Some (i, t)" by simp
  obtain blocks w1 where "client_stream cluster_transport cf ob v ?w = (Inr (Payload blocks None), w1)" "concat blocks = data"
    using stream_on_cluster [OF net stores_intact [OF n(2)] n(3,5) policy] by blast
  moreover obtain w2 where "client_head cluster_transport cf ob v ?w = (Inr (int (length data)), w2)"
    using head_on_cluster [OF net stores_intact [OF n(2)] n(3,5) policy data(4)] by blast
  moreover obtain w3 where "client_verify cluster_transport cf ob v b ?w =
      (Inr \<lparr>vo_size = int (length data), vo_checksum = sha256 data, vo_verified = True, vo_valid = True\<rparr>, w3)"
    using verify_stored_on_cluster [OF net n(2,3) _ policy, of b] data(3) n(4) by auto
  ultimately show ?thesis using put by (intro exI [of _ ?w] exI [of _ blocks]) simp
qed

definition demo_config :: client_config where
  "demo_config = \<lparr>cf_address = ''http://n1'', cf_timeout = Some 30, cf_timeouts = Some (default_timeouts (Some 30)), cf_retry = default_retry,
     cf_connections = 100, cf_keepalive = 20, cf_key = Some ''secret''\<rparr>"

definition demo_wire :: "cluster wire" where
  "demo_wire = \<lparr>wi_net = [''http://n1'' \<mapsto> (''n1'', demo_engine)], wi_log = [], wi_slept = []\<rparr>"

lemma demo_address: "check_address ''http://n1/'' = Inr ''http://n1''" "strip '' secret '' = ''secret''"
  by code_simp+

lemma demo_config: "client_init '' secret '' 30 ''http://n1/'' = Inr demo_config"
  by (simp add: client_init_def make_client_config_def demo_address Let_def make_timeouts_def default_timeouts_def demo_config_def)

theorem client_server_roundtrip_witness:
  "\<exists>w' blocks. client_put cluster_transport demo_config ''o'' ''v'' (Payload [[1, 2], [3]] None) demo_wire = (Inr 3, w') \<and>
    fst (client_stream cluster_transport demo_config ''o'' ''v'' w') = Inr (Payload blocks None) \<and> concat blocks = [1, 2, 3] \<and>
    fst (client_head cluster_transport demo_config ''o'' ''v'' w') = Inr 3"
  using client_server_roundtrip [OF demo_config, of demo_wire "''n1''" demo_engine "''o''" "''v''" "Payload [[1, 2], [3]] None" "[1, 2, 3]" True]
    demo_engine_ok(1)
  by (auto simp: demo_wire_def demo_config_def demo_engine_def valid_ids_def valid_id_def MAX_IDENTIFIER_LENGTH_def logical_free_def
      MAX_VERIFY_CHUNKS_def nat_digits.simps)

lemma demo_policy: "make_retry_policy (cf_retry demo_config) = Inr default_retry"
  by (simp add: demo_config_def make_retry_policy_def default_retry_def)

lemma demo_random: "\<forall>i. 0 \<le> tr_random cluster_transport i \<and> tr_random cluster_transport i \<le> 1"
  by (simp add: cluster_transport_def)

text \<open>Nobody answers at the address: three identical requests with two pauses.\<close>

theorem client_retries_bounded_witness:
  "\<exists>n\<ge>1. n \<le> 3 \<and> wi_log (snd (request cluster_transport demo_config Op_health True HealthRequest (demo_wire\<lparr>wi_net := Map.empty\<rparr>))) =
    replicate n HealthRequest"
proof -
  let ?w = "demo_wire\<lparr>wi_net := Map.empty\<rparr>"
  obtain r w' where run: "request cluster_transport demo_config Op_health True HealthRequest ?w = (r, w')"
    by (cases "request cluster_transport demo_config Op_health True HealthRequest ?w")
  obtain r2 w2 where put: "client_put cluster_transport demo_config [] [] (Payload [] None) ?w = (r2, w2)"
    by (cases "client_put cluster_transport demo_config [] [] (Payload [] None) ?w")
  show ?thesis using client_retries_bounded [OF demo_policy demo_random run put refl] run
    by (auto simp: default_retry_def demo_wire_def)
qed

lemma demo_stats:
  "\<exists>w'. client_stats cluster_transport demo_config demo_wire = (Inr \<lparr>st_node_id = ''n1'', st_capacity = 100, st_used = 0, st_free = 100\<rparr>, w')"
proof -
  let ?e = "demo_engine\<lparr>en_disk_pos := 1\<rparr>"
  have "serve_http ''n1'' StatsRequest demo_engine = (plain_response 200 (JsonBody (JObj
     [(''node_id'', JStr ''n1''), (''capacity_bytes'', JInt 100), (''used_bytes'', JInt 0), (''free_bytes'', JInt 100)])), ?e)"
    by (simp add: server_stats_def respond_def stats_def demo_engine_def logical_free_def)
  then have "\<exists>w'. request cluster_transport demo_config Op_stats True StatsRequest demo_wire = (Inr (plain_response 200 (JsonBody (JObj
     [(''node_id'', JStr ''n1''), (''capacity_bytes'', JInt 100), (''used_bytes'', JInt 0), (''free_bytes'', JInt 100)]))), w')"
    using cluster_request [of demo_wire demo_config "''n1''" demo_engine StatsRequest] client_init_policy [OF demo_config]
    by (simp add: demo_wire_def demo_config_def answered_def plain_response_def)
  then show ?thesis
    by (auto simp: client_stats_def bindA_def expect_simps is_success_def plain_response_def json_object_def lift_run
        required_string_def required_nonnegative_int_def)
qed

theorem client_results_typed_witness:
  "\<exists>st w'. client_stats cluster_transport demo_config demo_wire = (Inr st, w') \<and> st_capacity st = 100 \<and> st_used st \<le> st_capacity st"
proof -
  obtain w' where run: "client_stats cluster_transport demo_config demo_wire =
      (Inr \<lparr>st_node_id = ''n1'', st_capacity = 100, st_used = 0, st_free = 100\<rparr>, w')" using demo_stats by blast
  then have "st_used \<lparr>st_node_id = ''n1'', st_capacity = 100, st_used = 0, st_free = 100\<rparr> \<le> st_capacity \<lparr>st_node_id = ''n1'', st_capacity = 100, st_used = 0, st_free = 100\<rparr>"
    using client_results_typed [of cluster_transport demo_config "[]" "[]" True demo_wire
        "\<lparr>vo_size = 0, vo_checksum = [], vo_verified = True, vo_valid = True\<rparr>" demo_wire
        "\<lparr>st_node_id = ''n1'', st_capacity = 100, st_used = 0, st_free = 100\<rparr>" w' "Payload [] None" 0 demo_wire 0 demo_wire] by blast
  then show ?thesis using run by auto
qed

section \<open>Observed defects\<close>

text \<open>
  Metadata that is no object: the engine reports an invalid version without a checksum, the client
  refuses a report without a checksum as a protocol error, and the integrity check, which asks for
  invalid versions to be reported, takes it for a node that cannot be reached. The replica is never
  marked corrupted and never repaired.
\<close>

lemma broken_metadata_unmeasurable:
  assumes i: "wi_net w (cf_address cf) = Some (i, e)" and policy: "policy_ok (cf_retry cf)" and ids: "valid_ids (ob, v)" "ob \<notin> set (en_links e)"
    and d: "get_dir e (ob, v) = Some d" "\<not> vd_link d" "vd_meta d = Some (MetaFile JNull)" and io: "io_works e"
  shows "fst (client_verify cluster_transport cf ob v False w) = Inl (ClientE StorageNodeProtocolError)"
proof -
  let ?r = "failed_verification (ob, v) 0 [Metadata_Unreadable]" and ?e = "at_io (Suc (en_io_pos e)) e"
  have "verify ob v e = (Inr ?r, ?e)"
    using ids d io by (simp add: verify_def Let_def bindA_def tryA_def read_metadata_def thenA_def catchA_def gets_def io_def raiseA_def retA_def)
  then have "serve_http i (VerifyRequest ob v) e = (plain_response 200 (JsonBody (verify_body ?r)), ?e)"
    by (simp add: server_verify_def respond_def)
  then have rq: "request cluster_transport cf Op_verify True (VerifyRequest ob v) w = (Inr (plain_response 200 (JsonBody (verify_body ?r))),
      w\<lparr>wi_net := (wi_net w)(cf_address cf \<mapsto> (i, ?e)), wi_log := wi_log w @ [VerifyRequest ob v]\<rparr>)"
    by (intro cluster_request [OF i _ policy]) (simp_all add: answered_def plain_response_def)
  have ne: "ob \<noteq> []" "v \<noteq> []" using ids(1) by (simp_all add: valid_ids_def valid_id_def)
  show ?thesis using rq valid_identifiers [OF ids(1)] ne
    by (simp add: client_verify_def thenA_lift bindA_def expect_simps is_success_def plain_response_def json_object_def lift_run verify_body_def
        verified_of_def required_string_def required_nonnegative_int_def required_checksum_def failed_verification_def protocol_error_def)
qed

end
