(* ===== verification/Replication.thy ===== *)
theory Replication
  imports Storage_Client
begin

text \<open>
  \<^verbatim>\<open>replication/manager.py\<close>: place, write, verify and commit a prepared version.
  The concurrent writes of \<open>asyncio.gather\<close> run in list order; a write touches the network
  only, and each outcome, result or exception, is kept for the metadata loop that follows.
\<close>

record replication_policy =
  pol_factor :: int
  pol_write_quorum :: int
  pol_read_quorum :: int

definition replication_policy_init :: "int \<Rightarrow> int \<Rightarrow> int \<Rightarrow> exn + replication_policy" where
  "replication_policy_init factor write_quorum read_quorum =
     (if factor < 1 \<or> write_quorum < 1 \<or> read_quorum < 1 then Inl ValueError
      else if factor < write_quorum then Inl ValueError
      else if factor < read_quorum then Inl ValueError
      else Inr \<lparr>pol_factor = factor, pol_write_quorum = write_quorum, pol_read_quorum = read_quorum\<rparr>)"

record replica_write_result =
  wr_node_id :: string
  wr_status :: replica_state
  wr_verified :: bool
  wr_error :: "exn option"
  wr_checksum :: "string option"
  wr_size :: "int option"

record replication_result =
  rr_version_id :: uuid
  rr_selected :: "string list"
  rr_healthy :: "string list"
  rr_failed :: "string list"
  rr_committed :: bool

definition get_version :: "uuid \<Rightarrow> ('n, version_row) act" where
  "get_version version_id =
     bindA (query (\<lambda>d. get_version_row d version_id)) (\<lambda>version.
     case version of
       None \<Rightarrow> raiseA (VaultE (ObjectNotFound (UuidId version_id)))
     | Some v \<Rightarrow> if v_state v \<noteq> VS_PREPARING then raiseA (VaultE InvalidState) else retA v)"

definition healthy_replica_count :: "uuid \<Rightarrow> ('n, nat) act" where
  "healthy_replica_count version_id = query (\<lambda>d. healthy_count d version_id)"

definition failed_write :: "string \<Rightarrow> exn \<Rightarrow> replica_write_result" where
  "failed_write node_id e = \<lparr>wr_node_id = node_id, wr_status = RS_FAILED, wr_verified = False,
     wr_error = Some e, wr_checksum = None, wr_size = None\<rparr>"

definition write_one ::
  "'n client \<Rightarrow> (exn, 'n, payload) action \<Rightarrow> version_row \<Rightarrow> node_row \<Rightarrow>
     (exn, 'n, replica_write_result) action" where
  "write_one c payload_factory v n =
     thenA (c_open c (n_address n))
     (catchA
       (thenA
         (catchA
           (bindA payload_factory (\<lambda>p.
             thenA (c_put c (n_address n) (uuid_str (v_object_id v)) (uuid_str (v_id v)) p) (retA ())))
           (\<lambda>e. if e = ClientE StorageObjectAlreadyExistsError then retA () else raiseA e))
         (bindA (c_verify c (n_address n) (uuid_str (v_object_id v)) (uuid_str (v_id v)) True) (\<lambda>m.
           if \<not> vo_verified m \<or> \<not> vo_valid m then raiseA (ClientE StorageNodeIntegrityError)
           else if lower (vo_checksum m) \<noteq> lower (v_checksum v) then raiseA (ClientE StorageNodeIntegrityError)
           else if vo_size m \<noteq> v_size v then raiseA (ClientE StorageNodeIntegrityError)
           else retA \<lparr>wr_node_id = n_id n, wr_status = RS_HEALTHY, wr_verified = True, wr_error = None,
                  wr_checksum = Some (vo_checksum m), wr_size = Some (vo_size m)\<rparr>)))
       (\<lambda>e. if caught_errors e then retA (failed_write (n_id n) e) else raiseA e))"

text \<open>One round of the loop over the outcomes; the second component collects \<open>unexpected\<close>.\<close>

definition record_write ::
  "replica_row \<times> (exn + replica_write_result) \<Rightarrow> ('n, replica_write_result \<times> exn option) act" where
  "record_write x = (case x of (replica, Inl e) \<Rightarrow>
       thenA (transaction (set_replica_state (r_id replica) RS_FAILED))
         (retA (failed_write (r_node_id replica) e, Some e))
     | (replica, Inr result) \<Rightarrow>
       if wr_verified result then
         (case (wr_checksum result, wr_size result) of
            (Some cs, Some sz) \<Rightarrow>
              bindA now (\<lambda>t.
              thenA (transaction (mark_replica_healthy t (r_id replica) cs sz)) (retA (result, None)))
          | _ \<Rightarrow> raiseA (VaultE (VaultError INTERNAL_ERROR 500)))
       else thenA (transaction (set_replica_state (r_id replica) RS_FAILED)) (retA (result, None)))"

definition finish_version ::
  "uuid \<Rightarrow> node_row list \<Rightarrow> int \<Rightarrow> int option \<Rightarrow> replica_write_result list \<Rightarrow> ('n, replication_result) act" where
  "finish_version version_id ns quorum expected results =
     (let healthy = map wr_node_id (filter wr_verified results);
          failed = map wr_node_id (filter (\<lambda>r. \<not> wr_verified r) results) in
      if int (length healthy) < quorum
      then thenA (transaction (fail_version version_id))
             (raiseA (VaultE (VaultError INSUFFICIENT_REPLICAS 503)))
      else bindA now (\<lambda>t.
           thenA (transaction (commit_version t version_id expected))
             (retA \<lparr>rr_version_id = version_id, rr_selected = map n_id ns, rr_healthy = healthy,
                rr_failed = failed, rr_committed = True\<rparr>)))"

definition replicate_version ::
  "'n client \<Rightarrow> replication_policy \<Rightarrow> uuid \<Rightarrow> (exn, 'n, payload) action \<Rightarrow> int option \<Rightarrow> int option \<Rightarrow>
     int option \<Rightarrow> ('n, replication_result) act" where
  "replicate_version c policy version_id payload_factory replication_factor write_quorum expected =
     (let factor = (case replication_factor of None \<Rightarrow> pol_factor policy | Some f \<Rightarrow> f);
          quorum = (case write_quorum of None \<Rightarrow> pol_write_quorum policy | Some q \<Rightarrow> q) in
      if factor < 1 then raiseA ValueError
      else if quorum < 1 then raiseA ValueError
      else if factor < quorum then raiseA ValueError
      else if (case expected of None \<Rightarrow> False | Some e \<Rightarrow> e < 0) then raiseA ValueError
      else
        bindA (get_version version_id) (\<lambda>version.
        bindA (select_nodes (pol_factor policy) version_id (v_size version) (Some factor)) (\<lambda>ns.
        bindA (new_uuids (length ns)) (\<lambda>ids.
        bindA (transaction (create_replicas ids version_id (map n_id ns))) (\<lambda>rs.
        thenA (transaction (set_replica_states (map r_id rs) RS_COPYING))
        (bindA (forA (\<lambda>n. net_call (tryA (write_one c payload_factory version n))) ns) (\<lambda>pending.
        bindA (forA record_write (zip rs pending)) (\<lambda>outcomes.
          case filter (\<lambda>x. snd x \<noteq> None) outcomes of
            (_, Some e) # _ \<Rightarrow> raiseA e
          | _ \<Rightarrow> finish_version version_id ns quorum expected (map fst outcomes)))))))))"

section \<open>Preservation\<close>

lemma record_write_keeps [keeps_rules]:
  "keeps (sound d0) (record_write x)" "keeps (ahead d0) (record_write x)"
  unfolding record_write_def by (intro keeps_rules)+

lemma finish_version_keeps [keeps_rules]:
  "keeps (sound d0) (finish_version v ns q e rs)" "keeps (ahead d0) (finish_version v ns q e rs)"
  unfolding finish_version_def by (intro keeps_rules)+

lemma get_version_keeps [keeps_rules]: "keeps (sound d0) (get_version v)" "keeps (ahead d0) (get_version v)"
  unfolding get_version_def by (intro keeps_rules)+

lemma replicate_version_keeps [keeps_rules]:
  "keeps (sound d0) (replicate_version c p v pf rf wq e)"
  "keeps (ahead d0) (replicate_version c p v pf rf wq e)"
  unfolding replicate_version_def by (intro keeps_rules)+

section \<open>What a successful run has done\<close>

lemma write_one_result:
  assumes "write_one c pf v n s = (Inr r, t)"
  shows "wr_node_id r = n_id n" "wr_verified r \<Longrightarrow> wr_checksum r \<noteq> None \<and> wr_size r \<noteq> None"
  using assms unfolding write_one_def
  by (auto simp: failed_write_def retA_def raiseA_def split: if_splits
      elim!: bindA_InrE thenA_InrE catchA_InrE)

lemma write_loop:
  assumes "forA (\<lambda>n. net_call (tryA (write_one c pf v n))) ns w = (Inr outs, w')"
  shows "view w' = view w \<and> stored w' = stored w \<and> in_tx w' = in_tx w \<and>
    list_all2 (\<lambda>n out. case out of Inl _ \<Rightarrow> True | Inr r \<Rightarrow> wr_node_id r = n_id n) ns outs"
proof -
  have "(view w' = view w \<and> stored w' = stored w \<and> in_tx w' = in_tx w) \<and>
    list_all2 (\<lambda>n out. case out of Inl _ \<Rightarrow> True | Inr r \<Rightarrow> wr_node_id r = n_id n) ns outs"
    by (rule forA_induct_ok [OF assms])
      (auto simp: net_call_def tryA_def write_one_result split: prod.splits sum.splits)
  then show ?thesis by simp
qed

lemma transaction_InrD:
  assumes "transaction body w = (Inr x, w')"
  shows "body (view w) = Inr (x, view w')" "net w' = net w" "in_tx w' = in_tx w"
  using assms by (auto simp: transaction_def split: sum.splits prod.splits if_splits)

lemma transaction_InlD:
  assumes "transaction body w = (Inl e, w')"
  shows "body (view w) = Inl e" "w' = w"
  using assms by (auto simp: transaction_def split: sum.splits prod.splits)

definition marked :: "db \<Rightarrow> replica_row \<Rightarrow> bool" where
  "marked d r \<longleftrightarrow> (\<exists>q. get_replica_row d (r_id r) = Some q \<and> r_status q = RS_HEALTHY \<and>
     r_version_id q = r_version_id r \<and> r_node_id q = r_node_id r)"

definition has_row :: "db \<Rightarrow> replica_row \<Rightarrow> bool" where
  "has_row d r \<longleftrightarrow> (\<exists>q. get_replica_row d (r_id r) = Some q \<and> r_version_id q = r_version_id r \<and> r_node_id q = r_node_id r)"

definition frame_except :: "uuid set \<Rightarrow> db \<Rightarrow> db \<Rightarrow> bool" where
  "frame_except S d d' \<longleftrightarrow> objects d' = objects d \<and> versions d' = versions d \<and> nodes d' = nodes d \<and>
     (\<forall>j. j \<notin> S \<longrightarrow> get_replica_row d' j = get_replica_row d j)"

lemma marked_by_mark: "mark_replica_healthy t (r_id r) cs sz d = Inr (x, d') \<Longrightarrow> has_row d r \<Longrightarrow> marked d' r"
  using mark_replica_healthy_frame(5,6,10) by (fastforce simp: marked_def has_row_def)

lemma not_marked_by_state: "set_replica_state (r_id r) RS_FAILED d = Inr (x, d') \<Longrightarrow> marked d' r \<Longrightarrow> False"
  using set_replica_state_frame(5,6) by (fastforce simp: marked_def)

lemma has_row_by_state: "set_replica_state (r_id r) st d = Inr (x, d') \<Longrightarrow> has_row d r \<Longrightarrow> has_row d' r"
  using set_replica_state_frame(5,10) by (fastforce simp: has_row_def)

lemma has_row_by_mark: "mark_replica_healthy t (r_id r) cs sz d = Inr (x, d') \<Longrightarrow> has_row d r \<Longrightarrow> has_row d' r"
  using mark_replica_healthy_frame(5,10) by (fastforce simp: has_row_def)

lemma record_write_effect:
  assumes "record_write (r, out) w = (Inr (res, u), w')" "has_row (view w) r"
  shows "frame_except {r_id r} (view w) (view w')" "u = None \<Longrightarrow> marked (view w') r \<longleftrightarrow> wr_verified res"
    "case out of Inl e \<Rightarrow> wr_node_id res = r_node_id r \<and> \<not> wr_verified res \<and> u = Some e | Inr x \<Rightarrow> res = x"
    "has_row (view w') r"
  using assms
  by (auto simp: record_write_def frame_except_def failed_write_def retA_def raiseA_def now_def
      split: sum.splits if_splits option.splits
      elim!: bindA_InrE thenA_InrE
      dest!: transaction_InrD(1)
      dest: set_replica_state_frame(1-4) mark_replica_healthy_frame(1-4) marked_by_mark not_marked_by_state
        has_row_by_state has_row_by_mark)

lemma frame_except_trans: "frame_except S d d1 \<Longrightarrow> frame_except T d1 d2 \<Longrightarrow> frame_except (S \<union> T) d d2"
  by (auto simp: frame_except_def)

definition recorded :: "db \<Rightarrow> replica_row \<Rightarrow> replica_write_result \<times> exn option \<Rightarrow> bool" where
  "recorded d r y \<longleftrightarrow> wr_node_id (fst y) = r_node_id r \<and> has_row d r \<and> (snd y = None \<longrightarrow> (marked d r \<longleftrightarrow> wr_verified (fst y)))"

lemma recorded_frame: "recorded d r y \<Longrightarrow> get_replica_row d' (r_id r) = get_replica_row d (r_id r) \<Longrightarrow> recorded d' r y"
  by (simp add: recorded_def has_row_def marked_def)

lemma has_row_frame: "frame_except {i} d d' \<Longrightarrow> r_id r \<noteq> i \<Longrightarrow> has_row d r \<Longrightarrow> has_row d' r"
  by (simp add: frame_except_def has_row_def)

lemma record_loop:
  assumes "list_all2 (\<lambda>r out. case out of Inl _ \<Rightarrow> True | Inr x \<Rightarrow> wr_node_id x = r_node_id r) rs outs"
    "forA record_write (zip rs outs) w = (Inr ys, w')" "distinct (map r_id rs)" "\<forall>r\<in>set rs. has_row (view w) r"
  shows "frame_except (r_id ` set rs) (view w) (view w') \<and> list_all2 (recorded (view w')) rs ys"
  using assms
proof (induction rs outs arbitrary: w ys rule: list_all2_induct)
  case Nil
  then show ?case by (simp add: retA_def frame_except_def)
next
  case (Cons r rs out outs)
  from Cons.prems(1) obtain res u zs w1 where y: "record_write (r, out) w = (Inr (res, u), w1)"
    and zs: "forA record_write (zip rs outs) w1 = (Inr zs, w')" and ys: "ys = (res, u) # zs"
    by (auto elim!: forA_ConsE simp del: forA.simps)
  have row: "has_row (view w) r" using Cons.prems(3) by simp
  note e = record_write_effect [OF y row]
  have rest: "\<forall>x\<in>set rs. has_row (view w1) x"
    using Cons.prems(2,3) by (intro ballI has_row_frame [OF e(1)]) (auto, metis image_eqI)
  have IH: "frame_except (r_id ` set rs) (view w1) (view w')" "list_all2 (recorded (view w')) rs zs"
    using Cons.IH [OF zs _ rest] Cons.prems(2) by simp_all
  have "recorded (view w1) r (res, u)"
    using e(2-4) Cons.hyps(1) by (auto simp: recorded_def split: sum.splits)
  moreover have "r_id r \<notin> r_id ` set rs" using Cons.prems(2) by simp
  ultimately have "recorded (view w') r (res, u)"
    using IH(1) recorded_frame unfolding frame_except_def by blast
  moreover have "frame_except (r_id ` set (r # rs)) (view w) (view w')"
    using frame_except_trans [OF e(1) IH(1)] by simp
  ultimately show ?case using IH(2) ys by simp
qed

lemma list_all2_in1: "list_all2 P xs ys \<Longrightarrow> x \<in> set xs \<Longrightarrow> \<exists>y\<in>set ys. P x y"
  by (induction rule: list_all2_induct) auto

lemma list_all2_in2: "list_all2 P xs ys \<Longrightarrow> y \<in> set ys \<Longrightarrow> \<exists>x\<in>set xs. P x y"
  by (induction rule: list_all2_induct) auto

lemma list_all2_map_eq: "list_all2 (\<lambda>x y. f y = g x) xs ys \<Longrightarrow> map f ys = map g xs"
  by (induction rule: list_all2_induct) auto

text \<open>The stages of a successful run.\<close>

lemma replicate_stages:
  assumes "replicate_version c p vid pf rf wq e w = (Inr res, w')"
    "factor = (case rf of None \<Rightarrow> pol_factor p | Some f \<Rightarrow> f)"
    "quorum = (case wq of None \<Rightarrow> pol_write_quorum p | Some q \<Rightarrow> q)"
  obtains v ns ids rs rs' outs ys w1 w2 w3 w4 w5 w6 where
    "get_version_row (view w) vid = Some v" "v_state v = VS_PREPARING"
    "select_nodes (pol_factor p) vid (v_size v) (Some factor) (w\<lparr>in_tx := True\<rparr>) = (Inr ns, w1)"
    "new_uuids (length ns) w1 = (Inr ids, w2)"
    "transaction (create_replicas ids vid (map n_id ns)) w2 = (Inr rs, w3)"
    "transaction (set_replica_states (map r_id rs) RS_COPYING) w3 = (Inr rs', w4)"
    "forA (\<lambda>n. net_call (tryA (write_one c pf v n))) ns w4 = (Inr outs, w5)"
    "forA record_write (zip rs outs) w5 = (Inr ys, w6)" "\<forall>y\<in>set ys. snd y = None"
    "finish_version vid ns quorum e (map fst ys) w6 = (Inr res, w')"
proof -
  from assms obtain v ns ids rs rs' outs ys w1 w2 w3 w4 w5 w6 where s:
    "get_version_row (view w) vid = Some v" "v_state v = VS_PREPARING"
    "select_nodes (pol_factor p) vid (v_size v) (Some factor) (w\<lparr>in_tx := True\<rparr>) = (Inr ns, w1)"
    "new_uuids (length ns) w1 = (Inr ids, w2)"
    "transaction (create_replicas ids vid (map n_id ns)) w2 = (Inr rs, w3)"
    "transaction (set_replica_states (map r_id rs) RS_COPYING) w3 = (Inr rs', w4)"
    "forA (\<lambda>n. net_call (tryA (write_one c pf v n))) ns w4 = (Inr outs, w5)"
    "forA record_write (zip rs outs) w5 = (Inr ys, w6)"
    "(case filter (\<lambda>x. snd x \<noteq> None) ys of (_, Some e) # _ \<Rightarrow> raiseA e
          | _ \<Rightarrow> finish_version vid ns quorum e (map fst ys)) w6 = (Inr res, w')"
    unfolding replicate_version_def Let_def get_version_def query_def
    by (auto simp: retA_def raiseA_def split: if_splits option.splits elim!: bindA_InrE thenA_InrE
        simp del: forA.simps)
  have none: "filter (\<lambda>x. snd x \<noteq> None) ys = []"
  proof (rule ccontr)
    assume "filter (\<lambda>x. snd x \<noteq> None) ys \<noteq> []"
    then obtain y u zs where "filter (\<lambda>x. snd x \<noteq> None) ys = (y, u) # zs" by (metis list.exhaust surj_pair)
    moreover from this have "u \<noteq> None" by (metis (mono_tags, lifting) filter_eq_ConsD snd_conv)
    ultimately show False using s(9) by (auto simp: raiseA_def)
  qed
  then have "finish_version vid ns quorum e (map fst ys) w6 = (Inr res, w')" using s(9) by simp
  moreover have "\<forall>y\<in>set ys. snd y = None" using none by (auto simp: filter_empty_conv)
  ultimately show thesis using that s by blast
qed

lemma new_uuids_view:
  assumes "new_uuids n w = (Inr ids, w')"
  shows "view w' = view w \<and> stored w' = stored w \<and> in_tx w' = in_tx w \<and> length ids = n"
  using assms
proof (induction n arbitrary: w ids)
  case (Suc n)
  then obtain i js where "new_uuids n (w\<lparr>uuid_pos := Suc (uuid_pos w)\<rparr>) = (Inr js, w')" "ids = i # js"
    by (auto simp: retA_def new_uuid_def elim!: bindA_InrE)
  with Suc.IH [OF this(1)] show ?case by simp
qed (simp add: retA_def)

lemma select_nodes_InrD:
  assumes "select_nodes pf vid s (Some factor) w = (Inr ns, w1)" "db_inv (view w)"
  shows "view w1 = view w" "int (length ns) = factor" "distinct (map n_id ns)"
    "\<forall>n\<in>set ns. n \<in> set (nodes (view w)) \<and> strip (n_id n) = n_id n"
proof -
  have ns: "ns = candidates vid s (nat factor) (view w)" "1 \<le> factor" "view w1 = view w"
    "factor \<le> int (length (filter (placeable (view w) vid s) (nodes (view w))))"
    using assms(1) by (auto simp: select_nodes_eq Let_def split: if_splits)
  show "view w1 = view w" by (rule ns(3))
  show "int (length ns) = factor" using ns by (simp add: candidates_length)
  show "distinct (map n_id ns)" using candidates_ids_distinct [OF assms(2)] ns(1) by simp
  show "\<forall>n\<in>set ns. n \<in> set (nodes (view w)) \<and> strip (n_id n) = n_id n"
    using candidates_set [of vid s "nat factor" "view w"] assms(2) ns(1) by (auto simp: inv_defs)
qed

lemma select_nodes_healthy:
  assumes "select_nodes pf vid s (Some factor) w = (Inr ns, w1)"
  shows "\<forall>n\<in>set ns. n_status n = NS_HEALTHY"
  using assms candidates_set [of vid s "nat factor" "view w"]
  by (auto simp: select_nodes_eq Let_def placeable_def split: if_splits)

lemma finish_version_Inr:
  assumes "finish_version vid ns quorum e rs w = (Inr res, w')"
  obtains t x where "commit_version t vid e (view w) = Inr (x, view w')" "quorum \<le> int (length (filter wr_verified rs))"
    "res = \<lparr>rr_version_id = vid, rr_selected = map n_id ns, rr_healthy = map wr_node_id (filter wr_verified rs),
       rr_failed = map wr_node_id (filter (\<lambda>r. \<not> wr_verified r) rs), rr_committed = True\<rparr>"
  using assms unfolding finish_version_def
  by (auto simp: Let_def retA_def raiseA_def now_def split: if_splits elim!: bindA_InrE thenA_InrE dest!: transaction_InrD(1))

lemma marked_replica_on:
  assumes "db_inv d" "marked d r"
  shows "\<exists>q. replica_on d (r_version_id r) (r_node_id r) = Some q \<and> r_status q = RS_HEALTHY"
proof -
  from assms(2) obtain q where q: "get_replica_row d (r_id r) = Some q" "r_status q = RS_HEALTHY"
    "r_version_id q = r_version_id r" "r_node_id q = r_node_id r" by (auto simp: marked_def)
  have "replica_on d (r_version_id r) (r_node_id r) = Some q"
    unfolding replica_on_def lookup_by_Some_iff [OF db_inv_distinct(7) [OF assms(1)]]
    using lookup_by_SomeD(1) [OF q(1)] q(3,4) by simp
  with q(2) show ?thesis by blast
qed

text \<open>The replicas a successful run creates, before any node is written to.\<close>

lemma replicas_created:
  assumes inv: "db_inv (view w)" and sel: "select_nodes f vid sz (Some factor) (w\<lparr>in_tx := True\<rparr>) = (Inr ns, w1)"
    and ids: "new_uuids (length ns) w1 = (Inr ids, w2)"
    and cr: "transaction (create_replicas ids vid (map n_id ns)) w2 = (Inr rs, w3)"
    and st: "transaction (set_replica_states (map r_id rs) RS_COPYING) w3 = (Inr rs', w4)"
  shows "map r_node_id rs = map n_id ns" "\<forall>r\<in>set rs. r_version_id r = vid \<and> has_row (view w4) r" "distinct (map r_id rs)"
    "db_inv (view w4)" "frame_except (r_id ` set rs) (view w) (view w4)"
    "\<forall>r\<in>set (replicas (view w4)). r_id r \<in> r_id ` set rs \<or> r \<in> set (replicas (view w))"
proof -
  have s: "view w2 = view w" "length ids = length ns" "\<forall>n\<in>set ns. strip (n_id n) = n_id n"
    using select_nodes_InrD [OF sel] new_uuids_view [OF ids] inv by auto
  note crs = create_replicas_shape [OF transaction_InrD(1) [OF cr]]
  have rs: "rs = new_replicas ids vid (map n_id ns)" using crs(5) s(3) by (simp add: comp_def cong: map_cong)
  then show "map r_node_id rs = map n_id ns" using new_replicas_facts(1) [of ids vid "map n_id ns"] s(2) by simp
  show "distinct (map r_id rs)" by (rule crs(2))
  have inv3: "db_inv (view w3)" using create_replicas_inv [OF transaction_InrD(1) [OF cr]] s(1) inv by simp
  show "db_inv (view w4)" using set_replica_states_inv [OF transaction_InrD(1) [OF st] inv3] .
  have w4: "view w4 = batch_result (set (map r_id rs)) RS_COPYING (view w3)"
    using set_replica_states_Inr [OF inv3, of RS_COPYING "map r_id rs" "view w4"] transaction_InrD(1) [OF st] by auto
  have "get_replica_row (view w3) (r_id r) = Some r" if "r \<in> set rs" for r
    unfolding lookup_by_Some_iff [OF db_inv_distinct(6) [OF inv3]] using that by (simp add: crs(1))
  then show "\<forall>r\<in>set rs. r_version_id r = vid \<and> has_row (view w4) r"
    using new_replicas_facts(3) by (auto simp: rs has_row_def w4 batch_result_row)
  have "get_replica_row (view w3) j = get_replica_row (view w) j" if "j \<notin> r_id ` set rs" for j
  proof -
    have "lookup_by r_id j rs = None" using that by (simp add: lookup_by_None_iff)
    then show ?thesis using crs(1) s(1) by (simp add: lookup_by_append split: option.split)
  qed
  then show "frame_except (r_id ` set rs) (view w) (view w4)"
    using crs(1) s(1) by (simp add: frame_except_def w4 batch_result_row option.map_ident) (simp add: batch_result_def)
  show "\<forall>r\<in>set (replicas (view w4)). r_id r \<in> r_id ` set rs \<or> r \<in> set (replicas (view w))"
    using crs(1) s(1) by (auto simp: w4 batch_result_def)
qed

text \<open>What a successful run has done, up to the commit at its end.\<close>

lemma replicate_version_effect:
  assumes inv: "db_inv (view w)" and run: "replicate_version c p vid pf rf wq e w = (Inr res, w')"
    and factor: "factor = (case rf of None \<Rightarrow> pol_factor p | Some f \<Rightarrow> f)"
    and quorum: "quorum = (case wq of None \<Rightarrow> pol_write_quorum p | Some q \<Rightarrow> q)"
  obtains d t x where "db_inv d" "objects d = objects (view w)" "versions d = versions (view w)" "nodes d = nodes (view w)"
    "commit_version t vid e d = Inr (x, view w')"
    "int (length (rr_selected res)) = factor" "distinct (rr_selected res)" "set (rr_healthy res) \<union> set (rr_failed res) = set (rr_selected res)"
    "quorum \<le> int (length (rr_healthy res))" "distinct (rr_healthy res)" "set (rr_selected res) \<subseteq> n_id ` {n \<in> set (nodes d). n_status n = NS_HEALTHY}"
    "\<forall>n\<in>set (rr_healthy res). \<exists>r. replica_on d vid n = Some r \<and> r_status r = RS_HEALTHY"
    "\<forall>r\<in>set (replicas d). r_version_id r = vid \<and> r_status r = RS_HEALTHY \<longrightarrow> r \<in> set (replicas (view w)) \<or> r_node_id r \<in> set (rr_healthy res)"
proof -
  obtain v ns ids rs rs' outs ys w1 w2 w3 w4 w5 w6 where s:
    "select_nodes (pol_factor p) vid (v_size v) (Some factor) (w\<lparr>in_tx := True\<rparr>) = (Inr ns, w1)"
    "new_uuids (length ns) w1 = (Inr ids, w2)" "transaction (create_replicas ids vid (map n_id ns)) w2 = (Inr rs, w3)"
    "transaction (set_replica_states (map r_id rs) RS_COPYING) w3 = (Inr rs', w4)"
    "forA (\<lambda>n. net_call (tryA (write_one c pf v n))) ns w4 = (Inr outs, w5)"
    "forA record_write (zip rs outs) w5 = (Inr ys, w6)" "\<forall>y\<in>set ys. snd y = None"
    and fin: "finish_version vid ns quorum e (map fst ys) w6 = (Inr res, w')"
    by (rule replicate_stages [OF run factor quorum])
  note cr = replicas_created [OF inv s(1-4)]
  have sel: "int (length ns) = factor" "distinct (map n_id ns)" "\<forall>n\<in>set ns. n \<in> set (nodes (view w)) \<and> n_status n = NS_HEALTHY"
    using select_nodes_InrD [OF s(1)] select_nodes_healthy [OF s(1)] inv by auto
  have w5: "view w5 = view w4" and "list_all2 (\<lambda>n out. case out of Inl _ \<Rightarrow> True | Inr r \<Rightarrow> wr_node_id r = n_id n) ns outs"
    using write_loop [OF s(5)] by auto
  then have "list_all2 (\<lambda>i out. case out of Inl _ \<Rightarrow> True | Inr x \<Rightarrow> wr_node_id x = i) (map r_node_id rs) outs"
    unfolding cr(1) by (simp add: list_all2_map1)
  then have loop: "frame_except (r_id ` set rs) (view w5) (view w6)" "list_all2 (recorded (view w6)) rs ys"
    using record_loop [OF _ s(6) cr(3)] cr(2) w5 by (auto simp: list_all2_map1)
  have inv6: "db_inv (view w6)" using ahead_run(2) [OF keeps_forA [OF record_write_keeps(2)] s(6)] cr(4) w5 by simp
  have frame: "objects (view w6) = objects (view w)" "versions (view w6) = versions (view w)" "nodes (view w6) = nodes (view w)"
    "\<forall>j. j \<notin> r_id ` set rs \<longrightarrow> get_replica_row (view w6) j = get_replica_row (view w) j"
    using loop(1) cr(5) w5 by (auto simp: frame_except_def)
  have ids_ys: "map (wr_node_id \<circ> fst) ys = map n_id ns"
    using list_all2_map_eq [of "wr_node_id \<circ> fst" r_node_id rs ys] list_all2_mono [OF loop(2)] cr(1) by (simp add: recorded_def)
  obtain t x where f: "commit_version t vid e (view w6) = Inr (x, view w')" "quorum \<le> int (length (filter wr_verified (map fst ys)))"
    "res = \<lparr>rr_version_id = vid, rr_selected = map n_id ns, rr_healthy = map wr_node_id (filter wr_verified (map fst ys)),
       rr_failed = map wr_node_id (filter (\<lambda>r. \<not> wr_verified r) (map fst ys)), rr_committed = True\<rparr>"
    by (rule finish_version_Inr [OF fin])
  have split: "set (rr_healthy res) \<union> set (rr_failed res) = set (rr_selected res)" "distinct (rr_healthy res)"
    using sel(2) unfolding f(3) ids_ys [symmetric] by (auto simp: distinct_map_filter)
  have healthy: "\<exists>r. replica_on (view w6) vid n = Some r \<and> r_status r = RS_HEALTHY" if "n \<in> set (rr_healthy res)" for n
  proof -
    from that f(3) obtain y where y: "y \<in> set ys" "wr_verified (fst y)" "n = wr_node_id (fst y)" by auto
    obtain r where "r \<in> set rs" "recorded (view w6) r y" using list_all2_in2 [OF loop(2) y(1)] by blast
    then show ?thesis using marked_replica_on [OF inv6, of r] s(7) y cr(2) by (auto simp: recorded_def)
  qed
  have only: "r \<in> set (replicas (view w)) \<or> r_node_id r \<in> set (rr_healthy res)"
    if r: "r \<in> set (replicas (view w6))" "r_version_id r = vid" "r_status r = RS_HEALTHY" for r
  proof -
    have row: "get_replica_row (view w6) (r_id r) = Some r"
      unfolding lookup_by_Some_iff [OF db_inv_distinct(6) [OF inv6]] using r(1) by simp
    show ?thesis
    proof (cases "r_id r \<in> r_id ` set rs")
      case True
      then obtain k where k: "k < length rs" "r_id (rs ! k) = r_id r" by (auto simp: in_set_conv_nth)
      then have rec: "recorded (view w6) (rs ! k) (ys ! k)" "k < length ys" using loop(2) by (auto simp: list_all2_conv_all_nth)
      then have "marked (view w6) (rs ! k)" "r_node_id r = wr_node_id (fst (ys ! k))"
        using row k(2) r(3) by (auto simp: recorded_def has_row_def marked_def)
      moreover have "wr_verified (fst (ys ! k))" "fst (ys ! k) \<in> fst ` set ys"
        using rec s(7) \<open>marked (view w6) (rs ! k)\<close> by (auto simp: recorded_def)
      ultimately show ?thesis using f(3) by auto
    next
      case False
      then show ?thesis using frame(4) row lookup_by_SomeD(1) by metis
    qed
  qed
  show thesis
    by (rule that [of "view w6" t x]) (use inv6 frame f split healthy only sel in auto)
qed

text \<open>What a successful run has left alone: the nodes, the jobs, and every replica that was there.\<close>

definition jobs_are :: "db \<Rightarrow> db \<Rightarrow> bool" where
  "jobs_are d d' \<longleftrightarrow> repair_jobs d' = repair_jobs d \<and> rebalance_jobs d' = rebalance_jobs d \<and> integrity_jobs d' = integrity_jobs d"

lemma jobs_are_trans: "jobs_are d d1 \<Longrightarrow> jobs_are d1 d2 \<Longrightarrow> jobs_are d d2"
  by (simp add: jobs_are_def)

lemma record_write_jobs: "keeps (\<lambda>w. jobs_are d (view w)) (record_write x)"
proof -
  have "keeps (\<lambda>w. jobs_are d (view w)) (transaction (set_replica_state i st))"
    "keeps (\<lambda>w. jobs_are d (view w)) (transaction (mark_replica_healthy t i cs sz))" for i st t cs sz
    by (auto simp: keeps_def transaction_def jobs_are_def set_replica_state_frame mark_replica_healthy_frame split: sum.split)
  moreover have "keeps (\<lambda>w. jobs_are d (view w)) now" by (simp add: keeps_def now_def)
  ultimately show ?thesis unfolding record_write_def by (intro keeps_rules)
qed

lemma commit_version_frame:
  assumes "commit_version t vid e d = Inr (x, d')"
  shows "replicas d' = replicas d" "nodes d' = nodes d" "jobs_are d d'"
  using assms by (auto simp: commit_version_def lock_object_def result_iffs Let_def upd_object_def upd_version_def jobs_are_def split: if_splits)

lemma set_replica_states_jobs: "set_replica_states ids st d = Inr (rs, d') \<Longrightarrow> jobs_are d d'"
  by (auto simp: jobs_are_def set_replica_states_def Let_def split: if_splits)

lemma fresh_rows_added:
  assumes "db_inv d" "db_inv d'" "\<forall>j. j \<notin> r_id ` set rs \<longrightarrow> get_replica_row d' j = get_replica_row d j"
    "\<forall>r\<in>set rs. r_id r \<notin> r_id ` set (replicas d)" "\<forall>r\<in>set rs. r_version_id r = vid \<and> has_row d' r"
  shows "set (replicas d) \<subseteq> set (replicas d')" "\<forall>r\<in>set (replicas d'). r \<in> set (replicas d) \<or> r_version_id r = vid"
proof -
  have rows: "get_replica_row d (r_id r) = Some r \<longleftrightarrow> r \<in> set (replicas d)" "get_replica_row d' (r_id r) = Some r \<longleftrightarrow> r \<in> set (replicas d')" for r
    using lookup_by_Some_iff [OF db_inv_distinct(6) [OF assms(1)]] lookup_by_Some_iff [OF db_inv_distinct(6) [OF assms(2)]] by simp_all
  show "set (replicas d) \<subseteq> set (replicas d')"
  proof
    fix r assume "r \<in> set (replicas d)"
    moreover from this have "r_id r \<notin> r_id ` set rs" using assms(4) by (metis image_iff)
    ultimately show "r \<in> set (replicas d')" using assms(3) rows by metis
  qed
  show "\<forall>r\<in>set (replicas d'). r \<in> set (replicas d) \<or> r_version_id r = vid"
  proof
    fix r assume r: "r \<in> set (replicas d')"
    show "r \<in> set (replicas d) \<or> r_version_id r = vid"
    proof (cases "r_id r \<in> r_id ` set rs")
      case True
      then show ?thesis using assms(5) r rows(2) [of r] by (auto simp: has_row_def)
    next
      case False
      then show ?thesis using assms(3) r rows by metis
    qed
  qed
qed

lemma replicate_version_frame:
  assumes inv: "db_inv (view w)" and run: "replicate_version c p vid pf rf wq e w = (Inr res, w')"
  shows "nodes (view w') = nodes (view w)" "jobs_are (view w) (view w')" "set (replicas (view w)) \<subseteq> set (replicas (view w'))"
    "\<forall>r\<in>set (replicas (view w')). r \<in> set (replicas (view w)) \<or> r_version_id r = vid"
proof -
  obtain v ns ids rs rs' outs ys w1 w2 w3 w4 w5 w6 where s:
    "select_nodes (pol_factor p) vid (v_size v) (Some (case rf of None \<Rightarrow> pol_factor p | Some f \<Rightarrow> f)) (w\<lparr>in_tx := True\<rparr>) = (Inr ns, w1)"
    "new_uuids (length ns) w1 = (Inr ids, w2)" "transaction (create_replicas ids vid (map n_id ns)) w2 = (Inr rs, w3)"
    "transaction (set_replica_states (map r_id rs) RS_COPYING) w3 = (Inr rs', w4)"
    "forA (\<lambda>n. net_call (tryA (write_one c pf v n))) ns w4 = (Inr outs, w5)"
    "forA record_write (zip rs outs) w5 = (Inr ys, w6)"
    and fin: "finish_version vid ns (case wq of None \<Rightarrow> pol_write_quorum p | Some q \<Rightarrow> q) e (map fst ys) w6 = (Inr res, w')"
    by (rule replicate_stages [OF run refl refl])
  note cr = replicas_created [OF inv s(1-4)]
  have w2: "view w2 = view w" using select_nodes_InrD [OF s(1)] new_uuids_view [OF s(2)] inv by auto
  note crs = create_replicas_shape [OF transaction_InrD(1) [OF s(3)], unfolded w2]
  have w5: "view w5 = view w4" and "list_all2 (\<lambda>n out. case out of Inl _ \<Rightarrow> True | Inr r \<Rightarrow> wr_node_id r = n_id n) ns outs"
    using write_loop [OF s(5)] by auto
  then have "list_all2 (\<lambda>i out. case out of Inl _ \<Rightarrow> True | Inr x \<Rightarrow> wr_node_id x = i) (map r_node_id rs) outs"
    unfolding cr(1) by (simp add: list_all2_map1)
  then have loop: "frame_except (r_id ` set rs) (view w5) (view w6)" "list_all2 (recorded (view w6)) rs ys"
    using record_loop [OF _ s(6) cr(3)] cr(2) w5 by (auto simp: list_all2_map1)
  have inv6: "db_inv (view w6)" using ahead_run(2) [OF keeps_forA [OF record_write_keeps(2)] s(6)] cr(4) w5 by simp
  have frame: "\<forall>j. j \<notin> r_id ` set rs \<longrightarrow> get_replica_row (view w6) j = get_replica_row (view w) j" "nodes (view w6) = nodes (view w)"
    using loop(1) cr(5) w5 by (auto simp: frame_except_def)
  obtain t x where f: "commit_version t vid e (view w6) = Inr (x, view w')" by (rule finish_version_Inr [OF fin])
  have com: "replicas (view w') = replicas (view w6)" "nodes (view w') = nodes (view w6)" "jobs_are (view w6) (view w')"
    using commit_version_frame [OF f] by simp_all
  show "nodes (view w') = nodes (view w)" using com frame by simp
  have "jobs_are (view w) (view w4)"
    using set_replica_states_jobs [OF transaction_InrD(1) [OF s(4)]] crs(1) by (simp add: jobs_are_def)
  moreover have "jobs_are (view w4) (view w6)"
    using keepsD [OF keeps_forA [OF record_write_jobs] _ s(6), of "view w4"] w5 by (simp add: jobs_are_def)
  ultimately show "jobs_are (view w) (view w')" using com(3) jobs_are_trans by blast
  have "\<forall>r\<in>set rs. r_version_id r = vid \<and> has_row (view w6) r"
    using cr(2) list_all2_in1 [OF loop(2)] by (meson recorded_def)
  from fresh_rows_added [OF inv inv6 frame(1) crs(4) this]
  show "set (replicas (view w)) \<subseteq> set (replicas (view w'))"
    "\<forall>r\<in>set (replicas (view w')). r \<in> set (replicas (view w)) \<or> r_version_id r = vid" using com(1) by simp_all
qed

section \<open>Guarantees\<close>

text \<open>C8. Quorum commit: when \<open>replicate_version\<close> returns, whatever the storage nodes did, it
  selected exactly the requested number of distinct nodes, every selected node is reported
  either healthy or failed, at least a write quorum of them holds a HEALTHY replica of the
  version, and the version is COMMITTED and current.\<close>

theorem replicate_version_quorum:
  assumes "db_inv (view w)" "replicate_version c p vid pf rf wq e w = (Inr res, w')"
    "factor = (case rf of None \<Rightarrow> pol_factor p | Some f \<Rightarrow> f)"
    "quorum = (case wq of None \<Rightarrow> pol_write_quorum p | Some q \<Rightarrow> q)"
  shows "int (length (rr_selected res)) = factor \<and> distinct (rr_selected res) \<and>
    set (rr_healthy res) \<union> set (rr_failed res) = set (rr_selected res) \<and>
    quorum \<le> int (length (rr_healthy res)) \<and> distinct (rr_healthy res) \<and>
    (\<forall>n\<in>set (rr_healthy res). \<exists>r. replica_on (view w') vid n = Some r \<and> r_status r = RS_HEALTHY) \<and>
    (\<exists>x. get_version_row (view w') vid = Some x \<and> v_state x = VS_COMMITTED \<and>
       current_number (view w') (v_object_id x) = v_number x)"
proof -
  obtain d t x where d: "db_inv d" "commit_version t vid e d = Inr (x, view w')"
    "int (length (rr_selected res)) = factor" "distinct (rr_selected res)" "set (rr_healthy res) \<union> set (rr_failed res) = set (rr_selected res)"
    "quorum \<le> int (length (rr_healthy res))" "distinct (rr_healthy res)"
    "\<forall>n\<in>set (rr_healthy res). \<exists>r. replica_on d vid n = Some r \<and> r_status r = RS_HEALTHY"
    by (rule replicate_version_effect [OF assms])
  obtain y and ob :: object_row where c: "get_version_row d vid = Some y" "x = y\<lparr>v_state := VS_COMMITTED, v_committed_at := Some t\<rparr>"
    "view w' = upd_object (o_id ob) (\<lambda>x. x\<lparr>o_current_version_id := Some vid, o_state := OS_ACTIVE\<rparr>)
       (upd_version vid (\<lambda>x. x\<lparr>v_state := VS_COMMITTED, v_committed_at := Some t\<rparr>) d)"
    using d(2,1) by (rule commit_version_shape) blast
  have "\<exists>x. get_version_row (view w') vid = Some x \<and> v_state x = VS_COMMITTED \<and> current_number (view w') (v_object_id x) = v_number x"
    using c commit_current_number(1) [OF d(2,1)] by (auto simp: row_lookups)
  then show ?thesis using d(3-8) c(3) by (simp add: replica_on_def upd_object_def upd_version_def)
qed

definition uncommitted :: "uuid \<Rightarrow> 'n world \<Rightarrow> bool" where
  "uncommitted i w \<longleftrightarrow> (\<exists>x. get_version_row (view w) i = Some x \<and> v_state x \<noteq> VS_COMMITTED)"

lemma uncommitted_quiet [keeps_rules]:
  "keeps (uncommitted i) new_uuid" "keeps (uncommitted i) now" "keeps (uncommitted i) (query f)"
  "keeps (uncommitted i) (net_call m)" "keeps (uncommitted i) (from_result r)"
  by (auto simp: keeps_def uncommitted_def session_defs split: prod.split)

lemma uncommitted_uuids [keeps_rules]: "keeps (uncommitted i) (new_uuids n)"
  by (induction n) (auto intro!: keeps_rules)

lemma uncommitted_transaction:
  assumes "\<And>d x d'. body d = Inr (x, d') \<Longrightarrow> versions d' = versions d"
  shows "keeps (uncommitted i) (transaction body)"
  using assms by (auto simp: keeps_def uncommitted_def transaction_def split: sum.splits)

lemma uncommitted_replica_ops [keeps_rules]:
  "keeps (uncommitted i) (transaction (create_replicas ids v ns))"
  "keeps (uncommitted i) (transaction (set_replica_states ids st))"
  "keeps (uncommitted i) (transaction (set_replica_state r st))"
  "keeps (uncommitted i) (transaction (mark_replica_healthy t r c s))"
  by (rule uncommitted_transaction,
      auto dest: create_replicas_shape(1) set_replica_state_frame(2) mark_replica_healthy_frame(2)
        simp: set_replica_states_def Let_def split: if_splits)+

lemma uncommitted_fail [keeps_rules]: "keeps (uncommitted i) (transaction (fail_version v))"
  by (auto simp: keeps_def uncommitted_def transaction_def fail_version_def row_lookups result_iffs
      split: sum.splits prod.splits if_splits)

lemma record_write_uncommitted [keeps_rules]: "keeps (uncommitted i) (record_write x)"
  unfolding record_write_def by (intro keeps_rules)

lemma finish_version_uncommitted:
  "raises_keep (uncommitted i) (finish_version v ns q e rs)"
proof -
  have "raises_keep (uncommitted i) (transaction (commit_version t v e))" for t
    by (auto simp: raises_keep_def dest: transaction_InlD(2))
  then show ?thesis unfolding finish_version_def Let_def
    by (intro raises_if raises_bindA raises_thenA_last raises_thenA raises_raiseA keeps_rules)
qed

lemma replicate_version_uncommitted:
  "raises_keep (uncommitted i) (replicate_version c p v pf rf wq e)"
  unfolding replicate_version_def Let_def get_version_def select_nodes_def
  by (intro raises_rules keeps_rules finish_version_uncommitted)

text \<open>C28. No commit without a quorum: when \<open>replicate_version\<close> raises, for whatever reason, the
  version is not committed.\<close>

theorem replicate_version_failure:
  assumes "get_version_row (view w) vid = Some v" "v_state v \<noteq> VS_COMMITTED"
    "replicate_version c p vid pf rf wq e w = (Inl err, w')"
  shows "\<exists>x. get_version_row (view w') vid = Some x \<and> v_state x \<noteq> VS_COMMITTED"
  using raises_keepD [OF replicate_version_uncommitted _ assms(3), of vid] assms(1,2)
  by (simp add: uncommitted_def)

text \<open>A network in which the nodes listed answer.\<close>

definition demo_client :: "string list \<Rightarrow> unit client" where
  "demo_client up = \<lparr>
     c_open = (\<lambda>a. retA ()),
     c_put = (\<lambda>a ob v p. if a \<in> set up then retA (int (length (concat (chunks p))))
        else raiseA (ClientE StorageNodeUnavailableError)),
     c_verify = (\<lambda>a ob v r. if a \<in> set up
        then retA \<lparr>vo_size = 3, vo_checksum = demo_checksum, vo_verified = True, vo_valid = True\<rparr>
        else raiseA (ClientE StorageNodeUnavailableError)),
     c_delete = (\<lambda>a ob v. if a \<in> set up then retA () else raiseA (ClientE StorageNodeUnavailableError)),
     c_stream = (\<lambda>a ob v. if a \<in> set up then retA (Payload [[1, 2, 3]] None)
        else raiseA (ClientE StorageNodeUnavailableError)),
     c_head = (\<lambda>a ob v. if a \<in> set up then retA 3 else raiseA (ClientE StorageNodeUnavailableError)),
     c_health = (\<lambda>a. raiseA (ClientE StorageNodeUnavailableError)),
     c_stats = (\<lambda>a. raiseA (ClientE StorageNodeUnavailableError))\<rparr>"

lemma demo_client_simps:
  "c_open (demo_client up) = (\<lambda>a. retA ())"
  "c_put (demo_client up) a ob v p = (if a \<in> set up then retA (int (length (concat (chunks p))))
        else raiseA (ClientE StorageNodeUnavailableError))"
  "c_verify (demo_client up) a ob v r = (if a \<in> set up
        then retA \<lparr>vo_size = 3, vo_checksum = demo_checksum, vo_verified = True, vo_valid = True\<rparr>
        else raiseA (ClientE StorageNodeUnavailableError))"
  "c_delete (demo_client up) a ob v = (if a \<in> set up then retA ()
        else raiseA (ClientE StorageNodeUnavailableError))"
  "c_stream (demo_client up) a ob v = (if a \<in> set up then retA (Payload [[1, 2, 3]] None)
        else raiseA (ClientE StorageNodeUnavailableError))"
  by (simp_all add: demo_client_def)

definition demo_prepared :: "unit world" where
  "demo_prepared = demo_world (demo_copying\<lparr>replicas := []\<rparr>) ()"

lemma demo_prepared_inv: "db_inv (view demo_prepared)"
proof -
  have "demo_copying\<lparr>replicas := []\<rparr> = demo_copying\<lparr>replicas := remove_by r_id 30 (replicas demo_copying)\<rparr>"
    by (simp add: demo_copying_def new_replica_def)
  then show ?thesis using inv_remove_replica [OF demo_copying_inv, of 30]
    by (simp add: demo_prepared_def demo_world_def)
qed

definition demo_replicate :: "string list \<Rightarrow> (exn + replication_result) \<times> unit world" where
  "demo_replicate up = replicate_version (demo_client up)
     \<lparr>pol_factor = 1, pol_write_quorum = 1, pol_read_quorum = 1\<rparr> 11
     (retA (Payload [[1, 2, 3]] None)) None None (Some 1) demo_prepared"

theorem replicate_version_quorum_witness:
  "\<exists>res w'. demo_replicate [''http://n1''] = (Inr res, w') \<and> 1 \<le> int (length (rr_healthy res)) \<and>
     (\<exists>x. get_version_row (view w') 11 = Some x \<and> v_state x = VS_COMMITTED)"
proof -
  have "\<not> isl (fst (demo_replicate [''http://n1'']))"
    unfolding demo_replicate_def replicate_version_def write_one_def demo_client_simps by code_simp
  then obtain res w' where r: "demo_replicate [''http://n1''] = (Inr res, w')"
    by (metis prod.collapse sum.collapse(2))
  from replicate_version_quorum [OF demo_prepared_inv r [unfolded demo_replicate_def] refl refl] r
  show ?thesis by auto
qed

theorem replicate_version_failure_witness:
  "\<exists>e w'. demo_replicate [] = (Inl e, w') \<and>
     (\<exists>x. get_version_row (view w') 11 = Some x \<and> v_state x \<noteq> VS_COMMITTED)"
proof -
  have "isl (fst (demo_replicate []))"
    unfolding demo_replicate_def replicate_version_def write_one_def demo_client_simps by code_simp
  then obtain e w' where r: "demo_replicate [] = (Inl e, w')"
    by (metis prod.collapse sum.collapse(1))
  have "get_version_row (view demo_prepared) 11 = Some (demo_version 11 2)" by code_simp
  from replicate_version_failure [OF this _ r [unfolded demo_replicate_def]] r
  show ?thesis by (auto simp: demo_version_def)
qed

end
