(* ===== verification/Repair.thy ===== *)
theory Repair
  imports Replication
begin

text \<open>
  \<^verbatim>\<open>repair/manager.py\<close>: choosing a source and a target for an under-replicated version,
  durable repair jobs, and the copy itself: verify the source, clear the target, stream, verify
  the target, mark it healthy. Queries without \<open>ORDER BY\<close> return the first row of the table.
\<close>

section \<open>Job discipline\<close>

text \<open>
  Repair, rebalance and integrity jobs share one discipline: starting a run counts an attempt,
  a failed run goes back to PENDING until the attempts are used up, and a finished or exhausted
  job is not run again.
\<close>

definition retry_status :: "int \<Rightarrow> int \<Rightarrow> job_status" where
  "retry_status max_attempts attempts = (if max_attempts \<le> attempts then JS_FAILED else JS_PENDING)"

definition job_over :: "int \<Rightarrow> job_status \<Rightarrow> int \<Rightarrow> bool" where
  "job_over max_attempts st attempts \<longleftrightarrow>
     st = JS_SUCCEEDED \<or> (st = JS_FAILED \<and> max_attempts \<le> attempts)"

locale job_discipline =
  fixes status :: "'j \<Rightarrow> job_status" and attempts :: "'j \<Rightarrow> int"
    and start :: "'j \<Rightarrow> 'j" and settle :: "job_status \<Rightarrow> err_text option \<Rightarrow> 'j \<Rightarrow> 'j"
  assumes start_attempts: "attempts (start j) = attempts j + 1"
    and start_status: "status (start j) = JS_RUNNING"
    and settle_attempts: "attempts (settle st e j) = attempts j"
    and settle_status: "status (settle st e j) = st"
begin

text \<open>The states a job can be in between two runs.\<close>

definition settled :: "int \<Rightarrow> 'j \<Rightarrow> bool" where
  "settled m j \<longleftrightarrow> 0 \<le> attempts j \<and> attempts j \<le> m \<and> status j \<noteq> JS_RUNNING \<and>
     (status j = JS_PENDING \<longrightarrow> attempts j < m)"

lemma run_fails:
  assumes "settled m j" "\<not> job_over m (status j) (attempts j)"
  shows "settled m (settle (retry_status m (attempts (start j))) e (start j))"
    "attempts j < attempts (settle (retry_status m (attempts (start j))) e (start j))"
  using assms
  by (cases "status j"; auto simp: settled_def job_over_def retry_status_def start_attempts settle_attempts settle_status)+

lemma run_succeeds:
  assumes "settled m j" "\<not> job_over m (status j) (attempts j)"
  shows "settled m (settle JS_SUCCEEDED e (start j))"
  using assms
  by (cases "status j") (auto simp: settled_def job_over_def start_attempts settle_attempts settle_status)

end

section \<open>Sources and targets\<close>

definition repair_start :: "repair_job \<Rightarrow> repair_job" where
  "repair_start j = j\<lparr>rp_status := JS_RUNNING, rp_attempts := rp_attempts j + 1, rp_last_error := None\<rparr>"

definition repair_settle :: "job_status \<Rightarrow> err_text option \<Rightarrow> repair_job \<Rightarrow> repair_job" where
  "repair_settle st e j = j\<lparr>rp_status := st, rp_attempts := rp_attempts j + 0, rp_last_error := e\<rparr>"

interpretation repair_job: job_discipline rp_status rp_attempts repair_start repair_settle
  by unfold_locales (simp_all add: repair_start_def repair_settle_def)

definition source_order :: "replica_row \<Rightarrow> (int \<times> int) \<times> string" where
  "source_order r = ((case r_last_verified_at r of None \<Rightarrow> (0, 0) | Some t \<Rightarrow> (1, - t)), r_node_id r)"

definition has_checksum :: "replica_row \<Rightarrow> bool" where
  "has_checksum r \<longleftrightarrow> (case r_checksum r of None \<Rightarrow> False | Some c \<Rightarrow> c \<noteq> [])"

definition healthy_sources :: "uuid \<Rightarrow> db \<Rightarrow> replica_row list" where
  "healthy_sources version_id d =
     filter has_checksum (sort_key source_order
       (filter (\<lambda>r. r_version_id r = version_id \<and> r_status r = RS_HEALTHY) (replicas d)))"

definition repair_version_row :: "uuid \<Rightarrow> ('n, version_row) act" where
  "repair_version_row version_id =
     bindA (query (\<lambda>d. get_version_row d version_id)) (\<lambda>v.
     case v of None \<Rightarrow> raiseA (VaultE (ObjectNotFound (UuidId version_id))) | Some v \<Rightarrow> retA v)"

definition repair_targets :: "version_row \<Rightarrow> string list \<Rightarrow> db \<Rightarrow> node_row list" where
  "repair_targets v existing d =
     take 1 (sort_key node_order (filter (\<lambda>n. n_status n = NS_HEALTHY \<and>
       v_size v \<le> n_capacity n - n_used n \<and> n_id n \<notin> set existing) (nodes d)))"

definition target_for_version :: "version_row \<Rightarrow> replica_row option \<Rightarrow> ('n, node_row) act" where
  "target_for_version v preferred =
     (let search =
        bindA (query (\<lambda>d. map r_node_id (filter (\<lambda>r. r_version_id r = v_id v) (replicas d)))) (\<lambda>existing.
        bindA (query (repair_targets v existing)) (\<lambda>cands.
        case cands of [] \<Rightarrow> raiseA (VaultE (VaultError INSUFFICIENT_REPLICAS 503)) | n # _ \<Rightarrow> retA n)) in
      case preferred of
        None \<Rightarrow> search
      | Some p \<Rightarrow>
          bindA (query (\<lambda>d. get_node_row d (r_node_id p))) (\<lambda>node.
          case node of
            None \<Rightarrow> search
          | Some n \<Rightarrow> if n_status n = NS_HEALTHY \<and> v_size v \<le> free_bytes n then retA n else search))"

section \<open>Jobs\<close>

definition active_repair :: "uuid \<Rightarrow> string \<Rightarrow> db \<Rightarrow> repair_job option" where
  "active_repair version_id target d =
     find (\<lambda>j. rp_version_id j = version_id \<and> rp_target j = target \<and>
       rp_status j \<in> {JS_PENDING, JS_RUNNING}) (repair_jobs d)"

definition new_repair_job :: "uuid \<Rightarrow> time \<Rightarrow> uuid \<Rightarrow> string \<Rightarrow> string \<Rightarrow> string \<Rightarrow> repair_job" where
  "new_repair_job i t version_id source target reason =
     \<lparr>rp_id = i, rp_version_id = version_id, rp_source = source, rp_target = target,
      rp_reason = (if strip reason \<noteq> [] then strip reason else ''under-replicated''),
      rp_status = JS_PENDING, rp_attempts = 0, rp_last_error = None, rp_created_at = t\<rparr>"

definition repair_new_job :: "uuid \<Rightarrow> string \<Rightarrow> string \<Rightarrow> string \<Rightarrow> ('n, repair_job) act" where
  "repair_new_job version_id source target reason =
     bindA (query (active_repair version_id target)) (\<lambda>active.
     case active of
       Some j \<Rightarrow> retA j
     | None \<Rightarrow>
         bindA (query (\<lambda>d. get_node_row d source)) (\<lambda>s.
         bindA (query (\<lambda>d. get_node_row d target)) (\<lambda>t.
         if s = None then raiseA (VaultE (ObjectNotFound (TextId source)))
         else if t = None then raiseA (VaultE (ObjectNotFound (TextId target)))
         else bindA new_uuid (\<lambda>i. bindA now (\<lambda>created.
           add_commit (insert_repair (new_repair_job i created version_id source target reason)))))))"

definition repair_create_job :: "uuid \<Rightarrow> string \<Rightarrow> string \<Rightarrow> string \<Rightarrow> ('n, repair_job) act" where
  "repair_create_job version_id source target reason =
     (if source = target then
        bindA (query (\<lambda>d. replica_on d version_id target)) (\<lambda>preferred.
        case preferred of
          None \<Rightarrow> raiseA ValueError
        | Some p \<Rightarrow> if r_status p \<noteq> RS_CORRUPTED then raiseA ValueError
            else repair_new_job version_id source target reason)
      else repair_new_job version_id source target reason)"

definition schedule_for_version ::
  "int \<Rightarrow> uuid \<Rightarrow> int option \<Rightarrow> string \<Rightarrow> replica_row option \<Rightarrow> ('n, repair_job option) act" where
  "schedule_for_version default_factor version_id replication_factor reason preferred =
     (let factor = (case replication_factor of None \<Rightarrow> default_factor | Some f \<Rightarrow> f) in
      if factor < 1 then raiseA ValueError else
      bindA (repair_version_row version_id) (\<lambda>v.
      bindA (query (\<lambda>d. healthy_count d version_id)) (\<lambda>healthy.
      if factor \<le> int healthy \<and> preferred = None then retA None else
      bindA (query (healthy_sources version_id)) (\<lambda>sources.
      case sources of
        [] \<Rightarrow> raiseA (VaultE (VaultError NODE_UNAVAILABLE 503))
      | source # _ \<Rightarrow>
          bindA (target_for_version v preferred) (\<lambda>target.
          bindA (query (active_repair version_id (n_id target))) (\<lambda>existing.
          case existing of
            Some j \<Rightarrow> retA (Some j)
          | None \<Rightarrow> bindA (repair_create_job version_id (r_node_id source) (n_id target) reason)
              (\<lambda>j. retA (Some j))))))))"

definition replica_for_target :: "repair_job \<Rightarrow> ('n, replica_row) act" where
  "replica_for_target job =
     bindA (query (\<lambda>d. replica_on d (rp_version_id job) (rp_target job))) (\<lambda>found.
     bindA (case found of
         Some r \<Rightarrow> retA r
       | None \<Rightarrow> bindA new_uuid (\<lambda>i. transaction (create_replica i (rp_version_id job) (rp_target job)))) (\<lambda>r.
     if r_status r = RS_HEALTHY then raiseA (VaultE (VaultError REPAIR_IN_PROGRESS 409))
     else if r_status r \<in> {RS_PENDING, RS_CORRUPTED, RS_STALE, RS_UNAVAILABLE}
       then thenA (transaction (set_replica_state (r_id r) RS_REPAIRING)) (retA r)
     else if r_status r \<noteq> RS_REPAIRING then raiseA (VaultE (VaultError INVALID_REQUEST 409))
     else retA r))"

definition mark_repair :: "uuid \<Rightarrow> job_status \<Rightarrow> err_text option \<Rightarrow> ('n, unit) act" where
  "mark_repair repair_id st e = thenA (modify (upd_repair repair_id (repair_settle st e))) commit"

record repair_result =
  rpr_id :: uuid
  rpr_version_id :: uuid
  rpr_source :: string
  rpr_target :: string
  rpr_status :: job_status
  rpr_attempts :: int

definition repair_result_of :: "repair_job \<Rightarrow> repair_result" where
  "repair_result_of j = \<lparr>rpr_id = rp_id j, rpr_version_id = rp_version_id j, rpr_source = rp_source j,
     rpr_target = rp_target j, rpr_status = rp_status j, rpr_attempts = rp_attempts j\<rparr>"

text \<open>The job row as the session sees it; the row exists while a run is in progress.\<close>

definition live_repair :: "uuid \<Rightarrow> repair_job \<Rightarrow> ('n, repair_job) act" where
  "live_repair repair_id j = live (\<lambda>d. case get_repair_row d repair_id of None \<Rightarrow> j | Some x \<Rightarrow> x)"

definition agrees :: "verified_object \<Rightarrow> version_row \<Rightarrow> bool" where
  "agrees m v \<longleftrightarrow> vo_valid m \<and> matches_version m v"

text \<open>The body of the \<open>try\<close> block.\<close>

definition repair_copy ::
  "'n client \<Rightarrow> repair_job \<Rightarrow> version_row \<Rightarrow> node_row \<Rightarrow> node_row \<Rightarrow> replica_row \<Rightarrow> ('n, repair_result) act" where
  "repair_copy c job v source_node target_node target_replica =
     (let ob = uuid_str (v_object_id v); ve = uuid_str (v_id v) in
      bindA (net_call (c_verify c (n_address source_node) ob ve True)) (\<lambda>ms.
      if \<not> agrees ms v then raiseA (ClientE StorageNodeIntegrityError) else
      thenA (net_call (c_delete c (n_address target_node) ob ve))
      (bindA (net_call (c_stream c (n_address source_node) ob ve)) (\<lambda>p.
      thenA (net_call (c_put c (n_address target_node) ob ve p))
      (bindA (net_call (c_verify c (n_address target_node) ob ve True)) (\<lambda>mt.
      if \<not> agrees mt v then raiseA (ClientE StorageNodeIntegrityError) else
      bindA now (\<lambda>t.
      thenA (transaction (mark_replica_healthy t (r_id target_replica) (vo_checksum mt) (vo_size mt)))
      (thenA (mark_repair (rp_id job) JS_SUCCEEDED None)
      (bindA (live_repair (rp_id job) job) (\<lambda>j. retA (repair_result_of j)))))))))))"

text \<open>From the moment the run is counted: the clients, the \<open>try\<close> block and its handlers.\<close>

definition repair_attempt ::
  "'n client \<Rightarrow> int \<Rightarrow> repair_job \<Rightarrow> version_row \<Rightarrow> node_row \<Rightarrow> node_row \<Rightarrow> replica_row \<Rightarrow> ('n, repair_result) act" where
  "repair_attempt c m job v sn tn tr =
       thenA (net_call (c_open c (n_address sn)))
       (thenA (net_call (c_open c (n_address tn)))
       (catchA (repair_copy c job v sn tn tr)
         (\<lambda>e. if caught_errors e
              then bindA (live_repair (rp_id job) job) (\<lambda>j.
                   thenA (mark_repair (rp_id job) (retry_status m (rp_attempts j)) (Some (ErrExn e)))
                     (raiseA e))
              else raiseA e)))"

definition repair_run_job :: "'n client \<Rightarrow> int \<Rightarrow> uuid \<Rightarrow> ('n, repair_result) act" where
  "repair_run_job c max_attempts repair_id =
     bindA (query (\<lambda>d. get_repair_row d repair_id)) (\<lambda>found.
     case found of
       None \<Rightarrow> raiseA (VaultE (ObjectNotFound (UuidId repair_id)))
     | Some job \<Rightarrow>
       if job_over max_attempts (rp_status job) (rp_attempts job) then retA (repair_result_of job) else
       bindA (repair_version_row (rp_version_id job)) (\<lambda>v.
       bindA (query (\<lambda>d. find (\<lambda>r. r_version_id r = rp_version_id job \<and> r_node_id r = rp_source job \<and>
         r_status r = RS_HEALTHY) (replicas d))) (\<lambda>source_replica.
       if (case source_replica of None \<Rightarrow> True | Some r \<Rightarrow> \<not> has_checksum r)
       then thenA (mark_repair repair_id JS_FAILED (Some (ErrLit ''Verified healthy source replica is unavailable.'')))
              (raiseA (VaultE (VaultError NODE_UNAVAILABLE 503)))
       else
       bindA (replica_for_target job) (\<lambda>target_replica.
       bindA (query (\<lambda>d. get_node_row d (rp_target job))) (\<lambda>target_node.
       bindA (query (\<lambda>d. get_node_row d (rp_source job))) (\<lambda>source_node.
       case target_node of
         None \<Rightarrow> thenA (mark_repair repair_id JS_FAILED (Some (ErrLit ''Repair source or target node missing.'')))
           (raiseA (VaultE (ObjectNotFound (TextId (rp_target job)))))
       | Some tn \<Rightarrow>
       (case source_node of
         None \<Rightarrow> thenA (mark_repair repair_id JS_FAILED (Some (ErrLit ''Repair source or target node missing.'')))
           (raiseA (VaultE (ObjectNotFound (TextId (rp_source job)))))
       | Some sn \<Rightarrow>
       if n_status tn \<noteq> NS_HEALTHY
       then thenA (mark_repair repair_id JS_FAILED (Some (ErrLit ''Repair target is not healthy.'')))
              (raiseA (VaultE (VaultError NODE_UNAVAILABLE 503)))
       else
       thenA (modify (upd_repair repair_id repair_start))
       (thenA commit (repair_attempt c max_attempts job v sn tn target_replica)))))))))"

text \<open>The loop of \<open>repair_version_until_healthy\<close>; \<open>None\<close> means that the fuel ran out.\<close>

primrec repair_loop ::
  "nat \<Rightarrow> 'n client \<Rightarrow> int \<Rightarrow> int \<Rightarrow> uuid \<Rightarrow> int \<Rightarrow> string \<Rightarrow> repair_result list \<Rightarrow>
     ('n, repair_result list option) act" where
  "repair_loop 0 c m df version_id rf reason results = retA None"
| "repair_loop (Suc fuel) c m df version_id rf reason results =
     bindA (query (\<lambda>d. healthy_count d version_id)) (\<lambda>healthy.
     if rf \<le> int healthy then retA (Some results) else
     bindA (schedule_for_version df version_id (Some rf) reason None) (\<lambda>job.
     case job of
       None \<Rightarrow> retA (Some results)
     | Some j \<Rightarrow> bindA (repair_run_job c m (rp_id j)) (\<lambda>res.
         repair_loop fuel c m df version_id rf reason (results @ [res]))))"

definition repair_version_until_healthy ::
  "nat \<Rightarrow> 'n client \<Rightarrow> int \<Rightarrow> int \<Rightarrow> uuid \<Rightarrow> int option \<Rightarrow> string \<Rightarrow> ('n, repair_result list option) act" where
  "repair_version_until_healthy fuel c m df version_id replication_factor reason =
     (case replication_factor of
        None \<Rightarrow> bindA (query (\<lambda>d. healthy_count d version_id)) (\<lambda>_. raiseA TypeError)
      | Some rf \<Rightarrow> repair_loop fuel c m df version_id rf reason [])"

section \<open>Preservation\<close>

lemma repair_update_step:
  "ctl_step d (upd_repair i repair_start d)" "ctl_step d (upd_repair i (repair_settle st e) d)"
proof -
  show "ctl_step d (upd_repair i repair_start d)"
    using ctl_repair [where n = 1 and d = d and i = i and st = JS_RUNNING and e = None] by (simp add: repair_start_def [abs_def])
  show "ctl_step d (upd_repair i (repair_settle st e) d)"
    using ctl_repair [where n = 0 and d = d and i = i and st = st and e = e] by (simp add: repair_settle_def [abs_def])
qed

lemma add_repair_keeps [keeps_rules]:
  "keeps (sound d0) (add_commit (insert_repair (new_repair_job i t v s tg r)))"
proof -
  have "(new_repair_job i t v s tg r)\<lparr>rp_attempts := 0\<rparr> = new_repair_job i t v s tg r"
    by (simp add: new_repair_job_def)
  then show ?thesis using op_insert_repair.sound_add_commit [of d0 "new_repair_job i t v s tg r"] by simp
qed

lemma repair_new_job_sound [keeps_rules]: "keeps (sound d0) (repair_new_job v s t r)"
  unfolding repair_new_job_def by (intro keeps_rules)

lemma repair_sound [keeps_rules]:
  "keeps (sound d0) (repair_version_row v)" "keeps (sound d0) (target_for_version vr p)"
  "keeps (sound d0) (repair_create_job v s t r)" "keeps (sound d0) (replica_for_target j)"
  "keeps (sound d0) (mark_repair i st e)" "keeps (sound d0) (live_repair i j)"
  unfolding repair_version_row_def target_for_version_def Let_def repair_create_job_def replica_for_target_def
    mark_repair_def live_repair_def
  by (intro keeps_rules repair_update_step)+

lemma schedule_sound [keeps_rules]: "keeps (sound d0) (schedule_for_version df v rf r p)"
  unfolding schedule_for_version_def by (intro keeps_rules)

lemma repair_run_sound [keeps_rules]: "keeps (sound d0) (repair_run_job c m i)"
  unfolding repair_run_job_def repair_attempt_def repair_copy_def by (intro keeps_rules repair_update_step)

lemma repair_loop_sound [keeps_rules]: "keeps (sound d0) (repair_loop fuel c m df v rf r rs)"
  by (induction fuel arbitrary: rs) (auto intro!: keeps_rules)

lemma repair_until_sound [keeps_rules]:
  "keeps (sound d0) (repair_version_until_healthy fuel c m df v rf r)"
  unfolding repair_version_until_healthy_def by (intro keeps_rules)

lemma repair_ahead [keeps_rules]:
  "keeps (ahead d0) (repair_version_row v)" "keeps (ahead d0) (target_for_version vr p)"
  "keeps (ahead d0) (replica_for_target j)" "keeps (ahead d0) (mark_repair i st e)"
  "keeps (ahead d0) (live_repair i j)"
  unfolding repair_version_row_def target_for_version_def Let_def replica_for_target_def mark_repair_def
    live_repair_def
  by (intro keeps_rules repair_update_step)+

lemma repair_run_ahead [keeps_rules]: "keeps (ahead d0) (repair_run_job c m i)"
  unfolding repair_run_job_def repair_attempt_def repair_copy_def by (intro keeps_rules repair_update_step)

section \<open>Counting healthy replicas\<close>

lemma healthy_count_upd:
  assumes "db_inv d" "get_replica_row d i = Some q" "\<And>x. r_version_id (f x) = r_version_id x"
  shows "healthy_count (upd_replica i f d) v + (if r_version_id q = v \<and> r_status q = RS_HEALTHY then 1 else 0) =
    healthy_count d v + (if r_version_id q = v \<and> r_status (f q) = RS_HEALTHY then 1 else 0)"
  using count_update_by [OF db_inv_distinct(6) [OF assms(1)] assms(2),
      of "\<lambda>r. r_version_id r = v \<and> r_status r = RS_HEALTHY" f]
  by (simp add: healthy_count_def upd_replica_def assms(3))

lemma set_replica_state_count:
  assumes "set_replica_state i st d = Inr (r, d')" "db_inv d" "get_replica_row d i = Some q"
    "r_status q \<noteq> RS_HEALTHY" "st \<noteq> RS_HEALTHY"
  shows "healthy_count d' v = healthy_count d v"
  using assms healthy_count_upd [OF assms(2,3), of "\<lambda>x. x\<lparr>r_status := st\<rparr>" v]
  by (auto simp: set_replica_state_def lock_replica_def split: if_splits)

lemma mark_replica_healthy_count:
  assumes "mark_replica_healthy t i c s d = Inr (r, d')" "db_inv d"
  shows "healthy_count d' (r_version_id r) = healthy_count d (r_version_id r) + 1"
  using assms(1)
proof (cases rule: mark_replica_healthy_shape)
  case (1 q vr)
  then have "get_replica_row d i = Some q" by (simp add: lock_replica_def some_or_Inr_iff)
  from healthy_count_upd [OF assms(2) this, of "\<lambda>x. x\<lparr>r_status := RS_HEALTHY, r_checksum := Some (v_checksum vr),
         r_size := Some (v_size vr), r_last_verified_at := Some t\<rparr>" "r_version_id q"] 1
  show ?thesis by auto
qed

text \<open>Healthy rows are left alone.\<close>

definition healthy_rows_kept :: "db \<Rightarrow> db \<Rightarrow> bool" where
  "healthy_rows_kept d d' \<longleftrightarrow>
     (\<forall>i x. get_replica_row d i = Some x \<longrightarrow> r_status x = RS_HEALTHY \<longrightarrow> get_replica_row d' i = Some x)"

lemma set_replica_state_healthy_kept:
  assumes "set_replica_state i st d = Inr (r, d')" "get_replica_row d i = Some q" "r_status q \<noteq> RS_HEALTHY"
  shows "healthy_rows_kept d d'"
  unfolding healthy_rows_kept_def
proof (intro allI impI)
  fix j x
  assume "get_replica_row d j = Some x" "r_status x = RS_HEALTHY"
  moreover from this assms(2,3) have "j \<noteq> i" by auto
  ultimately show "get_replica_row d' j = Some x" using set_replica_state_frame(4) [OF assms(1)] by simp
qed

lemma mark_replica_healthy_kept:
  assumes "mark_replica_healthy t i c s d = Inr (r, d')"
  shows "healthy_rows_kept d d'"
  unfolding healthy_rows_kept_def
proof (intro allI impI)
  fix j x
  assume "get_replica_row d j = Some x" "r_status x = RS_HEALTHY"
  moreover from this mark_replica_healthy_frame(10) [OF assms] have "j \<noteq> i" by auto
  ultimately show "get_replica_row d' j = Some x" using mark_replica_healthy_frame(4) [OF assms] by simp
qed

section \<open>A successful repair\<close>

text \<open>What preparing the target leaves behind.\<close>

definition target_ready :: "db \<Rightarrow> repair_job \<Rightarrow> uuid \<Rightarrow> db \<Rightarrow> bool" where
  "target_ready d j i d' \<longleftrightarrow> versions d' = versions d \<and> nodes d' = nodes d \<and> repair_jobs d' = repair_jobs d \<and>
     healthy_rows_kept d d' \<and> (\<forall>v. healthy_count d' v = healthy_count d v) \<and>
     (\<exists>q. get_replica_row d' i = Some q \<and> r_version_id q = rp_version_id j \<and>
        r_node_id q = rp_target j \<and> r_status q = RS_REPAIRING)"

lemma replica_on_SomeD:
  assumes "replica_on d v n = Some r" "db_inv d"
  shows "get_replica_row d (r_id r) = Some r" "r_version_id r = v" "r_node_id r = n" "r \<in> set (replicas d)"
proof -
  from assms(1) have r: "r \<in> set (replicas d)" "r_version_id r = v" "r_node_id r = n"
    unfolding replica_on_def by (auto dest: lookup_by_SomeD)
  then show "get_replica_row d (r_id r) = Some r"
    using lookup_by_Some_iff [OF db_inv_distinct(6) [OF assms(2)]] by blast
  from r show "r_version_id r = v" "r_node_id r = n" "r \<in> set (replicas d)" by auto
qed

lemma new_row_ready:
  assumes "create_replica i (rp_version_id j) (rp_target j) d = Inr (r, d1)" "strip (rp_target j) = rp_target j"
    "set_replica_state (r_id r) RS_REPAIRING d1 = Inr (x, d')" "db_inv d"
  shows "target_ready d j (r_id r) d'"
proof -
  note cr = create_replica_frame [OF assms(1)]
  have r: "r_status r = RS_PENDING" "r_version_id r = rp_version_id j" "r_node_id r = rp_target j" "r_id r = i"
    using cr(5) assms(2) by (simp_all add: new_replica_def)
  have inv1: "db_inv d1" using create_replica_inv [OF assms(1,4)] .
  have row: "get_replica_row d1 (r_id r) = Some r"
    unfolding lookup_by_Some_iff [OF db_inv_distinct(6) [OF inv1]] by (simp add: cr(4))
  have "healthy_rows_kept d d1" by (auto simp: healthy_rows_kept_def cr(4) lookup_by_append)
  moreover have "healthy_rows_kept d1 d'" using set_replica_state_healthy_kept [OF assms(3) row] r(1) by simp
  ultimately have "healthy_rows_kept d d'" by (simp add: healthy_rows_kept_def)
  moreover have "healthy_count d' v = healthy_count d v" for v
    using set_replica_state_count [OF assms(3) inv1 row, of v] r(1)
    by (simp add: healthy_count_def cr(4))
  ultimately show ?thesis
    using set_replica_state_frame [OF assms(3)] cr r row by (auto simp: target_ready_def)
qed

lemma old_row_ready:
  assumes "replica_on d (rp_version_id j) (rp_target j) = Some r" "r_status r \<noteq> RS_HEALTHY"
    "set_replica_state (r_id r) RS_REPAIRING d = Inr (x, d')" "db_inv d"
  shows "target_ready d j (r_id r) d'"
proof -
  note r = replica_on_SomeD [OF assms(1,4)]
  show ?thesis
    using set_replica_state_frame [OF assms(3)] set_replica_state_healthy_kept [OF assms(3) r(1) assms(2)]
      set_replica_state_count [OF assms(3,4) r(1) assms(2)] r
    by (auto simp: target_ready_def)
qed

lemma replica_for_target_ready:
  assumes "replica_for_target j w = (Inr r, w')" "db_inv (view w)" "strip (rp_target j) = rp_target j"
  shows "target_ready (view w) j (r_id r) (view w')"
proof (cases "replica_on (view w) (rp_version_id j) (rp_target j)")
  case None
  then obtain i x w1 w2 where cr: "transaction (create_replica i (rp_version_id j) (rp_target j)) w1 = (Inr r, w2)"
    and w1: "view w1 = view w"
    and "r_status r \<noteq> RS_PENDING \<or> transaction (set_replica_state (r_id r) RS_REPAIRING) w2 = (Inr x, w')"
    using assms(1) unfolding replica_for_target_def query_def
    by (auto simp: retA_def raiseA_def new_uuid_def split: if_splits elim!: bindA_InrE thenA_InrE)
  moreover have "r_status r = RS_PENDING"
    using create_replica_frame(5) [OF transaction_InrD(1) [OF cr]] by (simp add: new_replica_def)
  ultimately have st: "set_replica_state (r_id r) RS_REPAIRING (view w2) = Inr (x, view w')"
    by (simp add: transaction_InrD(1))
  show ?thesis using new_row_ready [OF transaction_InrD(1) [OF cr] assms(3) st] assms(2) w1 by simp
next
  case (Some q)
  then have "r = q" and "r_status q \<noteq> RS_HEALTHY" and
    "r_status q = RS_REPAIRING \<and> view w' = view w \<or>
     (\<exists>x. set_replica_state (r_id q) RS_REPAIRING (view w) = Inr (x, view w'))"
    using assms(1) unfolding replica_for_target_def query_def
    by (auto simp: retA_def raiseA_def split: if_splits elim!: bindA_InrE thenA_InrE dest!: transaction_InrD(1))
  then show ?thesis
    using old_row_ready [OF Some _ _ assms(2)] replica_on_SomeD [OF Some assms(2)]
    by (auto simp: target_ready_def healthy_rows_kept_def)
qed

lemma net_callD:
  assumes "net_call m w = (r, w')"
  shows "view w' = view w" "stored w' = stored w" "in_tx w' = in_tx w" "m (net w) = (r, net w')"
  using assms by (auto simp: net_call_def split: prod.splits)

lemma repair_copy_Inr:
  assumes "repair_copy c j v sn tn tr w = (Inr res, w')"
  obtains t cs sz x d1 where "mark_replica_healthy t (r_id tr) cs sz (view w) = Inr (x, d1)"
    "view w' = upd_repair (rp_id j) (repair_settle JS_SUCCEEDED None) d1" "stored w' = view w'" "\<not> in_tx w'"
    "res = repair_result_of (case get_repair_row (view w') (rp_id j) of None \<Rightarrow> j | Some x \<Rightarrow> x)"
  using assms unfolding repair_copy_def Let_def
  by (auto simp: retA_def raiseA_def now_def mark_repair_def modify_def commit_def live_repair_def live_def
      split: if_splits elim!: bindA_InrE thenA_InrE dest!: net_callD(1) transaction_InrD(1))

lemma repair_run_stages:
  assumes "repair_run_job c m i w = (Inr res, w')" "get_repair_row (view w) i = Some j"
    "\<not> job_over m (rp_status j) (rp_attempts j)"
  obtains v r tr tn sn w1 w2 where "get_version_row (view w) (rp_version_id j) = Some v"
    "find (\<lambda>r. r_version_id r = rp_version_id j \<and> r_node_id r = rp_source j \<and>
       r_status r = RS_HEALTHY) (replicas (view w)) = Some r"
    "replica_for_target j (w\<lparr>in_tx := True\<rparr>) = (Inr tr, w1)"
    "view w2 = upd_repair i repair_start (view w1)"
    "repair_copy c j v sn tn tr w2 = (Inr res, w')"
  using assms lookup_by_SomeD(2) [OF assms(2)]
  unfolding repair_run_job_def repair_attempt_def repair_version_row_def query_def modify_def commit_def
  by (auto simp: retA_def raiseA_def split: if_splits option.splits
      elim!: bindA_InrE thenA_InrE catchA_InrE dest!: net_callD(1))

lemma find_replica_on:
  assumes "find (\<lambda>r. r_version_id r = v \<and> r_node_id r = n \<and> P r) (replicas d) = Some r" "db_inv d"
  shows "replica_on d v n = Some r" "P r"
proof -
  have r: "r \<in> set (replicas d)" "r_version_id r = v" "r_node_id r = n" "P r"
    using assms(1) by (auto simp: find_Some_iff)
  then show "replica_on d v n = Some r" "P r"
    unfolding replica_on_def lookup_by_Some_iff [OF db_inv_distinct(7) [OF assms(2)]] by auto
qed

lemma upd_repair_frame [simp]:
  "objects (upd_repair i f d) = objects d" "versions (upd_repair i f d) = versions d"
  "nodes (upd_repair i f d) = nodes d" "replicas (upd_repair i f d) = replicas d"
  "replica_on (upd_repair i f d) v n = replica_on d v n" "healthy_count (upd_repair i f d) v = healthy_count d v"
  by (simp_all add: upd_repair_def replica_on_def healthy_count_def)

lemma healthy_row_replica_on:
  assumes "replica_on d v n = Some r" "r_status r = RS_HEALTHY" "healthy_rows_kept d d'" "db_inv d" "db_inv d'"
  shows "replica_on d' v n = Some r"
proof -
  note r = replica_on_SomeD [OF assms(1,4)]
  have "get_replica_row d' (r_id r) = Some r" using assms(2,3) r(1) by (simp add: healthy_rows_kept_def)
  then have "r \<in> set (replicas d')" by (rule lookup_by_SomeD)
  then show ?thesis
    unfolding replica_on_def lookup_by_Some_iff [OF db_inv_distinct(7) [OF assms(5)]] using r by simp
qed

lemma db_inv_upd_repair:
  "db_inv d \<Longrightarrow> db_inv (upd_repair i repair_start d)" "db_inv d \<Longrightarrow> db_inv (upd_repair i (repair_settle st e) d)"
  using repair_update_step ctl_step_inv by blast+

lemma job_target_strip:
  assumes "db_inv d" "get_repair_row d i = Some j"
  shows "strip (rp_target j) = rp_target j" "rp_id j = i"
proof -
  have "j \<in> set (repair_jobs d)" "rp_id j = i" using lookup_by_SomeD [OF assms(2)] by auto
  then have "rp_target j \<in> n_id ` set (nodes d)" using assms(1) by (simp add: inv_defs)
  then show "strip (rp_target j) = rp_target j" using assms(1) by (auto simp: inv_defs)
  show "rp_id j = i" by fact
qed

lemma repair_run_success:
  assumes "db_inv (view w)" "repair_run_job c m i w = (Inr res, w')" "get_repair_row (view w) i = Some j"
    "\<not> job_over m (rp_status j) (rp_attempts j)"
  shows "rpr_status res = JS_SUCCEEDED" "rpr_attempts res = rp_attempts j + 1"
    "get_repair_row (view w') i = Some (repair_settle JS_SUCCEEDED None (repair_start j))"
    "\<exists>t. replica_on (view w') (rp_version_id j) (rp_target j) = Some t \<and> r_status t = RS_HEALTHY"
    "\<exists>s. replica_on (view w) (rp_version_id j) (rp_source j) = Some s \<and> r_status s = RS_HEALTHY \<and>
       replica_on (view w') (rp_version_id j) (rp_source j) = Some s"
    "healthy_count (view w') (rp_version_id j) = healthy_count (view w) (rp_version_id j) + 1"
    "stored w' = view w'" "\<not> in_tx w'"
proof -
  note job = job_target_strip [OF assms(1,3)]
  from assms(2-4) obtain v r tr tn sn w1 w2 where s:
    "find (\<lambda>r. r_version_id r = rp_version_id j \<and> r_node_id r = rp_source j \<and>
       r_status r = RS_HEALTHY) (replicas (view w)) = Some r"
    "replica_for_target j (w\<lparr>in_tx := True\<rparr>) = (Inr tr, w1)"
    "view w2 = upd_repair i repair_start (view w1)"
    "repair_copy c j v sn tn tr w2 = (Inr res, w')"
    by (rule repair_run_stages)
  have ready: "target_ready (view w) j (r_id tr) (view w1)"
    using replica_for_target_ready [OF s(2)] assms(1) job(1) by simp
  have inv1: "db_inv (view w1)" using ahead_run(2) [OF repair_ahead(3) s(2)] assms(1) by simp
  have inv2: "db_inv (view w2)" using db_inv_upd_repair(1) [OF inv1] s(3) by simp
  from s(4) obtain t cs sz x d1 where f: "mark_replica_healthy t (r_id tr) cs sz (view w2) = Inr (x, d1)"
    "view w' = upd_repair (rp_id j) (repair_settle JS_SUCCEEDED None) d1" "stored w' = view w'" "\<not> in_tx w'"
    "res = repair_result_of (case get_repair_row (view w') (rp_id j) of None \<Rightarrow> j | Some x \<Rightarrow> x)"
    by (rule repair_copy_Inr)
  note mark = mark_replica_healthy_frame [OF f(1)]
  have invd1: "db_inv d1" using mark_replica_healthy_inv [OF f(1) inv2] .
  have inv': "db_inv (view w')" using db_inv_upd_repair(2) [OF invd1] f(2) by simp
  have "get_repair_row (view w1) i = Some j" using ready assms(3) by (simp add: target_ready_def)
  then have jd1: "get_repair_row d1 i = Some (repair_start j)"
    using mark(7) s(3) by (simp add: upd_repair_def lookup_update_by repair_start_def)
  then show row: "get_repair_row (view w') i = Some (repair_settle JS_SUCCEEDED None (repair_start j))"
    using f(2) job(2) by (simp add: upd_repair_def lookup_update_by repair_settle_def)
  show "rpr_status res = JS_SUCCEEDED" "rpr_attempts res = rp_attempts j + 1"
    using f(5) row job(2) by (simp_all add: repair_result_of_def repair_settle_def repair_start_def)
  from ready s(3) obtain q where q: "get_replica_row (view w2) (r_id tr) = Some q"
    "r_version_id q = rp_version_id j" "r_node_id q = rp_target j" by (auto simp: target_ready_def)
  have x: "r_version_id x = rp_version_id j" "r_node_id x = rp_target j" using mark(10) q by auto
  have "marked d1 x"
    using mark(5,6) lookup_by_SomeD(2) [OF mark(5)] by (auto simp: marked_def)
  from marked_replica_on [OF invd1 this] x f(2)
  show "\<exists>t. replica_on (view w') (rp_version_id j) (rp_target j) = Some t \<and> r_status t = RS_HEALTHY" by simp
  note src = find_replica_on [OF s(1) assms(1)]
  have "healthy_rows_kept (view w) (view w')"
    using ready mark_replica_healthy_kept [OF f(1)] s(3) f(2)
    by (simp add: target_ready_def healthy_rows_kept_def)
  from healthy_row_replica_on [OF src(1) src(2) this assms(1) inv'] src
  show "\<exists>s. replica_on (view w) (rp_version_id j) (rp_source j) = Some s \<and> r_status s = RS_HEALTHY \<and>
       replica_on (view w') (rp_version_id j) (rp_source j) = Some s" by blast
  show "healthy_count (view w') (rp_version_id j) = healthy_count (view w) (rp_version_id j) + 1"
    using mark_replica_healthy_count [OF f(1) inv2] x(1) f(2) s(3) ready by (simp add: target_ready_def)
  show "stored w' = view w'" "\<not> in_tx w'" by (fact f(3,4))+
qed

section \<open>Scheduling\<close>

lemma target_for_version_view: "target_for_version v p w = (r, w') \<Longrightarrow> view w' = view w"
  unfolding target_for_version_def Let_def query_def
  by (auto simp: bindA_def retA_def raiseA_def split: option.splits if_splits list.splits)

lemma active_repairD:
  assumes "active_repair v t d = Some j" "db_inv d"
  shows "get_repair_row d (rp_id j) = Some j" "rp_version_id j = v" "rp_target j = t"
    "rp_status j \<in> {JS_PENDING, JS_RUNNING}"
proof -
  have j: "j \<in> set (repair_jobs d)" "rp_version_id j = v" "rp_target j = t"
    "rp_status j \<in> {JS_PENDING, JS_RUNNING}"
    using assms(1) by (auto simp: active_repair_def find_Some_iff)
  then show "get_repair_row d (rp_id j) = Some j"
    using lookup_by_Some_iff [OF db_inv_distinct(8) [OF assms(2)]] by blast
  from j show "rp_version_id j = v" "rp_target j = t" "rp_status j \<in> {JS_PENDING, JS_RUNNING}" by auto
qed

text \<open>The tables after scheduling: at most one new PENDING job, committed.\<close>

lemma repair_new_job_Inr:
  assumes "repair_new_job v s t reason w = (Inr j, w')"
  shows "active_repair v t (view w) = Some j \<and> view w' = view w \<or>
    active_repair v t (view w) = None \<and> insert_repair j (view w) = Inr (j, view w') \<and>
      stored w' = view w' \<and> rp_version_id j = v \<and> rp_source j = s \<and> rp_target j = t \<and>
      rp_status j = JS_PENDING \<and> rp_attempts j = 0"
proof (cases "active_repair v t (view w)")
  case None
  with assms obtain i c where
    "add_commit (insert_repair (new_repair_job i c v s t reason)) (w\<lparr>in_tx := True,
       uuid_pos := Suc (uuid_pos w), now_pos := Suc (now_pos w)\<rparr>) = (Inr j, w')"
    unfolding repair_new_job_def query_def
    by (auto simp: raiseA_def now_def new_uuid_def split: if_splits elim!: bindA_InrE)
  then show ?thesis using None
    by (auto simp: add_commit_def insert_repair_def new_repair_job_def split: if_splits)
qed (use assms in \<open>auto simp: repair_new_job_def run_simps\<close>)

lemma repair_create_job_new:
  assumes "repair_create_job v s t reason w = (Inr j, w')"
  shows "repair_new_job v s t reason w = (Inr j, w') \<or> repair_new_job v s t reason (w\<lparr>in_tx := True\<rparr>) = (Inr j, w')"
  using assms by (auto simp: repair_create_job_def query_def raiseA_def split: if_splits option.splits
      elim!: bindA_InrE)

lemma insert_repair_row:
  assumes "insert_repair j d = Inr (j, d')" "rp_attempts j = 0" "db_inv d"
  shows "get_repair_row d' (rp_id j) = Some j" "d' = d\<lparr>repair_jobs := repair_jobs d @ [j]\<rparr>" "db_inv d'"
proof -
  show "db_inv d'" using ctl_new_repair [OF assms(1,2)] assms(3) by (rule ctl_step_inv)
  show d': "d' = d\<lparr>repair_jobs := repair_jobs d @ [j]\<rparr>" using assms(1) by (auto simp: insert_repair_def split: if_splits)
  show "get_repair_row d' (rp_id j) = Some j"
    unfolding lookup_by_Some_iff [OF db_inv_distinct(8) [OF \<open>db_inv d'\<close>]] by (simp add: d')
qed

text \<open>The result of scheduling, and the tables after it: at most one new PENDING job.\<close>

definition scheduled :: "uuid \<Rightarrow> db \<Rightarrow> repair_job \<Rightarrow> db \<Rightarrow> bool" where
  "scheduled v d j d' \<longleftrightarrow> get_repair_row d' (rp_id j) = Some j \<and> rp_version_id j = v \<and>
     rp_status j \<in> {JS_PENDING, JS_RUNNING} \<and> db_inv d' \<and>
     (active_repair v (rp_target j) d = Some j \<and> d' = d \<or>
      active_repair v (rp_target j) d = None \<and> d' = d\<lparr>repair_jobs := repair_jobs d @ [j]\<rparr>)"

lemma created_scheduled:
  assumes "repair_create_job v s t reason w = (Inr j, w')" "db_inv (view w)"
  shows "scheduled v (view w) j (view w')"
proof -
  have "\<exists>w1. view w1 = view w \<and> repair_new_job v s t reason w1 = (Inr j, w')"
    using repair_create_job_new [OF assms(1)] by (metis world.select_convs(1) world.surjective world.update_convs(3))
  then obtain w1 where w1: "view w1 = view w" and n: "repair_new_job v s t reason w1 = (Inr j, w')" by blast
  from repair_new_job_Inr [OF n, unfolded w1] show ?thesis
  proof
    assume a: "active_repair v t (view w) = Some j \<and> view w' = view w"
    then show ?thesis using active_repairD [of v t "view w" j] assms(2) by (auto simp: scheduled_def)
  next
    assume a: "active_repair v t (view w) = None \<and> insert_repair j (view w) = Inr (j, view w') \<and>
        stored w' = view w' \<and> rp_version_id j = v \<and> rp_source j = s \<and> rp_target j = t \<and>
        rp_status j = JS_PENDING \<and> rp_attempts j = 0"
    then show ?thesis using insert_repair_row [of j "view w" "view w'"] assms(2)
      by (simp add: scheduled_def)
  qed
qed

lemma schedule_Inr:
  assumes "schedule_for_version df v rf reason p w = (Inr res, w')" "db_inv (view w)"
    "factor = (case rf of None \<Rightarrow> df | Some f \<Rightarrow> f)"
  shows "case res of
      None \<Rightarrow> factor \<le> int (healthy_count (view w) v) \<and> p = None \<and> view w' = view w
    | Some j \<Rightarrow> \<not> (factor \<le> int (healthy_count (view w) v) \<and> p = None) \<and> scheduled v (view w) j (view w')"
proof (cases "factor \<le> int (healthy_count (view w) v) \<and> p = None")
  case True
  with assms show ?thesis
    by (auto simp: schedule_for_version_def Let_def raiseA_def retA_def query_def repair_version_row_def
        split: if_splits option.splits elim!: bindA_InrE)
next
  case False
  have "bindA (repair_version_row v) (\<lambda>vr. bindA (query (\<lambda>d. healthy_count d v)) (\<lambda>healthy.
      if factor \<le> int healthy \<and> p = None then retA None else
      bindA (query (healthy_sources v)) (\<lambda>sources.
      case sources of
        [] \<Rightarrow> raiseA (VaultE (VaultError NODE_UNAVAILABLE 503))
      | source # _ \<Rightarrow>
          bindA (target_for_version vr p) (\<lambda>target.
          bindA (query (active_repair v (n_id target))) (\<lambda>existing.
          case existing of
            Some j \<Rightarrow> retA (Some j)
          | None \<Rightarrow> bindA (repair_create_job v (r_node_id source) (n_id target) reason)
              (\<lambda>j. retA (Some j))))))) w = (Inr res, w')"
    using assms(1) unfolding schedule_for_version_def Let_def assms(3) [symmetric]
    by (simp add: raiseA_def split: if_splits)
  note body = this
  obtain vr where vr: "get_version_row (view w) v = Some vr"
    using body by (cases "get_version_row (view w) v")
      (auto simp: repair_version_row_def run_simps bindA_assoc)
  obtain src rest where src: "healthy_sources v (view w) = src # rest"
    using body False vr by (cases "healthy_sources v (view w)")
      (auto simp: repair_version_row_def run_simps bindA_assoc split: if_splits)
  obtain tn w2 where t: "target_for_version vr p (w\<lparr>in_tx := True\<rparr>) = (Inr tn, w2)"
    and e: "(case active_repair v (n_id tn) (view w2) of Some j \<Rightarrow> retA (Some j)
       | None \<Rightarrow> bindA (repair_create_job v (r_node_id src) (n_id tn) reason) (\<lambda>j. retA (Some j)))
       (w2\<lparr>in_tx := True\<rparr>) = (Inr res, w')"
    using body False vr src
    by (auto simp: repair_version_row_def run_simps bindA_assoc query_def split: if_splits elim!: bindA_InrE)
  have j: "active_repair v (n_id tn) (view w2) = res \<and> res \<noteq> None \<and> view w' = view w2 \<or>
      (\<exists>j s. res = Some j \<and> repair_create_job v s (n_id tn) reason (w2\<lparr>in_tx := True\<rparr>) = (Inr j, w'))"
    using e by (cases "active_repair v (n_id tn) (view w2)") (auto simp: retA_def elim!: bindA_InrE)
  have v2: "view w2 = view w" using target_for_version_view [OF t] by simp
  from j show ?thesis
  proof
    assume a: "active_repair v (n_id tn) (view w2) = res \<and> res \<noteq> None \<and> view w' = view w2"
    then obtain j where j: "res = Some j" by blast
    then show ?thesis using False a active_repairD [of v "n_id tn" "view w" j] v2 assms(2)
      by (auto simp: scheduled_def)
  next
    assume "\<exists>j s. res = Some j \<and> repair_create_job v s (n_id tn) reason (w2\<lparr>in_tx := True\<rparr>) = (Inr j, w')"
    then show ?thesis using created_scheduled [of v _ "n_id tn" reason "w2\<lparr>in_tx := True\<rparr>" _ w'] v2 assms(2) False
      by auto
  qed
qed

section \<open>The repair loop\<close>

lemma scheduled_count: "scheduled v d j d' \<Longrightarrow> healthy_count d' u = healthy_count d u"
  by (auto simp: scheduled_def healthy_count_def)

lemma repair_round:
  assumes "db_inv (view w)" "schedule_for_version df v (Some rf) reason None w = (Inr (Some j), w1)"
    "repair_run_job c m (rp_id j) w1 = (Inr res, w2)"
  shows "db_inv (view w2)" "healthy_count (view w2) v = healthy_count (view w) v + 1"
    "rpr_status res = JS_SUCCEEDED"
proof -
  have sch: "scheduled v (view w) j (view w1)"
    using schedule_Inr [OF assms(2,1) refl] by simp
  then have j: "get_repair_row (view w1) (rp_id j) = Some j" "db_inv (view w1)" "rp_version_id j = v"
    "\<not> job_over m (rp_status j) (rp_attempts j)" by (auto simp: scheduled_def job_over_def)
  note r = repair_run_success [OF j(2) assms(3) j(1,4)]
  show "healthy_count (view w2) v = healthy_count (view w) v + 1"
    using r(6) j(3) scheduled_count [OF sch] by simp
  show "rpr_status res = JS_SUCCEEDED" by (rule r(1))
  show "db_inv (view w2)" using ahead_run(2) [OF repair_run_ahead assms(3) j(2)] .
qed

lemma repair_loop_result:
  assumes "db_inv (view w)" "repair_loop fuel c m df v rf reason rs w = (Inr res, w')"
    "nat (rf - int (healthy_count (view w) v)) < fuel"
  shows "\<exists>new. res = Some (rs @ new) \<and> db_inv (view w') \<and> (\<forall>r\<in>set new. rpr_status r = JS_SUCCEEDED) \<and>
    healthy_count (view w') v = healthy_count (view w) v + length new \<and>
    rf \<le> int (healthy_count (view w') v) \<and> length new \<le> nat (rf - int (healthy_count (view w) v))"
  using assms
proof (induction fuel arbitrary: w rs)
  case (Suc fuel)
  let ?hc = "\<lambda>w. healthy_count (view w) v"
  show ?case
  proof (cases "rf \<le> int (?hc w)")
    case True
    then show ?thesis using Suc.prems by (auto simp: run_simps)
  next
    case False
    with Suc.prems(2) obtain job w1 where sch: "schedule_for_version df v (Some rf) reason None (w\<lparr>in_tx := True\<rparr>) = (Inr job, w1)"
      and rest: "(case job of None \<Rightarrow> retA (Some rs) | Some j \<Rightarrow> bindA (repair_run_job c m (rp_id j))
        (\<lambda>res. repair_loop fuel c m df v rf reason (rs @ [res]))) w1 = (Inr res, w')"
      by (auto simp: run_simps elim!: bindA_InrE)
    have inv: "db_inv (view (w\<lparr>in_tx := True\<rparr>))" using Suc.prems(1) by simp
    from schedule_Inr [OF sch inv refl] False obtain j where j: "job = Some j" by (cases job) auto
    from rest j obtain r w2 where run: "repair_run_job c m (rp_id j) w1 = (Inr r, w2)"
      and more: "repair_loop fuel c m df v rf reason (rs @ [r]) w2 = (Inr res, w')"
      by (auto elim!: bindA_InrE)
    note round = repair_round [OF inv sch [unfolded j] run]
    have "nat (rf - int (?hc w2)) < fuel" using round(2) Suc.prems(3) False by simp
    from Suc.IH [OF round(1) more this] obtain new where n: "res = Some ((rs @ [r]) @ new)" "db_inv (view w')"
      "\<forall>r\<in>set new. rpr_status r = JS_SUCCEEDED" "?hc w' = ?hc w2 + length new" "rf \<le> int (?hc w')"
      "length new \<le> nat (rf - int (?hc w2))" by blast
    have "length (r # new) \<le> nat (rf - int (?hc w))" using n(6) round(2) False by simp
    then show ?thesis using n round by (intro exI [of _ "r # new"]) auto
  qed
qed simp

section \<open>Attempts\<close>

definition repair_row :: "uuid \<Rightarrow> repair_job \<Rightarrow> 'n world \<Rightarrow> bool" where
  "repair_row i j w \<longleftrightarrow> get_repair_row (view w) i = Some j"

lemma repair_row_quiet [keeps_rules]:
  "keeps (repair_row i j) new_uuid" "keeps (repair_row i j) now" "keeps (repair_row i j) (query f)"
  "keeps (repair_row i j) (live f)" "keeps (repair_row i j) (net_call m)" "keeps (repair_row i j) commit"
  by (auto simp: keeps_def repair_row_def session_defs split: prod.split)

lemma repair_row_transaction:
  assumes "\<And>d x d'. body d = Inr (x, d') \<Longrightarrow> repair_jobs d' = repair_jobs d"
  shows "keeps (repair_row i j) (transaction body)"
  using assms by (auto simp: keeps_def repair_row_def transaction_def split: sum.splits)

lemma repair_row_ops [keeps_rules]:
  "keeps (repair_row i j) (transaction (create_replica k v n))"
  "keeps (repair_row i j) (transaction (set_replica_state r st))"
  "keeps (repair_row i j) (transaction (mark_replica_healthy t r c s))"
  by (rule repair_row_transaction,
      auto dest: create_replica_frame(6) set_replica_state_frame(7) mark_replica_healthy_frame(7))+

lemma repair_row_queries [keeps_rules]:
  "keeps (repair_row i j) (repair_version_row v)" "keeps (repair_row i j) (replica_for_target k)"
  "keeps (repair_row i j) (live_repair i' k)"
  unfolding repair_version_row_def replica_for_target_def live_repair_def by (intro keeps_rules)+

lemma repair_row_start: "repair_row i j w \<Longrightarrow> repair_row i (repair_start j) (w\<lparr>view := upd_repair i repair_start (view w), in_tx := True\<rparr>)"
  by (simp add: repair_row_def upd_repair_def lookup_update_by repair_start_def)

lemma repair_row_settle:
  "repair_row i j w \<Longrightarrow> repair_row i (repair_settle st e j) (w\<lparr>view := upd_repair i (repair_settle st e) (view w), in_tx := True\<rparr>)"
  by (simp add: repair_row_def upd_repair_def lookup_update_by repair_settle_def)

text \<open>Every way a run can end: the job row as it was, settled without a run, or settled after one;
  only an exception that the manager does not handle leaves it RUNNING.\<close>

definition run_ended :: "int \<Rightarrow> uuid \<Rightarrow> repair_job \<Rightarrow> bool \<Rightarrow> 'n world \<Rightarrow> bool" where
  "run_ended m i j handled w \<longleftrightarrow> (\<exists>e x. repair_row i x w \<and>
     (x = j \<or> x = repair_settle JS_FAILED e j \<or> x = repair_settle JS_SUCCEEDED e (repair_start j) \<or>
      x = repair_settle (retry_status m (rp_attempts (repair_start j))) e (repair_start j) \<or>
      \<not> handled \<and> x = repair_start j))"

lemma repair_copy_end:
  assumes "repair_copy c j v sn tn tr w = (r, w')" "repair_row i x w" "rp_id j = i"
  shows "case r of Inl e \<Rightarrow> repair_row i x w' | Inr res \<Rightarrow> repair_row i (repair_settle JS_SUCCEEDED None x) w'"
proof -
  let ?pre = "\<lambda>k. (let ob = uuid_str (v_object_id v); ve = uuid_str (v_id v) in
      bindA (net_call (c_verify c (n_address sn) ob ve True)) (\<lambda>ms.
      if \<not> agrees ms v then raiseA (ClientE StorageNodeIntegrityError) else
      thenA (net_call (c_delete c (n_address tn) ob ve))
      (bindA (net_call (c_stream c (n_address sn) ob ve)) (\<lambda>p.
      thenA (net_call (c_put c (n_address tn) ob ve p))
      (bindA (net_call (c_verify c (n_address tn) ob ve True)) (\<lambda>mt.
      if \<not> agrees mt v then raiseA (ClientE StorageNodeIntegrityError) else
      bindA now (\<lambda>t.
      thenA (transaction (mark_replica_healthy t (r_id tr) (vo_checksum mt) (vo_size mt))) k)))))))"
  have "hoare (repair_row i x) (?pre k) Q (\<lambda>_. repair_row i x)" if "hoare (repair_row i x) k Q (\<lambda>_. repair_row i x)"
    for k and Q :: "repair_result \<Rightarrow> 'a world \<Rightarrow> bool"
    unfolding Let_def by (intro hoare_frame keeps_rules that)
  moreover have "hoare (repair_row i x) (thenA (mark_repair (rp_id j) JS_SUCCEEDED None)
      (bindA (live_repair (rp_id j) j) (\<lambda>j. retA (repair_result_of j))))
      (\<lambda>_. repair_row i (repair_settle JS_SUCCEEDED None x)) (\<lambda>_. repair_row i x)"
    using repair_row_settle assms(3)
    by (auto simp: hoare_def mark_repair_def thenA_def bindA_def modify_def commit_def live_repair_def live_def
        retA_def repair_row_def split: prod.splits)
  ultimately have "hoare (repair_row i x) (repair_copy c j v sn tn tr)
      (\<lambda>_. repair_row i (repair_settle JS_SUCCEEDED None x)) (\<lambda>_. repair_row i x)"
    unfolding repair_copy_def by blast
  then show ?thesis using assms(1,2) by (auto simp: hoare_def split: sum.splits)
qed

lemma thenA_mark_repair [run_simps]:
  "thenA (mark_repair i st e) m w = m (w\<lparr>view := upd_repair i (repair_settle st e) (view w),
     stored := upd_repair i (repair_settle st e) (view w), in_tx := False\<rparr>)"
  by (simp add: mark_repair_def thenA_def bindA_def modify_def commit_def)

lemma run_ended_running: "repair_row i (repair_start j) w \<Longrightarrow> run_ended m i j False w"
  unfolding run_ended_def by blast

lemma mark_then_raise:
  "hoare (repair_row i j) (thenA (mark_repair i JS_FAILED er) (raiseA e)) Q
     (\<lambda>e. run_ended m i j (caught_errors e))"
  by (auto simp: hoare_def run_simps run_ended_def repair_row_def upd_repair_def lookup_update_by repair_settle_def)

text \<open>Building a client raises no storage-client error and no Vault error: the configuration checks
  of \<^verbatim>\<open>StorageNodeClientConfig\<close> raise \<open>ValueError\<close>.\<close>

definition open_plain :: "'n client \<Rightarrow> bool" where
  "open_plain c \<longleftrightarrow> (\<forall>a n e n'. c_open c a n = (Inl e, n') \<longrightarrow> \<not> caught_errors e)"

lemma repair_attempt_ended:
  assumes "open_plain c"
    "repair_attempt c m j v sn tn tr w = (r, w')" "repair_row (rp_id j) (repair_start j) w"
  shows "run_ended m (rp_id j) j (case r of Inl e \<Rightarrow> caught_errors e | Inr _ \<Rightarrow> True) w'"
proof -
  let ?i = "rp_id j"
  have open_ok: "view w1 = view u \<and> (\<forall>e. r1 = Inl e \<longrightarrow> \<not> caught_errors e)"
    if "net_call (c_open c a) u = (r1, w1)" for a u and r1 :: "exn + unit" and w1
    using net_callD [OF that] assms(1) unfolding open_plain_def by fastforce
  show ?thesis
  proof (cases "\<exists>w2. view w2 = view w \<and> catchA (repair_copy c j v sn tn tr)
         (\<lambda>e. if caught_errors e
              then bindA (live_repair ?i j) (\<lambda>j.
                   thenA (mark_repair ?i (retry_status m (rp_attempts j)) (Some (ErrExn e))) (raiseA e))
              else raiseA e) w2 = (r, w')")
    case False
    with assms(2) have "view w' = view w \<and> (\<exists>e. r = Inl e \<and> \<not> caught_errors e)"
      unfolding repair_attempt_def thenA_def bindA_def
      by (auto split: prod.splits sum.splits dest!: open_ok)
    with assms(3) show ?thesis by (auto simp: run_ended_def repair_row_def)
  next
    case True
    then obtain w2 where w2: "view w2 = view w" and cat: "catchA (repair_copy c j v sn tn tr)
         (\<lambda>e. if caught_errors e
              then bindA (live_repair ?i j) (\<lambda>j.
                   thenA (mark_repair ?i (retry_status m (rp_attempts j)) (Some (ErrExn e))) (raiseA e))
              else raiseA e) w2 = (r, w')" by blast
    obtain r3 w3 where copy: "repair_copy c j v sn tn tr w2 = (r3, w3)" by fastforce
    have r: "(case r3 of Inl e \<Rightarrow> (if caught_errors e
              then bindA (live_repair ?i j) (\<lambda>j.
                   thenA (mark_repair ?i (retry_status m (rp_attempts j)) (Some (ErrExn e))) (raiseA e))
              else raiseA e) w3 | Inr x \<Rightarrow> (Inr x, w3)) = (r, w')"
      using cat copy by (simp add: catchA_def)
    have row: "case r3 of Inl e \<Rightarrow> repair_row ?i (repair_start j) w3
        | Inr res \<Rightarrow> repair_row ?i (repair_settle JS_SUCCEEDED None (repair_start j)) w3"
      using repair_copy_end [OF copy _ refl, of "repair_start j"] assms(3) w2 by (simp add: repair_row_def)
    show ?thesis
    proof (cases r3)
      case (Inr x)
      then show ?thesis using row r by (auto simp: run_ended_def)
    next
      case (Inl e)
      then have row3: "get_repair_row (view w3) ?i = Some (repair_start j)" using row by (simp add: repair_row_def)
      show ?thesis
      proof (cases "caught_errors e")
        case True
        then have "r = Inl e" "view w' = upd_repair ?i (repair_settle (retry_status m (rp_attempts (repair_start j)))
            (Some (ErrExn e))) (view w3)"
          using r Inl row3 by (auto simp: live_repair_def run_simps)
        then show ?thesis using row3 unfolding run_ended_def repair_row_def
          by (auto simp: upd_repair_def lookup_update_by repair_settle_def)
      next
        case False
        then show ?thesis using Inl r row run_ended_running by (auto simp: raiseA_def)
      qed
    qed
  qed
qed

lemma repair_run_ended:
  assumes "open_plain c"
    "repair_run_job c m i w = (r, w')" "get_repair_row (view w) i = Some j"
    "\<not> job_over m (rp_status j) (rp_attempts j)"
  shows "run_ended m i j (case r of Inl e \<Rightarrow> caught_errors e | Inr _ \<Rightarrow> True) w'"
proof -
  let ?E = "\<lambda>e. run_ended m i j (caught_errors e)"
  have id: "rp_id j = i" using lookup_by_SomeD(2) [OF assms(3)] .
  have PE: "repair_row i j s \<Longrightarrow> ?E e s" for e and s :: "'a world" by (auto simp: run_ended_def)
  have att: "hoare (repair_row i j) (thenA (modify (upd_repair i repair_start)) (thenA commit
      (repair_attempt c m j v sn tn tr))) (\<lambda>_. run_ended m i j True) ?E" for v sn tn tr
  proof (rule hoareI)
    fix s x t
    assume "repair_row i j s" "thenA (modify (upd_repair i repair_start)) (thenA commit
      (repair_attempt c m j v sn tn tr)) s = (Inr x, t)"
    then show "run_ended m i j True t"
      using repair_attempt_ended [OF assms(1), of m j v sn tn tr _ "Inr x" t] id repair_row_start [of i j s]
      by (simp add: run_simps repair_row_def)
  next
    fix s e t
    assume "repair_row i j s" "thenA (modify (upd_repair i repair_start)) (thenA commit
      (repair_attempt c m j v sn tn tr)) s = (Inl e, t)"
    then show "?E e t"
      using repair_attempt_ended [OF assms(1), of m j v sn tn tr _ "Inl e" t] id repair_row_start [of i j s]
      by (simp add: run_simps repair_row_def)
  qed
  let ?rest = "bindA (repair_version_row (rp_version_id j)) (\<lambda>v.
       bindA (query (\<lambda>d. find (\<lambda>r. r_version_id r = rp_version_id j \<and> r_node_id r = rp_source j \<and>
         r_status r = RS_HEALTHY) (replicas d))) (\<lambda>source_replica.
       if (case source_replica of None \<Rightarrow> True | Some r \<Rightarrow> \<not> has_checksum r)
       then thenA (mark_repair i JS_FAILED (Some (ErrLit ''Verified healthy source replica is unavailable.'')))
              (raiseA (VaultE (VaultError NODE_UNAVAILABLE 503)))
       else
       bindA (replica_for_target j) (\<lambda>target_replica.
       bindA (query (\<lambda>d. get_node_row d (rp_target j))) (\<lambda>target_node.
       bindA (query (\<lambda>d. get_node_row d (rp_source j))) (\<lambda>source_node.
       case target_node of
         None \<Rightarrow> thenA (mark_repair i JS_FAILED (Some (ErrLit ''Repair source or target node missing.'')))
           (raiseA (VaultE (ObjectNotFound (TextId (rp_target j)))))
       | Some tn \<Rightarrow>
       (case source_node of
         None \<Rightarrow> thenA (mark_repair i JS_FAILED (Some (ErrLit ''Repair source or target node missing.'')))
           (raiseA (VaultE (ObjectNotFound (TextId (rp_source j)))))
       | Some sn \<Rightarrow>
       if n_status tn \<noteq> NS_HEALTHY
       then thenA (mark_repair i JS_FAILED (Some (ErrLit ''Repair target is not healthy.'')))
              (raiseA (VaultE (VaultError NODE_UNAVAILABLE 503)))
       else
       thenA (modify (upd_repair i repair_start))
       (thenA commit (repair_attempt c m j v sn tn target_replica))))))))"
  have "hoare (repair_row i j) ?rest (\<lambda>_. run_ended m i j True) ?E"
    by (intro hoare_through_bind hoare_through_if hoare_through_option keeps_rules att mark_then_raise PE)
  moreover have "?rest (w\<lparr>in_tx := True\<rparr>) = (r, w')"
    using assms(2-4) by (simp add: repair_run_job_def run_simps)
  moreover have "repair_row i j (w\<lparr>in_tx := True\<rparr>)" using assms(3) by (simp add: repair_row_def)
  ultimately show ?thesis by (cases r) (auto dest: hoareD_Inr hoareD_Inl)
qed

section \<open>Guarantees\<close>

text \<open>A committed version with one healthy replica, a second node and a repair job.\<close>

definition demo_replica :: "uuid \<Rightarrow> string \<Rightarrow> replica_row" where
  "demo_replica i n = \<lparr>r_id = i, r_version_id = 10, r_node_id = n, r_status = RS_HEALTHY,
     r_checksum = Some demo_checksum, r_size = Some 3, r_last_verified_at = Some 6\<rparr>"

definition demo_cluster :: db where
  "demo_cluster = \<lparr>objects = [demo_object\<lparr>o_current_version_id := Some 10\<rparr>],
     versions = [(demo_version 10 1)\<lparr>v_state := VS_COMMITTED, v_committed_at := Some 5\<rparr>],
     nodes = [demo_node, demo_node\<lparr>n_id := ''n2'', n_address := ''http://n2''\<rparr>],
     replicas = [demo_replica 30 ''n1''],
     repair_jobs = [new_repair_job 40 7 10 ''n1'' ''n2'' ''''], integrity_jobs = [], rebalance_jobs = []\<rparr>"

lemma demo_cluster_inv: "db_inv demo_cluster"
  by code_simp

definition demo_repair :: "string list \<Rightarrow> (exn + repair_result) \<times> unit world" where
  "demo_repair up = repair_run_job (demo_client up) 3 40 (demo_world demo_cluster ())"

lemmas demo_repair_unfold = demo_repair_def repair_run_job_def repair_attempt_def repair_copy_def Let_def demo_client_simps

lemma demo_repair_ok: "\<exists>res w'. demo_repair [''http://n1'', ''http://n2''] = (Inr res, w')"
proof -
  have "\<not> isl (fst (demo_repair [''http://n1'', ''http://n2'']))"
    unfolding demo_repair_unfold by code_simp
  then show ?thesis by (metis prod.collapse sum.collapse(2))
qed

lemma demo_repair_down: "\<exists>e w'. demo_repair [''http://n1''] = (Inl e, w')"
proof -
  have "isl (fst (demo_repair [''http://n1'']))" unfolding demo_repair_unfold by code_simp
  then show ?thesis by (metis prod.collapse sum.collapse(1))
qed

lemma demo_row: "get_repair_row (view (demo_world demo_cluster n)) 40 = Some (new_repair_job 40 7 10 ''n1'' ''n2'' '''')"
  by (simp add: demo_world_def demo_cluster_def new_repair_job_def)

text \<open>C19. A successful repair run adds a replica and takes none away: the target ends HEALTHY, the
  source replica it was copied from is untouched, the version has exactly one healthy replica
  more, the job is SUCCEEDED with one attempt more, and all of it is durable.\<close>

theorem repair_run_correct:
  assumes "db_inv (view w)" "repair_run_job c m i w = (Inr res, w')" "get_repair_row (view w) i = Some j"
    "\<not> job_over m (rp_status j) (rp_attempts j)"
  shows "(\<exists>t. replica_on (view w') (rp_version_id j) (rp_target j) = Some t \<and> r_status t = RS_HEALTHY) \<and>
    (\<exists>s. replica_on (view w) (rp_version_id j) (rp_source j) = Some s \<and> r_status s = RS_HEALTHY \<and>
       replica_on (view w') (rp_version_id j) (rp_source j) = Some s) \<and>
    healthy_count (view w') (rp_version_id j) = healthy_count (view w) (rp_version_id j) + 1 \<and>
    rpr_status res = JS_SUCCEEDED \<and> rpr_attempts res = rp_attempts j + 1 \<and> stored w' = view w'"
  using repair_run_success [OF assms] by blast

theorem repair_run_correct_witness:
  "\<exists>res w'. demo_repair [''http://n1'', ''http://n2''] = (Inr res, w') \<and> rpr_status res = JS_SUCCEEDED \<and>
     healthy_count (view w') 10 = healthy_count demo_cluster 10 + 1"
proof -
  obtain res w' where r: "demo_repair [''http://n1'', ''http://n2''] = (Inr res, w')" using demo_repair_ok by blast
  have "db_inv (view (demo_world demo_cluster ()))" using demo_cluster_inv by (simp add: demo_world_def)
  from repair_run_correct [OF this r [unfolded demo_repair_def] demo_row] r show ?thesis
    by (auto simp: job_over_def new_repair_job_def demo_world_def)
qed

text \<open>C29. Attempts are bounded: a run, whatever happens, counts at most one attempt. A job that is between
  runs, that is, within the maximum, not RUNNING and PENDING only while attempts remain, never gets above the
  maximum, and unless an exception of another class escapes, it is again between runs. (A job that an escaping exception
  has left RUNNING at the maximum is run and counted once more, see \<open>repair_running_overcounts\<close>.)\<close>

theorem repair_attempts_bounded:
  assumes "open_plain c"
    "repair_run_job c m i w = (r, w')" "get_repair_row (view w) i = Some j"
  shows "\<exists>x. get_repair_row (view w') i = Some x \<and> rp_attempts j \<le> rp_attempts x \<and> rp_attempts x \<le> rp_attempts j + 1 \<and>
    (0 \<le> rp_attempts j \<and> rp_attempts j \<le> m \<and> rp_status j \<noteq> JS_RUNNING \<and> (rp_status j = JS_PENDING \<longrightarrow> rp_attempts j < m) \<longrightarrow>
       rp_attempts x \<le> m \<and>
       ((case r of Inl e \<Rightarrow> caught_errors e | Inr _ \<Rightarrow> True) \<longrightarrow>
          rp_status x \<noteq> JS_RUNNING \<and> (rp_status x = JS_PENDING \<longrightarrow> rp_attempts x < m)))"
proof (cases "job_over m (rp_status j) (rp_attempts j)")
  case True
  then have "view w' = view w" using assms(2,3) by (auto simp: repair_run_job_def run_simps)
  with assms(3) show ?thesis by auto
next
  case False
  from repair_run_ended [OF assms False] obtain e x where x: "get_repair_row (view w') i = Some x"
    "x = j \<or> x = repair_settle JS_FAILED e j \<or> x = repair_settle JS_SUCCEEDED e (repair_start j) \<or>
      x = repair_settle (retry_status m (rp_attempts (repair_start j))) e (repair_start j) \<or>
      \<not> (case r of Inl e \<Rightarrow> caught_errors e | Inr _ \<Rightarrow> True) \<and> x = repair_start j"
    unfolding run_ended_def repair_row_def by blast
  have "rp_attempts j \<le> rp_attempts x \<and> rp_attempts x \<le> rp_attempts j + 1"
    using x(2) by (elim disjE) (auto simp: repair_start_def repair_settle_def)
  moreover have "rp_attempts x \<le> m \<and> ((case r of Inl e \<Rightarrow> caught_errors e | Inr _ \<Rightarrow> True) \<longrightarrow>
       rp_status x \<noteq> JS_RUNNING \<and> (rp_status x = JS_PENDING \<longrightarrow> rp_attempts x < m))"
    if between: "0 \<le> rp_attempts j" "rp_attempts j \<le> m" "rp_status j \<noteq> JS_RUNNING" "rp_status j = JS_PENDING \<longrightarrow> rp_attempts j < m"
  proof -
    have set: "repair_job.settled m j" using between by (simp add: repair_job.settled_def)
    have lt: "rp_attempts j < m" using False between(2-4) by (cases "rp_status j") (auto simp: job_over_def)
    show ?thesis using x(2) repair_job.run_fails [OF set False, of e] repair_job.run_succeeds [OF set False, of e] lt between
      by (elim disjE) (auto simp: repair_job.settled_def repair_start_def repair_settle_def)
  qed
  ultimately show ?thesis using x(1) by blast
qed

theorem repair_attempts_bounded_witness:
  "\<exists>e w' x. demo_repair [''http://n1''] = (Inl e, w') \<and> get_repair_row (view w') 40 = Some x \<and> rp_attempts x \<le> 3"
proof -
  obtain e w' where r: "demo_repair [''http://n1''] = (Inl e, w')" using demo_repair_down by blast
  have "open_plain (demo_client [''http://n1''])" by (simp add: open_plain_def demo_client_def retA_def)
  from repair_attempts_bounded [OF this r [unfolded demo_repair_def] demo_row] r show ?thesis
    by (auto simp: new_repair_job_def)
qed

definition demo_stuck :: db where
  "demo_stuck = demo_cluster\<lparr>repair_jobs := [(new_repair_job 40 7 10 ''n1'' ''n2'' '''')\<lparr>rp_status := JS_RUNNING, rp_attempts := 3\<rparr>]\<rparr>"

lemma repair_running_overcounts:
  "db_inv demo_stuck \<and>
   map rp_attempts (repair_jobs (view (snd (repair_run_job (demo_client [''http://n1'', ''http://n2'']) 3 40 (demo_world demo_stuck ()))))) = [4]"
proof
  show "db_inv demo_stuck" by code_simp
  show "map rp_attempts (repair_jobs (view (snd (repair_run_job (demo_client [''http://n1'', ''http://n2'']) 3 40 (demo_world demo_stuck ()))))) = [4]"
    unfolding demo_repair_unfold by code_simp
qed

text \<open>C15. Repairing until healthy terminates and reaches its goal: with fuel for the missing replicas
  the loop never runs out, and when it returns, the version has at least the requested number of
  healthy replicas, one more for each successful job in the result.\<close>

theorem repair_until_healthy_terminates:
  assumes "db_inv (view w)" "nat (rf - int (healthy_count (view w) v)) < fuel"
    "repair_version_until_healthy fuel c m df v (Some rf) reason w = (Inr res, w')"
  shows "\<exists>rs. res = Some rs \<and> rf \<le> int (healthy_count (view w') v) \<and>
    healthy_count (view w') v = healthy_count (view w) v + length rs \<and>
    (\<forall>r\<in>set rs. rpr_status r = JS_SUCCEEDED)"
  using repair_loop_result [OF assms(1) assms(3) [unfolded repair_version_until_healthy_def option.case] assms(2)]
  by auto

theorem repair_until_healthy_terminates_witness:
  "\<exists>rs w'. repair_version_until_healthy 2 (demo_client [''http://n1'', ''http://n2'']) 3 2 10 (Some 2) '''' (demo_world demo_cluster ()) =
     (Inr (Some rs), w') \<and> length rs = 1 \<and> 2 \<le> int (healthy_count (view w') 10)"
proof -
  let ?w = "demo_world demo_cluster ()"
  let ?run = "repair_version_until_healthy 2 (demo_client [''http://n1'', ''http://n2'']) 3 2 10 (Some 2) '''' ?w"
  have hc: "healthy_count (view ?w) 10 = 1" by code_simp
  have "(case fst ?run of Inr (Some [_]) \<Rightarrow> True | _ \<Rightarrow> False)"
    unfolding repair_version_until_healthy_def numeral_2_eq_2 repair_loop.simps demo_repair_unfold by code_simp
  then obtain r w' where r: "?run = (Inr (Some [r]), w')"
    by (cases ?run) (auto split: sum.splits option.splits list.splits)
  have "db_inv (view ?w)" using demo_cluster_inv by (simp add: demo_world_def)
  from repair_until_healthy_terminates [OF this _ r] hc r show ?thesis by auto
qed

text \<open>A job whose source and target are the same node, which \<open>create_job\<close> accepts for a corrupted
  replica, can never succeed: a run needs a HEALTHY source replica and refuses a HEALTHY
  target replica, and they are the same row.\<close>

theorem repair_same_node_never_succeeds:
  assumes "db_inv (view w)" "get_repair_row (view w) i = Some j" "rp_source j = rp_target j"
    "\<not> job_over m (rp_status j) (rp_attempts j)"
  shows "\<exists>e. fst (repair_run_job c m i w) = Inl e"
proof (rule ccontr)
  assume "\<nexists>e. fst (repair_run_job c m i w) = Inl e"
  then obtain res w' where "repair_run_job c m i w = (Inr res, w')" by (metis prod.collapse sum.exhaust)
  then obtain r tr w1 where r: "find (\<lambda>r. r_version_id r = rp_version_id j \<and> r_node_id r = rp_source j \<and>
       r_status r = RS_HEALTHY) (replicas (view w)) = Some r"
    and t: "replica_for_target j (w\<lparr>in_tx := True\<rparr>) = (Inr tr, w1)"
    using assms(2,4) by (rule repair_run_stages)
  from find_replica_on [OF r assms(1)] assms(3) have "replica_on (view w) (rp_version_id j) (rp_target j) = Some r"
    "r_status r = RS_HEALTHY" by auto
  with t show False by (simp add: replica_for_target_def run_simps)
qed

theorem repair_same_node_never_succeeds_witness:
  "\<exists>e. fst (repair_run_job (demo_client [''http://n1'']) 3 40
     (demo_world (demo_cluster\<lparr>repair_jobs := [new_repair_job 40 7 10 ''n1'' ''n1'' '''']\<rparr>) ())) = Inl e"
proof (rule repair_same_node_never_succeeds [where j = "new_repair_job 40 7 10 ''n1'' ''n1'' ''''"])
  show "db_inv (view (demo_world (demo_cluster\<lparr>repair_jobs := [new_repair_job 40 7 10 ''n1'' ''n1'' '''']\<rparr>) ()))"
    by code_simp
qed (simp_all add: demo_world_def new_repair_job_def job_over_def)

end
