(* ===== verification/Durability.thy ===== *)
theory Durability
  imports Node_Client Repair
begin

text \<open>
  From the metadata to the bytes. \<open>verified_storage\<close> is what the control plane relies on in its
  storage client: a measurement that calls a version valid describes data the node holds, and
  opening a client, writing and measuring take nothing away. Under this contract the replicas that
  replication and repair call healthy hold data with the checksum and the size of the version. The
  client of \<^verbatim>\<open>replication/node_client.py\<close> on storage nodes that run
  \<^verbatim>\<open>storage/node_server.py\<close> meets the contract.
\<close>

section \<open>Database work leaves the network alone\<close>

lemma net_quiet [keeps_rules]:
  "keeps (\<lambda>w. net w = s) (query f)" "keeps (\<lambda>w. net w = s) now" "keeps (\<lambda>w. net w = s) new_uuid" "keeps (\<lambda>w. net w = s) (transaction body)"
  by (auto simp: keeps_def query_def now_def new_uuid_def transaction_def split: sum.splits prod.splits)

lemma new_uuids_net [keeps_rules]: "keeps (\<lambda>w. net w = s) (new_uuids n)"
  by (induction n) (auto intro!: keeps_bindA keeps_retA net_quiet)

lemma record_write_net [keeps_rules]: "keeps (\<lambda>w. net w = s) (record_write x)"
  unfolding record_write_def by (intro keeps_rules)

lemma finish_version_net [keeps_rules]: "keeps (\<lambda>w. net w = s) (finish_version v ns q e rs)"
  unfolding finish_version_def by (intro keeps_rules)

lemma select_nodes_net [keeps_rules]: "keeps (\<lambda>w. net w = s) (select_nodes pf v n f)"
  unfolding select_nodes_def by (intro keeps_rules) (simp_all add: keeps_def from_result_def)

lemma quiet_keeps: "(\<And>s. keeps (\<lambda>w. net w = s) m) \<Longrightarrow> keeps (\<lambda>w. P (net w)) m"
  by (simp add: keeps_def)

lemma net_call_keeps: "keeps P m \<Longrightarrow> keeps (\<lambda>w. P (net w)) (net_call m)"
  by (auto simp: keeps_def net_call_def split: prod.splits)

lemma session_net [keeps_rules]:
  "keeps (\<lambda>w. net w = s) (live f)" "keeps (\<lambda>w. net w = s) (modify g)" "keeps (\<lambda>w. net w = s) commit"
  by (simp_all add: keeps_def live_def modify_def commit_def)

lemma repair_steps_net [keeps_rules]:
  "keeps (\<lambda>w. net w = s) (mark_repair i st e)" "keeps (\<lambda>w. net w = s) (live_repair i j)" "keeps (\<lambda>w. net w = s) (replica_for_target j)"
  unfolding mark_repair_def live_repair_def replica_for_target_def by (intro keeps_rules)+

lemma repair_run_attempt:
  assumes "repair_run_job c m i w = (Inr res, w')" "get_repair_row (view w) i = Some j" "\<not> job_over m (rp_status j) (rp_attempts j)"
  obtains v tr tn sn w1 w2 where "get_version_row (view w) (rp_version_id j) = Some v"
    "replica_for_target j (w\<lparr>in_tx := True\<rparr>) = (Inr tr, w1)" "get_node_row (view w1) (rp_target j) = Some tn"
    "w2 = w1\<lparr>view := upd_repair i repair_start (view w1), stored := upd_repair i repair_start (view w1), in_tx := False\<rparr>"
    "repair_attempt c m j v sn tn tr w2 = (Inr res, w')"
  using assms lookup_by_SomeD(2) [OF assms(2)]
  unfolding repair_run_job_def repair_version_row_def query_def modify_def commit_def
  by (auto simp: retA_def raiseA_def split: if_splits option.splits elim!: bindA_InrE thenA_InrE)

lemma record_write_outcome: "record_write (r, out) w = (Inr (res, None), w') \<Longrightarrow> out = Inr res"
  by (auto simp: record_write_def retA_def raiseA_def split: sum.splits if_splits option.splits elim!: bindA_InrE thenA_InrE)

lemma list_all2_mono_in: "list_all2 P xs ys \<Longrightarrow> (\<And>x y. y \<in> set ys \<Longrightarrow> P x y \<Longrightarrow> Q x y) \<Longrightarrow> list_all2 Q xs ys"
  by (induction rule: list_all2_induct) auto

lemma record_loop_outcomes:
  assumes "forA record_write (zip rs outs) w = (Inr ys, w')" "\<forall>y\<in>set ys. snd y = None"
  shows "list_all2 (\<lambda>x y. snd x = Inr (fst y)) (zip rs outs) ys"
proof -
  have "list_all2 (\<lambda>x y. snd y = None \<longrightarrow> snd x = Inr (fst y)) (zip rs outs) ys"
    by (rule conjunct2 [OF forA_induct_ok [OF assms(1), where I = "\<lambda>_. True"]]) (auto dest: record_write_outcome)
  then show ?thesis by (rule list_all2_mono_in) (use assms(2) in auto)
qed

section \<open>The contract of the storage client\<close>

locale verified_storage =
  fixes c :: "'n client"
    and ok :: "'n \<Rightarrow> bool"
    and holds :: "'n \<Rightarrow> string \<Rightarrow> string \<Rightarrow> string \<Rightarrow> 'd \<Rightarrow> bool"
    and digest :: "'d \<Rightarrow> string"
    and len :: "'d \<Rightarrow> int"
  assumes verify_measures: "ok s \<Longrightarrow> c_verify c a ob v b s = (Inr m, t) \<Longrightarrow> vo_valid m \<Longrightarrow>
      \<exists>d. holds t a ob v d \<and> digest d = vo_checksum m \<and> len d = vo_size m"
    and calls_ok: "keeps ok (c_open c a)" "keeps ok (c_put c a ob v p)" "keeps ok (c_verify c a ob v b)"
      "keeps ok (c_delete c a ob v)" "keeps ok (c_stream c a ob v)"
    and calls_hold: "keeps (\<lambda>s. ok s \<and> holds s a' ob' v' d) (c_open c a)"
      "keeps (\<lambda>s. ok s \<and> holds s a' ob' v' d) (c_put c a ob v p)"
      "keeps (\<lambda>s. ok s \<and> holds s a' ob' v' d) (c_verify c a ob v b)"
begin

definition backed :: "'n \<Rightarrow> string \<Rightarrow> version_row \<Rightarrow> bool" where
  "backed s a v \<longleftrightarrow> (\<exists>d. holds s a (uuid_str (v_object_id v)) (uuid_str (v_id v)) d \<and>
     lower (digest d) = lower (v_checksum v) \<and> len d = v_size v)"

text \<open>The payload of a replication comes from the gateway's staging file, not from the nodes.\<close>

definition local_payload :: "(exn, 'n, payload) action \<Rightarrow> bool" where
  "local_payload pf \<longleftrightarrow> (\<forall>s. snd (pf s) = s)"

lemma local_payload_keeps: "local_payload pf \<Longrightarrow> keeps I pf"
  by (simp add: local_payload_def keeps_def)

lemma write_one_ok: "local_payload pf \<Longrightarrow> keeps ok (write_one c pf v n)"
  unfolding write_one_def by (intro keeps_rules calls_ok local_payload_keeps)

lemma write_one_holds: "local_payload pf \<Longrightarrow> keeps (\<lambda>s. ok s \<and> holds s a ob ve d) (write_one c pf v n)"
  unfolding write_one_def by (intro keeps_rules calls_hold local_payload_keeps)

lemma write_one_backed:
  assumes pf: "local_payload pf" and ok: "ok s" and run: "write_one c pf v n s = (Inr r, t)" and verified: "wr_verified r"
  shows "backed t (n_address n) v"
proof -
  let ?put = "catchA (bindA pf (\<lambda>p. thenA (c_put c (n_address n) (uuid_str (v_object_id v)) (uuid_str (v_id v)) p) (retA ())))
      (\<lambda>e. if e = ClientE StorageObjectAlreadyExistsError then retA () else raiseA e)"
  have put: "keeps ok ?put" by (intro keeps_rules calls_ok local_payload_keeps pf)
  obtain u x u1 m where s: "c_open c (n_address n) s = (Inr (), u)" "?put u = (Inr x, u1)"
    "c_verify c (n_address n) (uuid_str (v_object_id v)) (uuid_str (v_id v)) True u1 = (Inr m, t)"
    "vo_valid m" "lower (vo_checksum m) = lower (v_checksum v)" "vo_size m = v_size v"
    using run verified unfolding write_one_def
    by (auto simp: failed_write_def retA_def raiseA_def split: if_splits
        elim!: bindA_InrE thenA_InrE catchA_InrE [where m = "thenA _ _"])
  have "ok u1" using keepsD [OF put] keepsD [OF calls_ok(1)] ok s(1,2) by blast
  then show ?thesis using verify_measures [OF _ s(3,4)] s(5,6) by (auto simp: backed_def)
qed

text \<open>The writes of a replication; what one has verified the next ones keep.\<close>

lemma write_loop_backed:
  assumes pf: "local_payload pf"
  shows "ok (net w) \<Longrightarrow> forA (\<lambda>n. net_call (tryA (write_one c pf v n))) ns w = (Inr outs, w') \<Longrightarrow>
    ok (net w') \<and> (\<forall>a. backed (net w) a v \<longrightarrow> backed (net w') a v) \<and>
    list_all2 (\<lambda>n out. \<forall>r. out = Inr r \<longrightarrow> wr_verified r \<longrightarrow> backed (net w') (n_address n) v) ns outs"
proof (induction ns arbitrary: w outs)
  case (Cons n ns)
  obtain y ys w1 where y: "net_call (tryA (write_one c pf v n)) w = (Inr y, w1)" "outs = y # ys"
    and ys: "forA (\<lambda>n. net_call (tryA (write_one c pf v n))) ns w1 = (Inr ys, w')"
    using Cons.prems(2) by (auto elim!: forA_ConsE simp del: forA.simps)
  have run: "write_one c pf v n (net w) = (y, net w1)"
    using y(1) by (auto simp: net_call_def tryA_def split: prod.splits)
  have ok1: "ok (net w1)" using keepsD [OF write_one_ok [OF pf] Cons.prems(1) run] .
  have keep: "backed (net w1) a v" if "backed (net w) a v" for a
    using that keepsD [OF write_one_holds [OF pf] _ run] Cons.prems(1) unfolding backed_def by blast
  have new: "backed (net w1) (n_address n) v" if "y = Inr r" "wr_verified r" for r
    using write_one_backed [OF pf Cons.prems(1)] run that by blast
  show ?case using Cons.IH [OF ok1 ys] keep new y(2) by auto
qed (simp add: retA_def)

lemma replicate_backed:
  assumes pf: "local_payload pf" and ok: "ok (net w)" and inv: "db_inv (view w)" and v: "get_version_row (view w) vid = Some v"
    and run: "replicate_version c p vid pf rf wq e w = (Inr res, w')"
  shows "ok (net w') \<and> (\<forall>i\<in>set (rr_healthy res). \<exists>n\<in>set (nodes (view w)). n_id n = i \<and> backed (net w') (n_address n) v)"
proof -
  obtain ns ids rs rs' outs ys w1 w2 w3 w4 w5 w6 where s:
    "select_nodes (pol_factor p) vid (v_size v) (Some (case rf of None \<Rightarrow> pol_factor p | Some f \<Rightarrow> f)) (w\<lparr>in_tx := True\<rparr>) = (Inr ns, w1)"
    "new_uuids (length ns) w1 = (Inr ids, w2)" "transaction (create_replicas ids vid (map n_id ns)) w2 = (Inr rs, w3)"
    "transaction (set_replica_states (map r_id rs) RS_COPYING) w3 = (Inr rs', w4)"
    "forA (\<lambda>n. net_call (tryA (write_one c pf v n))) ns w4 = (Inr outs, w5)"
    "forA record_write (zip rs outs) w5 = (Inr ys, w6)" "\<forall>y\<in>set ys. snd y = None"
    "finish_version vid ns (case wq of None \<Rightarrow> pol_write_quorum p | Some q \<Rightarrow> q) e (map fst ys) w6 = (Inr res, w')"
    by (rule replicate_stages [OF run refl refl]) (use v in auto)
  have "net w4 = net w"
    using keepsD [OF select_nodes_net _ s(1), of "net w"] keepsD [OF new_uuids_net _ s(2), of "net w"]
      keepsD [OF net_quiet(4) _ s(3), of "net w"] keepsD [OF net_quiet(4) _ s(4), of "net w"] by simp
  then have loop: "ok (net w5)" "list_all2 (\<lambda>n out. \<forall>r. out = Inr r \<longrightarrow> wr_verified r \<longrightarrow> backed (net w5) (n_address n) v) ns outs"
    using write_loop_backed [OF pf _ s(5)] ok by auto
  have quiet: "keeps (\<lambda>w. net w = net w5) (forA record_write (zip rs outs))" by (intro keeps_rules)
  have net: "net w' = net w5" using keepsD [OF quiet _ s(6)] keepsD [OF finish_version_net _ s(8), of "net w5"] by simp
  note out = record_loop_outcomes [OF s(6,7)]
  have "\<exists>n\<in>set (nodes (view w)). n_id n = i \<and> backed (net w') (n_address n) v" if "i \<in> set (rr_healthy res)" for i
  proof -
    have "i \<in> wr_node_id ` {r \<in> fst ` set ys. wr_verified r}"
      using s(8) that by (auto simp: finish_version_def Let_def retA_def raiseA_def split: if_splits elim!: bindA_InrE thenA_InrE)
    then obtain k where k: "k < length ys" "wr_verified (fst (ys ! k))" "i = wr_node_id (fst (ys ! k))"
      by (auto simp: in_set_conv_nth)
    then have "k < length outs" "outs ! k = Inr (fst (ys ! k))"
      using list_all2_nthD2 [OF out] list_all2_lengthD [OF out] by auto
    moreover from this have "k < length ns" "backed (net w5) (n_address (ns ! k)) v" "n_id (ns ! k) = i"
      using loop(2) write_loop [OF s(5)] k by (auto simp: list_all2_conv_all_nth)
    moreover have "ns ! k \<in> set (nodes (view w))"
      using select_nodes_InrD(4) [OF s(1)] inv \<open>k < length ns\<close> by simp
    ultimately show ?thesis using net by auto
  qed
  then show ?thesis using net loop(1) by simp
qed

text \<open>A repair ends with a measurement of the copy.\<close>

lemma repair_copy_backed:
  assumes ok: "ok (net w)" and run: "repair_copy c j v sn tn tr w = (Inr res, w')"
  shows "ok (net w') \<and> backed (net w') (n_address tn) v"
proof -
  let ?ob = "uuid_str (v_object_id v)" and ?ve = "uuid_str (v_id v)"
  obtain ms u1 x u2 p u3 n u4 mt u5 where s: "net_call (c_verify c (n_address sn) ?ob ?ve True) w = (Inr ms, u1)"
    "net_call (c_delete c (n_address tn) ?ob ?ve) u1 = (Inr x, u2)" "net_call (c_stream c (n_address sn) ?ob ?ve) u2 = (Inr p, u3)"
    "net_call (c_put c (n_address tn) ?ob ?ve p) u3 = (Inr n, u4)" "net_call (c_verify c (n_address tn) ?ob ?ve True) u4 = (Inr mt, u5)"
    "agrees mt v" "net w' = net u5"
    using run unfolding repair_copy_def Let_def
    by (auto simp: retA_def raiseA_def now_def mark_repair_def modify_def commit_def live_repair_def live_def
        split: if_splits elim!: bindA_InrE thenA_InrE dest!: transaction_InrD(2))
  note n = net_callD(4)
  have "ok (net u4)"
    using ok keepsD [OF calls_ok(3) _ n [OF s(1)]] keepsD [OF calls_ok(4) _ n [OF s(2)]] keepsD [OF calls_ok(5) _ n [OF s(3)]]
      keepsD [OF calls_ok(2) _ n [OF s(4)]] by blast
  then show ?thesis using verify_measures [OF _ n [OF s(5)]] keepsD [OF calls_ok(3) _ n [OF s(5)]] s(6,7)
    by (auto simp: backed_def agrees_def matches_version_def)
qed

lemma repair_backed:
  assumes ok: "ok (net w)" and run: "repair_run_job c m i w = (Inr res, w')" and job: "get_repair_row (view w) i = Some j"
    "\<not> job_over m (rp_status j) (rp_attempts j)" and inv: "db_inv (view w)"
  shows "\<exists>v n. get_version_row (view w) (rp_version_id j) = Some v \<and> get_node_row (view w) (rp_target j) = Some n \<and>
    ok (net w') \<and> backed (net w') (n_address n) v"
proof -
  obtain v tr tn sn w1 w2 where s: "get_version_row (view w) (rp_version_id j) = Some v"
    "replica_for_target j (w\<lparr>in_tx := True\<rparr>) = (Inr tr, w1)" "get_node_row (view w1) (rp_target j) = Some tn"
    "w2 = w1\<lparr>view := upd_repair i repair_start (view w1), stored := upd_repair i repair_start (view w1), in_tx := False\<rparr>"
    "repair_attempt c m j v sn tn tr w2 = (Inr res, w')"
    by (rule repair_run_attempt [OF run job])
  have "net w1 = net w" using keepsD [OF repair_steps_net(3) _ s(2), of "net w"] by simp
  obtain x u1 y u2 where u: "net_call (c_open c (n_address sn)) w2 = (Inr x, u1)" "net_call (c_open c (n_address tn)) u1 = (Inr y, u2)"
    "repair_copy c j v sn tn tr u2 = (Inr res, w')"
    using s(5) unfolding repair_attempt_def by (auto simp: raiseA_def split: if_splits elim!: bindA_InrE thenA_InrE catchA_InrE)
  have "ok (net u2)" using ok s(4) \<open>net w1 = net w\<close> keepsD [OF calls_ok(1) _ net_callD(4) [OF u(1)]] keepsD [OF calls_ok(1) _ net_callD(4) [OF u(2)]]
    by simp
  moreover have "nodes (view w1) = nodes (view w)"
    using replica_for_target_ready [OF s(2)] inv job_target_strip [OF inv job(1)] by (simp add: target_ready_def)
  ultimately show ?thesis using repair_copy_backed [OF _ u(3)] s(1,3) by auto
qed

end

section \<open>The node client on storage nodes meets the contract\<close>

definition cluster_ok :: "cluster wire \<Rightarrow> bool" where
  "cluster_ok w \<longleftrightarrow> (\<forall>a i e. wi_net w a = Some (i, e) \<longrightarrow> engine_ok e \<and> io_works e)"

definition node_holds :: "string \<Rightarrow> rat \<Rightarrow> cluster wire \<Rightarrow> string \<Rightarrow> string \<Rightarrow> string \<Rightarrow> byte list \<Rightarrow> bool" where
  "node_holds key t w a ob v data \<longleftrightarrow> (\<exists>cf i e. client_init key t a = Inr cf \<and> wi_net w (cf_address cf) = Some (i, e) \<and> intact e (ob, v) data)"

lemma cluster_grown_refl: "cluster_ok w \<Longrightarrow> cluster_grown (wi_net w) (wi_net w)"
  by (auto simp: cluster_ok_def cluster_grown_def grown_refl)

lemma cluster_grown_ok: "cluster_ok w \<Longrightarrow> cluster_grown (wi_net w) (wi_net w') \<Longrightarrow> cluster_ok w'"
  unfolding cluster_ok_def by (auto dest!: cluster_grownD simp: grown_def settings_of_def)

lemma cluster_grown_holds: "cluster_grown (wi_net w) (wi_net w') \<Longrightarrow> node_holds key t w a ob v data \<Longrightarrow> node_holds key t w' a ob v data"
  unfolding node_holds_def cluster_grown_def by (meson grown_intact)

lemma grown_keeps:
  assumes "\<And>cl. keeps (net_grown cl) m"
  shows "keeps cluster_ok m" "keeps (\<lambda>w. cluster_ok w \<and> node_holds key t w a ob v data) m"
proof -
  have "cluster_grown (wi_net w) (wi_net (snd (m w)))" if "cluster_ok w" for w
    using assms [of "wi_net w"] cluster_grown_refl [OF that] by (simp add: keeps_def)
  then show "keeps cluster_ok m" "keeps (\<lambda>w. cluster_ok w \<and> node_holds key t w a ob v data) m"
    using cluster_grown_ok cluster_grown_holds unfolding keeps_def by blast+
qed

lemma settings_delete: "keeps (\<lambda>s. settings_of s = x) (delete_version ob v)"
  unfolding delete_version_def remove_tree_def
  by (intro keeps_rules settings_change) (auto simp: settings_of_def intro!: keeps_rules settings_change)

lemma serve_http_ok:
  assumes "engine_ok e" "io_works e"
  shows "engine_ok (snd (serve_http i q e)) \<and> io_works (snd (serve_http i q e))"
proof (cases "\<exists>ob v. q = DeleteRequest ob v")
  case True
  then obtain ob v where q: "q = DeleteRequest ob v" by blast
  have "snd (serve_http i q e) = snd (delete_version ob v e)" using q by (simp add: server_delete_def respond_snd)
  moreover have "settings_of (snd (delete_version ob v e)) = settings_of e"
    using settings_delete [of "settings_of e" ob v] by (simp add: keeps_def)
  ultimately show ?thesis using delete_ok [OF assms(1) prod.collapse [symmetric], of ob v] assms(2) by (simp add: settings_of_def)
next
  case False
  then show ?thesis using serve_http_grown [OF assms(1), of q i] assms(2) by (simp add: grown_def settings_of_def)
qed

lemma send_ok: "keeps cluster_ok (send cluster_transport cf op q)"
proof (unfold keeps_def, intro allI impI)
  fix w
  assume ok: "cluster_ok w"
  have "engine_ok t \<and> io_works t" if "wi_net w a = Some (i, e)" "serve_http i q e = (r, t)" for a i e r t
    using serve_http_ok [of e i q] ok that by (auto simp: cluster_ok_def)
  then show "cluster_ok (snd (send cluster_transport cf op q w))"
    using ok by (auto simp: cluster_ok_def send_def cluster_transport_def cluster_send_def split: option.splits prod.splits if_splits)
qed

lemma try_request_ok: "keeps cluster_ok (try_request left cluster_transport cf op q attempts attempt)"
proof (induction left arbitrary: attempt)
  case (Suc left)
  have "keeps cluster_ok (sleep_before_retry cluster_transport cf attempt)"
    by (auto simp: keeps_def sleep_before_retry_def cluster_ok_def)
  with Suc show ?case
    by (auto intro!: keeps_bindA keeps_tryA keeps_thenA keeps_raiseA keeps_retA send_ok split: sum.splits option.splits)
qed (simp add: keeps_rules)

lemma client_delete_ok: "keeps cluster_ok (c_delete (node_client cluster_transport key t) a ob v)"
  unfolding node_client_def with_client_def client_delete_def request_def
  by (simp only: Let_def client.simps) (intro keeps_rules try_request_ok)

lemma verify_measured:
  assumes "cluster_ok s" "c_verify (node_client cluster_transport key t) a ob v b s = (Inr m, s')" "vo_valid m"
  shows "\<exists>d. node_holds key t s' a ob v d \<and> sha256 d = vo_checksum m \<and> int (length d) = vo_size m"
proof -
  obtain cf where cf: "client_init key t a = Inr cf" "client_verify cluster_transport cf ob v b s = (Inr m, s')"
    using assms(2) by (auto simp: node_client_def with_client_def elim!: bindA_InrE dest!: lift_Inr)
  have "\<forall>i e. wi_net s (cf_address cf) = Some (i, e) \<longrightarrow> engine_ok e" using assms(1) by (auto simp: cluster_ok_def)
  from verify_on_cluster [OF cf(2) assms(3) client_init_policy [OF cf(1)] this] show ?thesis
    using cf(1) by (auto simp: node_holds_def)
qed

interpretation cluster: verified_storage "node_client cluster_transport key t" cluster_ok "node_holds key t" sha256 "\<lambda>d. int (length d)"
  by unfold_locales
    (simp_all add: verify_measured grown_keeps client_calls_grown client_delete_ok)

section \<open>An upload on a concrete cluster\<close>

definition sealed_db :: "string \<Rightarrow> db" where
  "sealed_db k = empty_db\<lparr>objects := [demo_object], versions := [(demo_version 11 1)\<lparr>v_checksum := k\<rparr>], nodes := [demo_node]\<rparr>"

lemma lower_checksum: "checksum_ok k \<Longrightarrow> lower k = k"
proof -
  assume "checksum_ok k"
  moreover have "\<forall>c\<in>set hexdigits. lower_char c = c" by code_simp
  ultimately show ?thesis by (auto simp: checksum_ok_def lower_def intro!: map_idI)
qed

lemma sealed_inv: "checksum_ok k \<Longrightarrow> db_inv (sealed_db k)"
proof -
  assume k: "checksum_ok k"
  let ?d = "empty_db\<lparr>objects := [demo_object]\<rparr>" and ?v = "(demo_version 11 1)\<lparr>v_checksum := k\<rparr>"
  have "strip ''a'' = ''a'' \<and> \<not> is_control CHR ''a''" by code_simp
  then have "db_inv ?d" using inv_add_object [of empty_db demo_object] db_inv_empty
    by (simp add: empty_db_def demo_object_def canonical_name_def)
  then have "db_inv (?d\<lparr>versions := versions ?d @ [?v]\<rparr>)" using k
    by (intro inv_add_version) (simp_all add: empty_db_def demo_object_def demo_version_def)
  then have "db_inv (?d\<lparr>versions := [?v], nodes := nodes empty_db @ [demo_node]\<rparr>)"
    using inv_add_node [of "?d\<lparr>versions := versions ?d @ [?v]\<rparr>" demo_node] by (simp add: empty_db_def demo_node_def strip_def is_space_def)
  then show ?thesis by (simp add: sealed_db_def empty_db_def)
qed

lemma sealed_replicates:
  assumes k: "checksum_ok k" and w: "view w = sealed_db k" "uuid_feed w (uuid_pos w) = 100"
    and wr: "write_one c pf ((demo_version 11 1)\<lparr>v_checksum := k\<rparr>) demo_node (net w) = (Inr \<lparr>wr_node_id = ''n1'', wr_status = RS_HEALTHY,
     wr_verified = True, wr_error = None, wr_checksum = Some k, wr_size = Some 3\<rparr>, t)"
  shows "\<exists>res w'. replicate_version c \<lparr>pol_factor = 1, pol_write_quorum = 1, pol_read_quorum = 1\<rparr> 11 pf None None (Some 0) w = (Inr res, w') \<and>
    rr_healthy res = [''n1'']"
proof -
  have k1: "validate_checksum k = Inr k" using k by (auto simp: validate_checksum_def lower_checksum checksum_ok_def strip_no_space)
  have n: "strip ''n1'' = ''n1''" by code_simp
  let ?v = "(demo_version 11 1)\<lparr>v_checksum := k\<rparr>" and ?r = "new_replica 100 11 ''n1''"
  let ?r1 = "?r\<lparr>r_status := RS_COPYING\<rparr>"
  let ?w1 = "w\<lparr>in_tx := True\<rparr>" and ?w2 = "w\<lparr>in_tx := True, uuid_pos := Suc (uuid_pos w)\<rparr>"
  let ?w4 = "?w2\<lparr>view := (sealed_db k)\<lparr>replicas := [?r1]\<rparr>\<rparr>"
  let ?res = "\<lparr>wr_node_id = ''n1'', wr_status = RS_HEALTHY, wr_verified = True, wr_error = None, wr_checksum = Some k, wr_size = Some 3\<rparr>"
  have 1: "get_version 11 w = (Inr ?v, ?w1)"
    by (simp add: get_version_def query_def bindA_def retA_def w sealed_db_def lookup_by_def demo_version_def)
  have 2: "select_nodes 1 11 (v_size ?v) (Some 1) ?w1 = (Inr [demo_node], ?w1)"
    by (simp add: select_nodes_eq Let_def candidates_def placeable_def w sealed_db_def empty_db_def replica_on_def lookup_by_def demo_version_def demo_node_def)
  have 3: "new_uuids (length [demo_node]) ?w1 = (Inr [100], ?w2)"
    by (simp add: new_uuid_def bindA_def retA_def w)
  have 4: "transaction (create_replicas [100] 11 (map n_id [demo_node])) ?w2 = (Inr [?r], ?w2\<lparr>view := (sealed_db k)\<lparr>replicas := [?r]\<rparr>\<rparr>)"
    by (simp add: transaction_def create_replicas_def new_replicas_def new_replica_def n demo_node_def w sealed_db_def empty_db_def lookup_by_def
        demo_version_def replica_on_def Let_def)
  have 5: "transaction (set_replica_states (map r_id [?r]) RS_COPYING) (?w2\<lparr>view := (sealed_db k)\<lparr>replicas := [?r]\<rparr>\<rparr>) = (Inr [?r1], ?w4)"
    by (simp add: transaction_def set_replica_states_def new_replica_def Let_def)
  have 6: "forA (\<lambda>n. net_call (tryA (write_one c pf ?v n))) [demo_node] ?w4 = (Inr [Inr ?res], ?w4\<lparr>net := t\<rparr>)"
    by (simp add: bindA_def retA_def net_call_def tryA_def wr)
  have 7: "\<exists>u. forA record_write (zip [?r] [Inr ?res]) (?w4\<lparr>net := t\<rparr>) = (Inr [(?res, None)], u) \<and> get_version_row (view u) 11 = Some ?v \<and> objects (view u) = [demo_object]"
    by (simp add: record_write_def bindA_def thenA_def retA_def now_def transaction_def mark_replica_healthy_def k1 lock_replica_def lookup_by_def new_replica_def
       sealed_db_def demo_version_def upd_replica_def Let_def)
  then obtain u where u: "forA record_write (zip [?r] [Inr ?res]) (?w4\<lparr>net := t\<rparr>) = (Inr [(?res, None)], u)" "get_version_row (view u) 11 = Some ?v"
    "objects (view u) = [demo_object]" by blast
  have "\<exists>w'. finish_version 11 [demo_node] 1 (Some 0) (map fst [(?res, None :: exn option)]) u = (Inr \<lparr>rr_version_id = 11, rr_selected = [''n1''], rr_healthy = [''n1''], rr_failed = [], rr_committed = True\<rparr>, w')"
    using u(2,3) by (simp add: finish_version_def bindA_def thenA_def retA_def now_def transaction_def commit_version_def validate_expected_version_def some_or_def
      lock_object_def current_version_number_def expected_matches_def demo_version_def demo_object_def demo_node_def lookup_by_def Let_def)
  then obtain w' where "finish_version 11 [demo_node] 1 (Some 0) (map fst [(?res, None :: exn option)]) u =
      (Inr \<lparr>rr_version_id = 11, rr_selected = [''n1''], rr_healthy = [''n1''], rr_failed = [], rr_committed = True\<rparr>, w')" by blast
  then show ?thesis
    using 1 2 3 4 5 6 u(1) by (simp add: replicate_version_def bindA_def thenA_def Let_def del: forA.simps new_uuids.simps list.map zip.simps)
qed

lemma demo_direct: "client_init '' secret '' 30 ''http://n1'' = Inr demo_config"
proof -
  have "check_address ''http://n1'' = Inr ''http://n1''" by code_simp
  then show ?thesis
    by (simp add: client_init_def make_client_config_def demo_address Let_def make_timeouts_def default_timeouts_def demo_config_def)
qed

lemma demo_ids: "valid_ids (uuid_str 1, uuid_str 11)"
  by code_simp

lemma demo_write_one:
  "\<exists>t. write_one (node_client cluster_transport '' secret '' 30) (retA (Payload [[1, 2, 3]] None)) ((demo_version 11 1)\<lparr>v_checksum := sha256 [1, 2, 3]\<rparr>) demo_node demo_wire =
    (Inr \<lparr>wr_node_id = ''n1'', wr_status = RS_HEALTHY, wr_verified = True, wr_error = None, wr_checksum = Some (sha256 [1, 2, 3]), wr_size = Some 3\<rparr>, t)"
proof -
  let ?p = "Payload [[1, 2, 3]] None" and ?ob = "uuid_str 1" and ?ve = "uuid_str 11"
  obtain n e where run: "write_with False (?ob, ?ve) ?p demo_engine = (Inr n, e)"
    using write_completes [OF demo_engine_ok(1), of ?p "(?ob, ?ve)" False] demo_ids by (auto simp: demo_engine_def logical_free_def)
  note w = write_run [OF demo_engine_ok(1) run]
  have e: "n = 3" "stores e (?ob, ?ve) [1, 2, 3]" "io_works e" "length [1, 2, 3 :: byte] \<le> en_chunk_size e * MAX_VERIFY_CHUNKS"
    using w by (simp_all add: stores_def demo_engine_def MAX_VERIFY_CHUNKS_def)
  have net: "wi_net demo_wire (cf_address demo_config) = Some (''n1'', demo_engine)" by (simp add: demo_wire_def demo_config_def)
  have policy: "policy_ok (cf_retry demo_config)" by (rule client_init_policy [OF demo_direct])
  let ?w = "demo_wire\<lparr>wi_net := (wi_net demo_wire)(cf_address demo_config \<mapsto> (''n1'', e)), wi_log := wi_log demo_wire @ [PutRequest ?ob ?ve ?p]\<rparr>"
  have put: "client_put cluster_transport demo_config ?ob ?ve ?p demo_wire = (Inr 3, ?w)"
    using put_on_cluster [OF net _ _ demo_engine_ok(1) policy, of ?ob ?ve ?p n e] run e(1) by (simp add: write_stream_def)
  obtain w' where "client_verify cluster_transport demo_config ?ob ?ve True ?w =
      (Inr \<lparr>vo_size = 3, vo_checksum = sha256 [1, 2, 3], vo_verified = True, vo_valid = True\<rparr>, w')"
    using verify_stored_on_cluster [OF _ e(2,3,4) policy, of ?w "''n1''" True] by auto
  then show ?thesis using put
    by (simp add: write_one_def node_client_def with_client_def thenA_def bindA_def catchA_def retA_def lift_run demo_direct demo_node_def demo_version_def)
qed

end
