(* ===== verification/Rebalance.thy ===== *)
theory Rebalance
  imports Repair
begin

text \<open>
  \<^verbatim>\<open>rebalance/manager.py\<close>: moving a replica to another node, copy before delete, and
  draining a node. The safety argument is the order of the steps: the source is removed only
  after the target has been verified and only while more than the replication factor of
  healthy replicas exist.
\<close>

section \<open>Jobs and targets\<close>

definition rebalance_start :: "rebalance_job \<Rightarrow> rebalance_job" where
  "rebalance_start j = j\<lparr>rb_status := JS_RUNNING, rb_attempts := rb_attempts j + 1, rb_last_error := None\<rparr>"

definition rebalance_settle :: "job_status \<Rightarrow> err_text option \<Rightarrow> rebalance_job \<Rightarrow> rebalance_job" where
  "rebalance_settle st e j = j\<lparr>rb_status := st, rb_attempts := rb_attempts j + 0, rb_last_error := e\<rparr>"

interpretation rebalance_job: job_discipline rb_status rb_attempts rebalance_start rebalance_settle
  by unfold_locales (simp_all add: rebalance_start_def rebalance_settle_def)

definition rebalance_version :: "uuid \<Rightarrow> ('n, version_row) act" where
  "rebalance_version version_id =
     bindA (query (\<lambda>d. get_version_row d version_id)) (\<lambda>found.
     case found of
       None \<Rightarrow> raiseA (VaultE (ObjectNotFound (UuidId version_id)))
     | Some v \<Rightarrow> if v_state v \<noteq> VS_COMMITTED then raiseA (VaultE InvalidState) else retA v)"

definition require_node :: "string \<Rightarrow> ('n, node_row) act" where
  "require_node node_id =
     bindA (query (\<lambda>d. get_node_row d node_id)) (\<lambda>found.
     case found of None \<Rightarrow> raiseA (VaultE (ObjectNotFound (TextId node_id))) | Some n \<Rightarrow> retA n)"

definition first_of :: "'a list \<Rightarrow> 'a option" where
  "first_of xs = (case xs of [] \<Rightarrow> None | x # _ \<Rightarrow> Some x)"

definition active_rebalance :: "uuid \<Rightarrow> string \<Rightarrow> db \<Rightarrow> rebalance_job option" where
  "active_rebalance version_id target d =
     first_of (sort_key rb_created_at (filter (\<lambda>j. rb_version_id j = version_id \<and> rb_target j = target \<and>
       rb_status j \<in> {JS_PENDING, JS_RUNNING}) (rebalance_jobs d)))"

definition eligible_target :: "version_row \<Rightarrow> string list \<Rightarrow> ('n, node_row) act" where
  "eligible_target v excluded =
     bindA (query (\<lambda>d. first_of (sort_key node_order (filter (\<lambda>n. n_status n = NS_HEALTHY \<and>
       v_size v \<le> n_capacity n - n_used n \<and> replica_on d (v_id v) (n_id n) = None \<and>
       n_id n \<notin> set excluded) (nodes d))))) (\<lambda>cand.
     case cand of None \<Rightarrow> raiseA (VaultE (VaultError INSUFFICIENT_REPLICAS 503)) | Some n \<Rightarrow> retA n)"

definition new_rebalance_job :: "uuid \<Rightarrow> time \<Rightarrow> uuid \<Rightarrow> string \<Rightarrow> string \<Rightarrow> rebalance_job" where
  "new_rebalance_job i t version_id source target =
     \<lparr>rb_id = i, rb_version_id = version_id, rb_source = source, rb_target = target,
      rb_status = JS_PENDING, rb_attempts = 0, rb_last_error = None, rb_created_at = t\<rparr>"

definition rebalance_create_job :: "uuid \<Rightarrow> string \<Rightarrow> string \<Rightarrow> ('n, rebalance_job) act" where
  "rebalance_create_job version_id source target =
     bindA (rebalance_version version_id) (\<lambda>v.
     if source = target then raiseA ValueError else
     thenA (require_node source)
     (bindA (require_node target) (\<lambda>tn.
     bindA (query (\<lambda>d. replica_on d version_id source)) (\<lambda>source_replica.
     case source_replica of
       None \<Rightarrow> raiseA (VaultE (ObjectNotFound
         (TextId (''Replica for version '' @ uuid_str version_id @ '' on '' @ source))))
     | Some sr \<Rightarrow>
     if r_status sr \<noteq> RS_HEALTHY then raiseA (VaultE InvalidState) else
     if n_status tn \<noteq> NS_HEALTHY then raiseA (VaultE (VaultError NODE_UNAVAILABLE 503)) else
     if free_bytes tn < v_size v then raiseA (VaultE (VaultError STORAGE_FULL 507)) else
     bindA (query (\<lambda>d. replica_on d version_id target)) (\<lambda>existing.
     if existing \<noteq> None then raiseA (VaultE InvalidState) else
     bindA (query (active_rebalance version_id target)) (\<lambda>active.
     case active of
       Some j \<Rightarrow> retA j
     | None \<Rightarrow> bindA new_uuid (\<lambda>i. bindA now (\<lambda>created.
         add_commit (insert_rebalance (new_rebalance_job i created version_id source target))))))))))"

definition target_replica :: "rebalance_job \<Rightarrow> ('n, replica_row) act" where
  "target_replica job =
     bindA (query (\<lambda>d. replica_on d (rb_version_id job) (rb_target job))) (\<lambda>found.
     bindA (case found of
         Some r \<Rightarrow> retA r
       | None \<Rightarrow> bindA new_uuid (\<lambda>i. transaction (create_replica i (rb_version_id job) (rb_target job)))) (\<lambda>r.
     if r_status r = RS_HEALTHY then retA r
     else if r_status r = RS_PENDING
       then thenA (transaction (set_replica_state (r_id r) RS_COPYING)) (retA r)
     else if r_status r \<in> {RS_CORRUPTED, RS_STALE, RS_UNAVAILABLE}
       then thenA (transaction (set_replica_state (r_id r) RS_REPAIRING))
         (thenA (transaction (set_replica_state (r_id r) RS_COPYING)) (retA r))
     else if r_status r \<noteq> RS_COPYING then raiseA (VaultE InvalidState)
     else retA r))"

definition matches_metadata :: "verified_object \<Rightarrow> version_row \<Rightarrow> bool" where
  "matches_metadata m v \<longleftrightarrow> vo_verified m \<and> vo_valid m \<and> matches_version m v"

definition mark_rebalance :: "uuid \<Rightarrow> job_status \<Rightarrow> err_text option \<Rightarrow> ('n, unit) act" where
  "mark_rebalance i st e = thenA (modify (upd_rebalance i (rebalance_settle st e))) commit"

record rebalance_result =
  rbr_id :: uuid
  rbr_version_id :: uuid
  rbr_source :: string
  rbr_target :: string
  rbr_status :: job_status
  rbr_attempts :: int
  rbr_source_removed :: bool

definition rebalance_result_of :: "rebalance_job \<Rightarrow> bool \<Rightarrow> rebalance_result" where
  "rebalance_result_of j removed = \<lparr>rbr_id = rb_id j, rbr_version_id = rb_version_id j,
     rbr_source = rb_source j, rbr_target = rb_target j, rbr_status = rb_status j,
     rbr_attempts = rb_attempts j, rbr_source_removed = removed\<rparr>"

definition live_rebalance :: "uuid \<Rightarrow> rebalance_job \<Rightarrow> ('n, rebalance_job) act" where
  "live_rebalance i j = live (\<lambda>d. case get_rebalance_row d i of None \<Rightarrow> j | Some x \<Rightarrow> x)"

section \<open>Running a job\<close>

text \<open>A target copied by an earlier attempt is only verified again.\<close>

definition recheck_target ::
  "'n client \<Rightarrow> version_row \<Rightarrow> node_row \<Rightarrow> replica_row option \<Rightarrow> ('n, replica_row option) act" where
  "recheck_target c v tn target =
     (case target of
        Some r \<Rightarrow>
          if r_status r = RS_HEALTHY then
            bindA (net_call (c_verify c (n_address tn) (uuid_str (v_object_id v)) (uuid_str (v_id v)) True)) (\<lambda>m.
            if \<not> matches_metadata m v
            then thenA (transaction (set_replica_state (r_id r) RS_CORRUPTED)) (retA None)
            else retA (Some r))
          else retA (Some r)
      | None \<Rightarrow> retA None)"

definition copy_replica ::
  "'n client \<Rightarrow> rebalance_job \<Rightarrow> version_row \<Rightarrow> node_row \<Rightarrow> node_row \<Rightarrow> ('n, unit) act" where
  "copy_replica c job v sn tn =
     (let ob = uuid_str (v_object_id v); ve = uuid_str (v_id v) in
      bindA (query (\<lambda>d. find (\<lambda>r. r_version_id r = rb_version_id job \<and> r_node_id r = rb_source job \<and>
         r_status r = RS_HEALTHY) (replicas d))) (\<lambda>source_replica.
      if source_replica = None then raiseA (VaultE InvalidState) else
      bindA (net_call (c_verify c (n_address sn) ob ve True)) (\<lambda>ms.
      if \<not> matches_metadata ms v then raiseA (ClientE StorageNodeIntegrityError) else
      bindA (target_replica job) (\<lambda>tr.
      thenA (net_call (c_delete c (n_address tn) ob ve))
      (bindA (net_call (c_stream c (n_address sn) ob ve)) (\<lambda>p.
      thenA (net_call (c_put c (n_address tn) ob ve p))
      (bindA (net_call (c_verify c (n_address tn) ob ve True)) (\<lambda>mt.
      if \<not> matches_metadata mt v then raiseA (ClientE StorageNodeIntegrityError) else
      bindA now (\<lambda>t.
      thenA (transaction (mark_replica_healthy t (r_id tr) (vo_checksum mt) (vo_size mt))) (retA ()))))))))))"

definition drop_source ::
  "'n client \<Rightarrow> int \<Rightarrow> rebalance_job \<Rightarrow> version_row \<Rightarrow> node_row \<Rightarrow> ('n, rebalance_result) act" where
  "drop_source c rf job v sn =
     bindA (query (\<lambda>d. healthy_count d (rb_version_id job))) (\<lambda>n.
     if rf < int n then
       thenA (net_call (c_delete c (n_address sn) (uuid_str (v_object_id v)) (uuid_str (v_id v))))
       (bindA (query (\<lambda>d. replica_on d (rb_version_id job) (rb_source job))) (\<lambda>sr.
       thenA (case sr of None \<Rightarrow> retA () | Some r \<Rightarrow> thenA (transaction (remove_replica (r_id r))) (retA ()))
       (thenA (mark_rebalance (rb_id job) JS_SUCCEEDED None)
       (bindA (live_rebalance (rb_id job) job) (\<lambda>j. retA (rebalance_result_of j True))))))
     else raiseA (VaultE InvalidState))"

definition rebalance_move ::
  "'n client \<Rightarrow> int \<Rightarrow> rebalance_job \<Rightarrow> version_row \<Rightarrow> node_row \<Rightarrow> node_row \<Rightarrow> replica_row option \<Rightarrow>
     ('n, rebalance_result) act" where
  "rebalance_move c rf job v sn tn target =
     bindA (recheck_target c v tn target) (\<lambda>tr.
     thenA (if (case tr of None \<Rightarrow> True | Some r \<Rightarrow> r_status r \<noteq> RS_HEALTHY)
            then copy_replica c job v sn tn else retA ())
     (drop_source c rf job v sn))"

definition rebalance_run_job :: "'n client \<Rightarrow> int \<Rightarrow> int \<Rightarrow> uuid \<Rightarrow> ('n, rebalance_result) act" where
  "rebalance_run_job c rf max_attempts rebalance_id =
     bindA (query (\<lambda>d. get_rebalance_row d rebalance_id)) (\<lambda>found.
     case found of
       None \<Rightarrow> raiseA (VaultE (ObjectNotFound (UuidId rebalance_id)))
     | Some job \<Rightarrow>
       if rb_status job = JS_SUCCEEDED then retA (rebalance_result_of job True) else
       if rb_status job = JS_FAILED \<and> max_attempts \<le> rb_attempts job then retA (rebalance_result_of job False) else
       bindA (rebalance_version (rb_version_id job)) (\<lambda>v.
       bindA (require_node (rb_source job)) (\<lambda>sn.
       bindA (require_node (rb_target job)) (\<lambda>tn.
       bindA (query (\<lambda>d. replica_on d (rb_version_id job) (rb_target job))) (\<lambda>target.
       thenA (modify (upd_rebalance rebalance_id rebalance_start))
       (thenA commit
       (thenA (net_call (c_open c (n_address sn)))
       (thenA (net_call (c_open c (n_address tn)))
       (catchA (rebalance_move c rf job v sn tn target)
         (\<lambda>e. if caught_errors e
              then bindA (live_rebalance rebalance_id job) (\<lambda>j.
                   thenA (mark_rebalance rebalance_id (retry_status max_attempts (rb_attempts j)) (Some (ErrExn e)))
                     (raiseA e))
              else raiseA e))))))))))"

definition migrate_replica :: "'n client \<Rightarrow> int \<Rightarrow> int \<Rightarrow> uuid \<Rightarrow> string \<Rightarrow> string \<Rightarrow> ('n, rebalance_result) act" where
  "migrate_replica c rf max_attempts version_id source target =
     bindA (rebalance_create_job version_id source target) (\<lambda>job.
       rebalance_run_job c rf max_attempts (rb_id job))"

definition source_for_version :: "uuid \<Rightarrow> string \<Rightarrow> ('n, replica_row) act" where
  "source_for_version version_id excluded =
     bindA (query (\<lambda>d. first_of (sort_key source_order (filter (\<lambda>r. r_version_id r = version_id \<and>
       r_node_id r \<noteq> excluded \<and> r_status r = RS_HEALTHY \<and>
       (case get_node_row d (r_node_id r) of None \<Rightarrow> False | Some n \<Rightarrow> n_status n = NS_HEALTHY) \<and>
       r_checksum r \<noteq> None) (replicas d))))) (\<lambda>found.
     case found of None \<Rightarrow> raiseA (VaultE (VaultError NODE_UNAVAILABLE 503)) | Some r \<Rightarrow> retA r)"

section \<open>Draining a node\<close>

definition committed_version :: "db \<Rightarrow> uuid \<Rightarrow> bool" where
  "committed_version d v \<longleftrightarrow> (case get_version_row d v of None \<Rightarrow> False | Some x \<Rightarrow> v_state x = VS_COMMITTED)"

definition drain_replica ::
  "'n client \<Rightarrow> int \<Rightarrow> int \<Rightarrow> string \<Rightarrow> uuid \<Rightarrow> ('n, rebalance_result list) act" where
  "drain_replica c rf m node_id replica_id =
     bindA (query (\<lambda>d. get_replica_row d replica_id)) (\<lambda>found.
     case found of
       None \<Rightarrow> retA []
     | Some r \<Rightarrow>
         if r_status r \<noteq> RS_HEALTHY then raiseA (VaultE InvalidState) else
         bindA (rebalance_version (r_version_id r)) (\<lambda>v.
         bindA (eligible_target v [node_id]) (\<lambda>tn.
         bindA (migrate_replica c rf m (v_id v) node_id (n_id tn)) (\<lambda>res. retA [res]))))"

definition drain_node :: "'n client \<Rightarrow> int \<Rightarrow> int \<Rightarrow> string \<Rightarrow> ('n, rebalance_result list) act" where
  "drain_node c rf m node_id =
     bindA (require_node node_id) (\<lambda>n0.
     bindA (if n_status n0 = NS_HEALTHY
            then thenA (transaction (transition_node_state node_id NS_DRAINING)) (require_node node_id)
            else retA n0) (\<lambda>n.
     if n_status n \<noteq> NS_DRAINING then raiseA (VaultE InvalidState) else
     bindA (query (\<lambda>d. sort_key id (map r_id (filter (\<lambda>r. r_node_id r = node_id \<and>
       committed_version d (r_version_id r)) (replicas d))))) (\<lambda>ids.
     bindA (forA (drain_replica c rf m node_id) ids) (\<lambda>rss.
     bindA (query (\<lambda>d. count_rows (\<lambda>r. r_node_id r = node_id) (replicas d))) (\<lambda>remaining.
     thenA (if remaining = 0 then thenA (transaction (transition_node_state node_id NS_REMOVED)) (retA ()) else retA ())
       (retA (concat rss)))))))"

section \<open>Preservation\<close>

lemma rebalance_update_step:
  "ctl_step d (upd_rebalance i rebalance_start d)" "ctl_step d (upd_rebalance i (rebalance_settle st e) d)"
proof -
  show "ctl_step d (upd_rebalance i rebalance_start d)"
    using ctl_rebalance [where n = 1 and d = d and i = i and st = JS_RUNNING and e = None]
    by (simp add: rebalance_start_def [abs_def])
  show "ctl_step d (upd_rebalance i (rebalance_settle st e) d)"
    using ctl_rebalance [where n = 0 and d = d and i = i and st = st and e = e]
    by (simp add: rebalance_settle_def [abs_def])
qed

lemma add_rebalance_keeps [keeps_rules]:
  "keeps (sound d0) (add_commit (insert_rebalance (new_rebalance_job i t v s tg)))"
proof -
  have "(new_rebalance_job i t v s tg)\<lparr>rb_attempts := 0\<rparr> = new_rebalance_job i t v s tg"
    by (simp add: new_rebalance_job_def)
  then show ?thesis using op_insert_rebalance.sound_add_commit [of d0 "new_rebalance_job i t v s tg"] by simp
qed

lemma rebalance_sound [keeps_rules]:
  "keeps (sound d0) (rebalance_version v)" "keeps (sound d0) (require_node n)"
  "keeps (sound d0) (eligible_target vr ex)" "keeps (sound d0) (target_replica j)"
  "keeps (sound d0) (mark_rebalance i st e)" "keeps (sound d0) (live_rebalance i j)"
  "keeps (sound d0) (source_for_version v n)"
  unfolding rebalance_version_def require_node_def eligible_target_def target_replica_def mark_rebalance_def
    live_rebalance_def source_for_version_def
  by (intro keeps_rules rebalance_update_step)+

lemma rebalance_create_sound [keeps_rules]: "keeps (sound d0) (rebalance_create_job v s t)"
  unfolding rebalance_create_job_def by (intro keeps_rules)

lemma rebalance_move_sound [keeps_rules]: "keeps (sound d0) (rebalance_move c rf j v sn tn tr)"
  unfolding rebalance_move_def recheck_target_def copy_replica_def drop_source_def Let_def
  by (intro keeps_rules)

lemma rebalance_run_sound [keeps_rules]: "keeps (sound d0) (rebalance_run_job c rf m i)"
  unfolding rebalance_run_job_def by (intro keeps_rules rebalance_update_step)

lemma drain_sound [keeps_rules]:
  "keeps (sound d0) (migrate_replica c rf m v s t)" "keeps (sound d0) (drain_replica c rf m n r)"
  "keeps (sound d0) (drain_node c rf m n)"
  unfolding drain_node_def drain_replica_def migrate_replica_def by (intro keeps_rules)+

lemma rebalance_ahead [keeps_rules]:
  "keeps (ahead d0) (rebalance_version v)" "keeps (ahead d0) (require_node n)"
  "keeps (ahead d0) (eligible_target vr ex)" "keeps (ahead d0) (target_replica j)"
  "keeps (ahead d0) (mark_rebalance i st e)" "keeps (ahead d0) (live_rebalance i j)"
  unfolding rebalance_version_def require_node_def eligible_target_def target_replica_def mark_rebalance_def
    live_rebalance_def
  by (intro keeps_rules rebalance_update_step)+

lemma rebalance_move_ahead [keeps_rules]:
  "keeps (ahead d0) (recheck_target c v tn tr)" "keeps (ahead d0) (copy_replica c j v sn tn)"
  "keeps (ahead d0) (drop_source c rf j v sn)" "keeps (ahead d0) (rebalance_move c rf j v sn tn tr)"
  unfolding rebalance_move_def recheck_target_def copy_replica_def drop_source_def Let_def
  by (intro keeps_rules)+

lemma rebalance_run_ahead [keeps_rules]: "keeps (ahead d0) (rebalance_run_job c rf m i)"
  unfolding rebalance_run_job_def by (intro keeps_rules rebalance_update_step)

section \<open>A successful move\<close>

text \<open>A replica row of the version on the node, whatever its state.\<close>

definition holds_row :: "db \<Rightarrow> uuid \<Rightarrow> uuid \<Rightarrow> string \<Rightarrow> bool" where
  "holds_row d i v n \<longleftrightarrow> (\<exists>q. get_replica_row d i = Some q \<and> r_version_id q = v \<and> r_node_id q = n)"

lemma holds_row_set_state:
  "set_replica_state k st d = Inr (r, d') \<Longrightarrow> holds_row d i v n \<Longrightarrow> holds_row d' i v n"
  using set_replica_state_frame(4,5,10) [of k st d r d'] by (cases "i = k") (auto simp: holds_row_def)

lemma job_nodes_strip:
  assumes "db_inv d" "get_rebalance_row d i = Some j"
  shows "strip (rb_target j) = rb_target j" "rb_id j = i" "0 \<le> rb_attempts j"
proof -
  have "j \<in> set (rebalance_jobs d)" "rb_id j = i" using lookup_by_SomeD [OF assms(2)] by auto
  then have "rb_target j \<in> n_id ` set (nodes d)" "0 \<le> rb_attempts j" using assms(1) by (simp_all add: inv_defs)
  then show "strip (rb_target j) = rb_target j" "0 \<le> rb_attempts j" using assms(1) by (auto simp: inv_defs)
  show "rb_id j = i" by fact
qed

lemma create_replica_holds:
  assumes "create_replica i v n d = Inr (r, d')" "db_inv d" "strip n = n"
  shows "holds_row d' (r_id r) v n"
proof -
  note f = create_replica_frame [OF assms(1)]
  have "get_replica_row d' (r_id r) = Some r"
    unfolding lookup_by_Some_iff [OF db_inv_distinct(6) [OF create_replica_inv [OF assms(1,2)]]] by (simp add: f(4))
  then show ?thesis using f(5) assms(3) by (simp add: holds_row_def new_replica_def)
qed

lemma target_replica_holds:
  assumes "target_replica j w = (Inr r, w')" "db_inv (view w)" "strip (rb_target j) = rb_target j"
  shows "holds_row (view w') (r_id r) (rb_version_id j) (rb_target j)"
proof -
  from assms(1) obtain w1 where start: "(case replica_on (view w) (rb_version_id j) (rb_target j) of
         Some r \<Rightarrow> retA r
       | None \<Rightarrow> bindA new_uuid (\<lambda>i. transaction (create_replica i (rb_version_id j) (rb_target j))))
       (w\<lparr>in_tx := True\<rparr>) = (Inr r, w1)"
    and rest: "view w' = view w1 \<or> (\<exists>x. set_replica_state (r_id r) RS_COPYING (view w1) = Inr (x, view w')) \<or>
      (\<exists>x y d. set_replica_state (r_id r) RS_REPAIRING (view w1) = Inr (x, d) \<and>
         set_replica_state (r_id r) RS_COPYING d = Inr (y, view w'))"
    unfolding target_replica_def
    by (auto simp: run_simps split: if_splits elim!: bindA_InrE thenA_InrE dest!: transaction_InrD(1))
  have "holds_row (view w1) (r_id r) (rb_version_id j) (rb_target j)"
  proof (cases "replica_on (view w) (rb_version_id j) (rb_target j)")
    case (Some q)
    then show ?thesis using start replica_on_SomeD [OF Some assms(2)] by (auto simp: run_simps holds_row_def)
  next
    case None
    then obtain i w0 where "transaction (create_replica i (rb_version_id j) (rb_target j))
        (w\<lparr>in_tx := True, uuid_pos := w0\<rparr>) = (Inr r, w1)" using start by (auto simp: run_simps)
    from create_replica_holds [OF transaction_InrD(1) [OF this]] assms(2,3) show ?thesis by simp
  qed
  with rest show ?thesis using holds_row_set_state by (metis (no_types))
qed

lemma holds_row_marked:
  assumes "mark_replica_healthy t i cs sz d = Inr (x, d')" "holds_row d i v n" "db_inv d"
  shows "\<exists>q. replica_on d' v n = Some q \<and> r_status q = RS_HEALTHY"
proof -
  note f = mark_replica_healthy_frame [OF assms(1)]
  have x: "r_version_id x = v" "r_node_id x = n" using f(10) assms(2) by (auto simp: holds_row_def)
  have "marked d' x" using f(5,6) lookup_by_SomeD(2) [OF f(5)] by (auto simp: marked_def)
  from marked_replica_on [OF mark_replica_healthy_inv [OF assms(1,3)] this] x show ?thesis by simp
qed

lemma copy_replica_target:
  fixes w :: "'n world"
  assumes "copy_replica c j v sn tn w = (Inr u, w')" "db_inv (view w)" "strip (rb_target j) = rb_target j"
  shows "\<exists>q. replica_on (view w') (rb_version_id j) (rb_target j) = Some q \<and> r_status q = RS_HEALTHY"
proof -
  from assms(1) obtain tr t cs sz x and w1 w2 :: "'n world" where
    w1: "view w1 = view w" and tr: "target_replica j w1 = (Inr tr, w2)"
    and mk: "mark_replica_healthy t (r_id tr) cs sz (view w2) = Inr (x, view w')"
    unfolding copy_replica_def Let_def
    by (auto simp: run_simps split: if_splits elim!: bindA_InrE thenA_InrE dest!: transaction_InrD(1) net_callD(1))
  have inv: "db_inv (view w1)" using assms(2) w1 by simp
  have "db_inv (view w2)" using ahead_run(2) [OF rebalance_ahead(4) tr inv] .
  from holds_row_marked [OF mk target_replica_holds [OF tr inv assms(3)] this] show ?thesis .
qed

lemma recheck_target_Inr:
  assumes "recheck_target c v tn target w = (Inr tr, w')"
  shows "case tr of None \<Rightarrow> True | Some r \<Rightarrow> target = Some r \<and> view w' = view w"
  using assms unfolding recheck_target_def
  by (auto simp: run_simps split: option.splits if_splits elim!: bindA_InrE thenA_InrE dest!: net_callD(1))

lemma remove_replica_count:
  assumes "remove_replica i d = Inr (r, d')" "db_inv d"
  shows "healthy_count d v \<le> healthy_count d' v + 1"
proof -
  from assms(1) have r: "get_replica_row d i = Some r" "d' = d\<lparr>replicas := remove_by r_id i (replicas d)\<rparr>"
    by (auto simp: remove_replica_def lock_replica_def result_iffs split: if_splits)
  show ?thesis
    using count_remove_by [OF db_inv_distinct(6) [OF assms(2)] r(1),
        of "\<lambda>r. r_version_id r = v \<and> r_status r = RS_HEALTHY"]
    by (simp add: healthy_count_def r(2) split: if_splits)
qed

lemma remove_replica_others:
  assumes "remove_replica (r_id s) d = Inr (r, d')" "replica_on d v n = Some s" "db_inv d"
  shows "replica_on d' v n = None" "v' \<noteq> v \<or> n' \<noteq> n \<Longrightarrow> replica_on d' v' n' = replica_on d v' n'"
proof -
  let ?key = "\<lambda>r. (r_version_id r, r_node_id r)"
  have s: "get_replica_row d (r_id s) = Some s" "?key s = (v, n)"
    using replica_on_SomeD [OF assms(2,3)] by auto
  have "remove_by r_id (r_id s) (replicas d) = remove_by ?key (v, n) (replicas d)"
    unfolding remove_by_def
  proof (rule filter_cong [OF refl])
    fix x
    assume x: "x \<in> set (replicas d)"
    have "x = s" if "r_id x = r_id s"
      using only_row [OF db_inv_distinct(6) [OF assms(3)] s(1) x that] .
    moreover have "x = s" if "?key x = (v, n)"
      using only_row [OF db_inv_distinct(7) [OF assms(3)] assms(2) [unfolded replica_on_def] x that] .
    ultimately show "(r_id x \<noteq> r_id s) = (?key x \<noteq> (v, n))" using s(2) by auto
  qed
  moreover have "d' = d\<lparr>replicas := remove_by r_id (r_id s) (replicas d)\<rparr>"
    using assms(1) by (auto simp: remove_replica_def result_iffs split: if_splits)
  ultimately have "replicas d' = remove_by ?key (v, n) (replicas d)" by simp
  then show "replica_on d' v n = None" "v' \<noteq> v \<or> n' \<noteq> n \<Longrightarrow> replica_on d' v' n' = replica_on d v' n'"
    by (auto simp: replica_on_def lookup_remove_by)
qed

lemma upd_rebalance_frame [simp]:
  "objects (upd_rebalance i f d) = objects d" "versions (upd_rebalance i f d) = versions d"
  "nodes (upd_rebalance i f d) = nodes d" "replicas (upd_rebalance i f d) = replicas d"
  "replica_on (upd_rebalance i f d) v n = replica_on d v n"
  "healthy_count (upd_rebalance i f d) v = healthy_count d v"
  by (simp_all add: upd_rebalance_def replica_on_def healthy_count_def)

lemma thenA_mark_rebalance [run_simps]:
  "thenA (mark_rebalance i st e) m w = m (w\<lparr>view := upd_rebalance i (rebalance_settle st e) (view w),
     stored := upd_rebalance i (rebalance_settle st e) (view w), in_tx := False\<rparr>)"
  by (simp add: mark_rebalance_def thenA_def bindA_def modify_def commit_def)

text \<open>Removing the source: the count stays at the replication factor, the target stays.\<close>

lemma drop_source_Inr:
  assumes "drop_source c rf j v sn w = (Inr res, w')" "db_inv (view w)" "rb_source j \<noteq> rb_target j"
  shows "rf \<le> int (healthy_count (view w') (rb_version_id j))"
    "replica_on (view w') (rb_version_id j) (rb_source j) = None"
    "replica_on (view w') (rb_version_id j) (rb_target j) = replica_on (view w) (rb_version_id j) (rb_target j)"
    "stored w' = view w'" "rbr_source_removed res" "\<not> in_tx w'"
    "\<exists>d. view w' = upd_rebalance (rb_id j) (rebalance_settle JS_SUCCEEDED None) d \<and> rebalance_jobs d = rebalance_jobs (view w)"
proof -
  let ?v = "rb_version_id j"
  let ?settled = "upd_rebalance (rb_id j) (rebalance_settle JS_SUCCEEDED None)"
  have n: "rf < int (healthy_count (view w) ?v)"
    using assms(1) by (auto simp: drop_source_def run_simps split: if_splits)
  obtain d where w': "view w' = ?settled d" "stored w' = view w'" "\<not> in_tx w'" "rbr_source_removed res"
    and d: "replica_on (view w) ?v (rb_source j) = None \<and> d = view w \<or>
      (\<exists>s x. replica_on (view w) ?v (rb_source j) = Some s \<and> remove_replica (r_id s) (view w) = Inr (x, d))"
    using assms(1) n unfolding drop_source_def query_def
    by (auto simp: retA_def mark_rebalance_def modify_def commit_def live_rebalance_def live_def
        rebalance_result_of_def split: option.splits elim!: bindA_InrE thenA_InrE
        dest!: net_callD(1) transaction_InrD(1))
  have cnt: "healthy_count (view w) ?v \<le> healthy_count d ?v + 1"
    using d remove_replica_count [OF _ assms(2)] by auto
  show "rf \<le> int (healthy_count (view w') ?v)" using cnt n w'(1) by simp
  show "replica_on (view w') ?v (rb_source j) = None"
    using d remove_replica_others(1) [OF _ _ assms(2)] w'(1) by auto
  show "replica_on (view w') ?v (rb_target j) = replica_on (view w) ?v (rb_target j)"
    using d remove_replica_others(2) [OF _ _ assms(2), of _ _ _ _ _ ?v "rb_target j"] assms(3) w'(1) by auto
  show "stored w' = view w'" "rbr_source_removed res" "\<not> in_tx w'" by (fact w')+
  have "rebalance_jobs d = rebalance_jobs (view w)"
    using d by (auto simp: remove_replica_def result_iffs split: if_splits)
  then show "\<exists>d. view w' = ?settled d \<and> rebalance_jobs d = rebalance_jobs (view w)" using w'(1) by blast
qed

lemma rebalance_move_target:
  fixes w :: "'n world"
  assumes "rebalance_move c rf j v sn tn (replica_on (view w) (rb_version_id j) (rb_target j)) w = (Inr res, w')"
    "db_inv (view w)" "strip (rb_target j) = rb_target j" "rb_source j \<noteq> rb_target j"
  shows "\<exists>q. replica_on (view w') (rb_version_id j) (rb_target j) = Some q \<and> r_status q = RS_HEALTHY"
    "rf \<le> int (healthy_count (view w') (rb_version_id j))"
    "replica_on (view w') (rb_version_id j) (rb_source j) = None" "stored w' = view w'" "rbr_source_removed res"
proof -
  let ?target = "replica_on (view w) (rb_version_id j) (rb_target j)"
  from assms(1) obtain tr and w1 w2 :: "'n world" where re: "recheck_target c v tn ?target w = (Inr tr, w1)"
    and cp: "(if (case tr of None \<Rightarrow> True | Some r \<Rightarrow> r_status r \<noteq> RS_HEALTHY)
            then copy_replica c j v sn tn else retA ()) w1 = (Inr (), w2)"
    and dr: "drop_source c rf j v sn w2 = (Inr res, w')"
    unfolding rebalance_move_def by (auto elim!: bindA_InrE thenA_InrE)
  have inv1: "db_inv (view w1)" using ahead_run(2) [OF rebalance_move_ahead(1) re assms(2)] .
  have inv2: "db_inv (view w2)"
    using cp inv1 ahead_run(2) [OF rebalance_move_ahead(2) _ inv1] by (auto simp: run_simps split: if_splits)
  have tgt: "\<exists>q. replica_on (view w2) (rb_version_id j) (rb_target j) = Some q \<and> r_status q = RS_HEALTHY"
  proof (cases "case tr of None \<Rightarrow> True | Some r \<Rightarrow> r_status r \<noteq> RS_HEALTHY")
    case True
    with cp copy_replica_target [OF _ inv1 assms(3)] show ?thesis by simp
  next
    case False
    with cp recheck_target_Inr [OF re] show ?thesis by (auto simp: run_simps split: option.splits)
  qed
  note d = drop_source_Inr [OF dr inv2 assms(4)]
  show "\<exists>q. replica_on (view w') (rb_version_id j) (rb_target j) = Some q \<and> r_status q = RS_HEALTHY"
    using tgt d(3) by simp
  show "rf \<le> int (healthy_count (view w') (rb_version_id j))"
    "replica_on (view w') (rb_version_id j) (rb_source j) = None" "stored w' = view w'" "rbr_source_removed res"
    by (fact d)+
qed

lemma rebalance_run_stages:
  assumes "rebalance_run_job c rf m i w = (r, w')" "get_rebalance_row (view w) i = Some j"
    "\<not> job_over m (rb_status j) (rb_attempts j)"
  shows "(\<exists>e. r = Inl e \<and> view w' = view w) \<or>
    (\<exists>v sn tn. get_version_row (view w) (rb_version_id j) = Some v \<and> v_state v = VS_COMMITTED \<and>
       (thenA (net_call (c_open c (n_address sn))) (thenA (net_call (c_open c (n_address tn)))
         (catchA (rebalance_move c rf j v sn tn (replica_on (view w) (rb_version_id j) (rb_target j)))
         (\<lambda>e. if caught_errors e
              then bindA (live_rebalance i j) (\<lambda>k.
                   thenA (mark_rebalance i (retry_status m (rb_attempts k)) (Some (ErrExn e))) (raiseA e))
              else raiseA e))))
         (w\<lparr>view := upd_rebalance i rebalance_start (view w), stored := upd_rebalance i rebalance_start (view w),
            in_tx := False\<rparr>) = (r, w'))"
proof (cases "get_version_row (view w) (rb_version_id j)")
  case None
  then show ?thesis using assms
    by (auto simp: rebalance_run_job_def run_simps rebalance_version_def bindA_assoc job_over_def split: if_splits)
next
  case (Some v)
  show ?thesis
  proof (cases "v_state v = VS_COMMITTED \<and> get_node_row (view w) (rb_source j) \<noteq> None \<and>
      get_node_row (view w) (rb_target j) \<noteq> None")
    case True
    then obtain sn tn where "get_node_row (view w) (rb_source j) = Some sn"
      "get_node_row (view w) (rb_target j) = Some tn" by auto
    with True Some assms show ?thesis
      by (auto simp: rebalance_run_job_def run_simps rebalance_version_def require_node_def bindA_assoc
          job_over_def split: if_splits)
  next
    case False
    then show ?thesis using Some assms
      by (auto simp: rebalance_run_job_def run_simps rebalance_version_def require_node_def bindA_assoc
          job_over_def split: if_splits option.splits)
  qed
qed

lemma db_inv_upd_rebalance:
  "db_inv d \<Longrightarrow> db_inv (upd_rebalance i rebalance_start d)"
  "db_inv d \<Longrightarrow> db_inv (upd_rebalance i (rebalance_settle st e) d)"
  using rebalance_update_step ctl_step_inv by blast+

lemma rebalance_run_success:
  fixes w :: "'n world"
  assumes "db_inv (view w)" "rebalance_run_job c rf m i w = (Inr res, w')"
    "get_rebalance_row (view w) i = Some j" "\<not> job_over m (rb_status j) (rb_attempts j)"
    "rb_source j \<noteq> rb_target j"
  shows "\<exists>q. replica_on (view w') (rb_version_id j) (rb_target j) = Some q \<and> r_status q = RS_HEALTHY"
    "rf \<le> int (healthy_count (view w') (rb_version_id j))"
    "replica_on (view w') (rb_version_id j) (rb_source j) = None" "stored w' = view w'" "rbr_source_removed res"
proof -
  note job = job_nodes_strip [OF assms(1,3)]
  let ?w = "w\<lparr>view := upd_rebalance i rebalance_start (view w), stored := upd_rebalance i rebalance_start (view w),
            in_tx := False\<rparr>"
  from rebalance_run_stages [OF assms(2-4)] obtain v sn tn and u :: "'n world" where
    mv: "rebalance_move c rf j v sn tn (replica_on (view w) (rb_version_id j) (rb_target j)) u = (Inr res, w')"
    and u: "view u = view ?w"
    by (auto simp: run_simps split: if_splits elim!: thenA_InrE catchA_InrE bindA_InrE dest!: net_callD(1))
  have inv: "db_inv (view u)" using db_inv_upd_rebalance(1) [OF assms(1)] u by simp
  have "replica_on (view u) (rb_version_id j) (rb_target j) = replica_on (view w) (rb_version_id j) (rb_target j)"
    using u by simp
  from rebalance_move_target [of c rf j v sn tn u res w', unfolded this, OF mv inv job(1) assms(5)]
  show "\<exists>q. replica_on (view w') (rb_version_id j) (rb_target j) = Some q \<and> r_status q = RS_HEALTHY"
    "rf \<le> int (healthy_count (view w') (rb_version_id j))"
    "replica_on (view w') (rb_version_id j) (rb_source j) = None" "stored w' = view w'" "rbr_source_removed res"
    by simp_all
qed

section \<open>A failed move keeps the source\<close>

definition row_kept :: "uuid \<Rightarrow> replica_row \<Rightarrow> 'n world \<Rightarrow> bool" where
  "row_kept k s w \<longleftrightarrow> db_inv (view w) \<and> get_replica_row (view w) k = Some s"

lemma row_kept_quiet [keeps_rules]:
  "keeps (row_kept k s) new_uuid" "keeps (row_kept k s) now" "keeps (row_kept k s) (query f)"
  "keeps (row_kept k s) (live f)" "keeps (row_kept k s) (net_call m)" "keeps (row_kept k s) commit"
  by (auto simp: keeps_def row_kept_def session_defs split: prod.split)

lemma row_kept_transaction:
  assumes "\<And>d x d'. body d = Inr (x, d') \<Longrightarrow> db_inv d \<Longrightarrow> get_replica_row d k = Some s \<Longrightarrow>
    db_inv d' \<and> get_replica_row d' k = Some s"
  shows "keeps (row_kept k s) (transaction body)"
  using assms by (fastforce simp: keeps_def row_kept_def transaction_def split: sum.splits)

lemma row_kept_ops:
  "i \<noteq> k \<Longrightarrow> keeps (row_kept k s) (transaction (set_replica_state i st))"
  "i \<noteq> k \<Longrightarrow> keeps (row_kept k s) (transaction (mark_replica_healthy t i c z))"
  by (rule row_kept_transaction,
      auto dest: set_replica_state_inv mark_replica_healthy_inv
        simp: set_replica_state_frame(4) mark_replica_healthy_frame(4))+

lemma row_kept_create [keeps_rules]: "keeps (row_kept k s) (transaction (create_replica i v n))"
  by (rule row_kept_transaction)
    (auto dest: create_replica_inv simp: create_replica_frame(4) lookup_by_append)

lemma create_other_id:
  assumes "transaction (create_replica i v n) w = (Inr r, w')" "row_kept k s w"
  shows "r_id r \<noteq> k"
proof -
  note c = transaction_InrD(1) [OF assms(1)]
  have "r_id r \<notin> r_id ` set (replicas (view w))"
    using c by (auto simp: create_replica_def Let_def new_replica_def split: if_splits)
  then show ?thesis using assms(2) lookup_by_keyD by (fastforce simp: row_kept_def)
qed

lemma target_replica_row_kept:
  fixes j :: rebalance_job
  assumes "r_node_id s \<noteq> rb_target j"
  shows "hoare (row_kept k s) (target_replica j) (\<lambda>r w. row_kept k s w \<and> r_id r \<noteq> k) (\<lambda>_. row_kept k s)"
proof -
  have found: "hoare (row_kept k s) (query (\<lambda>d. replica_on d (rb_version_id j) (rb_target j)))
      (\<lambda>f w. row_kept k s w \<and> (\<forall>r. f = Some r \<longrightarrow> r_id r \<noteq> k)) (\<lambda>_. row_kept k s)"
    using assms replica_on_SomeD by (fastforce simp: hoare_def query_def row_kept_def)
  have row: "hoare (\<lambda>w. row_kept k s w \<and> (\<forall>r. f = Some r \<longrightarrow> r_id r \<noteq> k))
      (case f of Some r \<Rightarrow> retA r
       | None \<Rightarrow> bindA new_uuid (\<lambda>i. transaction (create_replica i (rb_version_id j) (rb_target j))))
      (\<lambda>r w. row_kept k s w \<and> r_id r \<noteq> k) (\<lambda>_. row_kept k s)" for f
  proof (cases f)
    case None
    have "hoare (row_kept k s) (transaction (create_replica i (rb_version_id j) (rb_target j)))
      (\<lambda>r w. row_kept k s w \<and> r_id r \<noteq> k) (\<lambda>_. row_kept k s)" for i
      using keepsD [OF row_kept_create] create_other_id by (intro hoareI) blast+
    then show ?thesis using None by (auto intro!: hoare_frame_bind keeps_rules)
  qed (simp add: hoare_def retA_def)
  have step: "hoare (\<lambda>w. row_kept k s w \<and> r_id r \<noteq> k)
      (if r_status r = RS_HEALTHY then retA r
       else if r_status r = RS_PENDING
         then thenA (transaction (set_replica_state (r_id r) RS_COPYING)) (retA r)
       else if r_status r \<in> {RS_CORRUPTED, RS_STALE, RS_UNAVAILABLE}
         then thenA (transaction (set_replica_state (r_id r) RS_REPAIRING))
           (thenA (transaction (set_replica_state (r_id r) RS_COPYING)) (retA r))
       else if r_status r \<noteq> RS_COPYING then raiseA (VaultE InvalidState)
       else retA r)
      (\<lambda>r w. row_kept k s w \<and> r_id r \<noteq> k) (\<lambda>_. row_kept k s)" for r
  proof (cases "r_id r = k")
    case False
    have ret: "hoare (row_kept k s) (retA r) (\<lambda>r w. row_kept k s w \<and> r_id r \<noteq> k) (\<lambda>_. row_kept k s)"
      using False by (simp add: hoare_def retA_def)
    show ?thesis using False
      by (auto intro!: hoare_frame_then ret row_kept_ops(1) hoare_frame_raise)
  qed (simp add: hoare_def)
  show ?thesis unfolding target_replica_def
    by (rule hoare_bindA [OF found]) (rule hoare_bindA [OF row step])
qed

lemma copy_replica_row_kept:
  assumes "r_node_id s \<noteq> rb_target j"
  shows "keeps (row_kept k s) (copy_replica c j v sn tn)"
proof -
  let ?ob = "uuid_str (v_object_id v)" and ?ve = "uuid_str (v_id v)"
  have tail: "hoare (\<lambda>w. row_kept k s w \<and> r_id tr \<noteq> k)
     (thenA (net_call (c_delete c (n_address tn) ?ob ?ve))
      (bindA (net_call (c_stream c (n_address sn) ?ob ?ve)) (\<lambda>p.
      thenA (net_call (c_put c (n_address tn) ?ob ?ve p))
      (bindA (net_call (c_verify c (n_address tn) ?ob ?ve True)) (\<lambda>mt.
      if \<not> matches_metadata mt v then raiseA (ClientE StorageNodeIntegrityError) else
      bindA now (\<lambda>t.
      thenA (transaction (mark_replica_healthy t (r_id tr) (vo_checksum mt) (vo_size mt))) (retA ()))))))) 
     (\<lambda>_. row_kept k s) (\<lambda>_. row_kept k s)" for tr
  proof (cases "r_id tr = k")
    case False
    have "keeps (row_kept k s) (thenA (net_call (c_delete c (n_address tn) ?ob ?ve))
      (bindA (net_call (c_stream c (n_address sn) ?ob ?ve)) (\<lambda>p.
      thenA (net_call (c_put c (n_address tn) ?ob ?ve p))
      (bindA (net_call (c_verify c (n_address tn) ?ob ?ve True)) (\<lambda>mt.
      if \<not> matches_metadata mt v then raiseA (ClientE StorageNodeIntegrityError) else
      bindA now (\<lambda>t.
      thenA (transaction (mark_replica_healthy t (r_id tr) (vo_checksum mt) (vo_size mt))) (retA ())))))))"
      using False by (intro keeps_rules row_kept_ops(2))
    then show ?thesis using False by (simp add: hoare_keeps)
  qed (simp add: hoare_def)
  show ?thesis unfolding copy_replica_def Let_def hoare_keeps
    by (intro hoare_frame_bind hoare_frame_if hoare_frame_raise keeps_rules
        hoare_bindA [OF target_replica_row_kept [OF assms] tail])
qed

lemma recheck_row_kept:
  assumes "\<And>r. target = Some r \<Longrightarrow> r_id r \<noteq> k"
  shows "keeps (row_kept k s) (recheck_target c v tn target)"
  unfolding recheck_target_def by (intro keeps_rules row_kept_ops(1) assms)

lemma drop_source_raises: "raises_keep (row_kept k s) (drop_source c rf j v sn)"
proof -
  have last: "raises_keep (row_kept k s) (thenA (case sr of None \<Rightarrow> retA ()
       | Some r \<Rightarrow> thenA (transaction (remove_replica (r_id r))) (retA ()))
       (thenA (mark_rebalance (rb_id j) JS_SUCCEEDED None)
       (bindA (live_rebalance (rb_id j) j) (\<lambda>j. retA (rebalance_result_of j True)))))" for sr
    by (cases sr) (auto simp: raises_keep_def thenA_def bindA_def retA_def mark_rebalance_def modify_def commit_def
        live_rebalance_def live_def split: prod.splits sum.splits dest!: transaction_InlD(2))
  show ?thesis unfolding drop_source_def
    by (intro raises_bindA raises_if raises_thenA [where m = "net_call x" for x] last raises_raiseA keeps_rules)
qed

lemma rebalance_move_raises:
  assumes "r_node_id s \<noteq> rb_target j" "\<And>r. target = Some r \<Longrightarrow> r_id r \<noteq> k"
  shows "raises_keep (row_kept k s) (rebalance_move c rf j v sn tn target)"
  unfolding rebalance_move_def
  by (intro raises_bindA raises_thenA drop_source_raises keeps_rules recheck_row_kept copy_replica_row_kept assms)

section \<open>Draining\<close>

abbreviation nodes_sat :: "(node_row list \<Rightarrow> bool) \<Rightarrow> 'n world \<Rightarrow> bool" where
  "nodes_sat \<equiv> holds_of nodes"

lemma remove_replica_nodes: "remove_replica i d = Inr (x, d') \<Longrightarrow> nodes d' = nodes d"
  by (auto simp: remove_replica_def result_iffs split: if_splits)

lemma nodes_sat_ops [keeps_rules]:
  "keeps (nodes_sat P) (transaction (create_replica i v n))"
  "keeps (nodes_sat P) (transaction (set_replica_state i st))"
  "keeps (nodes_sat P) (transaction (mark_replica_healthy t i c z))"
  "keeps (nodes_sat P) (transaction (remove_replica i))"
  by (rule holds_of_transaction,
      simp add: create_replica_frame(3) set_replica_state_frame(3) mark_replica_healthy_frame(3)
        remove_replica_nodes)+

lemma nodes_sat_modify [keeps_rules]: "keeps (nodes_sat P) (modify (upd_rebalance i f))"
  by (rule holds_of_modify) simp

lemma nodes_sat_add [keeps_rules]: "keeps (nodes_sat P) (add_commit (insert_rebalance j))"
  by (rule holds_of_add_commit) (auto simp: insert_rebalance_def split: if_splits)

lemma nodes_sat_actions [keeps_rules]:
  "keeps (nodes_sat P) (rebalance_version v)" "keeps (nodes_sat P) (require_node n)"
  "keeps (nodes_sat P) (eligible_target vr ex)" "keeps (nodes_sat P) (target_replica j)"
  "keeps (nodes_sat P) (mark_rebalance i st e)" "keeps (nodes_sat P) (live_rebalance i j)"
  unfolding rebalance_version_def require_node_def eligible_target_def target_replica_def mark_rebalance_def
    live_rebalance_def
  by (intro keeps_rules)+

lemma nodes_sat_run [keeps_rules]: "keeps (nodes_sat P) (rebalance_run_job c rf m i)"
  unfolding rebalance_run_job_def rebalance_move_def recheck_target_def copy_replica_def drop_source_def Let_def
  by (intro keeps_rules)

lemma nodes_sat_create [keeps_rules]: "keeps (nodes_sat P) (rebalance_create_job v s t)"
  unfolding rebalance_create_job_def by (intro keeps_rules)

lemma nodes_sat_drain [keeps_rules]: "keeps (nodes_sat P) (drain_replica c rf m n i)"
  unfolding drain_replica_def migrate_replica_def by (intro keeps_rules)

text \<open>A node of the table in a state other than REMOVED.\<close>

definition serving :: "string \<Rightarrow> node_row list \<Rightarrow> bool" where
  "serving n ns \<longleftrightarrow> (\<exists>x. lookup_by n_id n ns = Some x \<and> n_status x \<noteq> NS_REMOVED)"

lemma transition_node_row:
  assumes "transition_node_state n st d = Inr (x, d')" "strip n = n"
  shows "\<exists>y. get_node_row d' n = Some y \<and> n_status y = st" "replicas d' = replicas d"
proof -
  obtain y where y: "get_node_row d n = Some y" using assms
    by (auto simp: transition_node_state_def result_iffs Let_def split: if_splits)
  show "\<exists>y. get_node_row d' n = Some y \<and> n_status y = st" "replicas d' = replicas d"
    using assms y by (auto simp: transition_node_state_def Let_def row_lookups split: if_splits)
qed

lemma drain_serving:
  "st \<noteq> NS_REMOVED \<Longrightarrow> strip n = n \<Longrightarrow> keeps (nodes_sat (serving n)) (transaction (transition_node_state n st))"
  by (rule holds_of_transaction) (auto simp: serving_def dest: transition_node_row(1))

text \<open>How a drain ends: the node still serves when the remaining replicas are counted.\<close>

lemma drain_node_end:
  fixes w :: "'n world"
  assumes "drain_node c rf m n w = (Inr rs, w')" "strip n = n" "nodes_sat (serving n) w"
  obtains rss and w1 :: "'n world" where "nodes_sat (serving n) w1" "rs = concat rss" "in_tx w1"
    "(if count_rows (\<lambda>r. r_node_id r = n) (replicas (view w1)) = 0
      then thenA (transaction (transition_node_state n NS_REMOVED)) (retA ()) else retA ()) w1 = (Inr (), w')"
proof -
  let ?I = "nodes_sat (serving n) :: 'n world \<Rightarrow> bool"
  obtain n0 x rss ids and w0 :: "'n world" and w1 :: "'n world" and w2 :: "'n world" where
    run: "require_node n w = (Inr n0, w0)"
    "(if n_status n0 = NS_HEALTHY
            then thenA (transaction (transition_node_state n NS_DRAINING)) (require_node n)
            else retA n0) w0 = (Inr x, w1)"
    "forA (drain_replica c rf m n) ids (w1\<lparr>in_tx := True\<rparr>) = (Inr rss, w2)"
    "thenA (if count_rows (\<lambda>r. r_node_id r = n) (replicas (view w2)) = 0
      then thenA (transaction (transition_node_state n NS_REMOVED)) (retA ()) else retA ())
      (retA (concat rss)) (w2\<lparr>in_tx := True\<rparr>) = (Inr rs, w')"
    using assms(1) unfolding drain_node_def
    by (elim bindA_InrE guard_InrE query_InrE, hypsubst) blast
  have w0: "?I w0" using keepsD [OF nodes_sat_actions(2) assms(3) run(1)] .
  have "keeps ?I (if n_status n0 = NS_HEALTHY
            then thenA (transaction (transition_node_state n NS_DRAINING)) (require_node n) else retA n0)"
    by (intro keeps_rules drain_serving) (simp_all add: assms(2))
  from keepsD [OF this w0 run(2)] have w1: "?I (w1\<lparr>in_tx := True\<rparr>)" by (simp add: holds_of_def)
  have "keeps ?I (forA (drain_replica c rf m n) ids)" by (intro keeps_rules)
  from keepsD [OF this w1 run(3)] have "?I (w2\<lparr>in_tx := True\<rparr>)" by (simp add: holds_of_def)
  moreover from run(4) obtain u where "(if count_rows (\<lambda>r. r_node_id r = n) (replicas (view w2)) = 0
      then thenA (transaction (transition_node_state n NS_REMOVED)) (retA ()) else retA ())
      (w2\<lparr>in_tx := True\<rparr>) = (Inr u, w')" "rs = concat rss"
    by (elim thenA_InrE) (simp add: retA_def)
  ultimately show thesis using that [of "w2\<lparr>in_tx := True\<rparr>" rss] by simp
qed

lemma row_kept_jobs [keeps_rules]:
  "keeps (row_kept k s) (modify (upd_rebalance i rebalance_start))"
  "keeps (row_kept k s) (modify (upd_rebalance i (rebalance_settle st e)))"
  by (auto simp: keeps_def row_kept_def modify_def upd_rebalance_frame intro: db_inv_upd_rebalance)

lemma rebalance_run_raises:
  assumes "rebalance_run_job c rf m i w = (Inl e, w')" "get_rebalance_row (view w) i = Some j"
    "row_kept k s w" "r_node_id s \<noteq> rb_target j"
  shows "row_kept k s w'"
proof (cases "job_over m (rb_status j) (rb_attempts j)")
  case True
  then show ?thesis using assms(1,2) by (auto simp: rebalance_run_job_def run_simps job_over_def split: if_splits)
next
  case False
  let ?w = "w\<lparr>view := upd_rebalance i rebalance_start (view w), stored := upd_rebalance i rebalance_start (view w),
            in_tx := False\<rparr>"
  let ?h = "\<lambda>e. if caught_errors e
              then bindA (live_rebalance i j) (\<lambda>k.
                   thenA (mark_rebalance i (retry_status m (rb_attempts k)) (Some (ErrExn e))) (raiseA e))
              else raiseA e :: ('a, rebalance_result) act"
  have w: "row_kept k s ?w" using assms(3) by (auto simp: row_kept_def upd_rebalance_frame intro: db_inv_upd_rebalance)
  consider "view w' = view w" | v sn tn where
    "thenA (net_call (c_open c (n_address sn))) (thenA (net_call (c_open c (n_address tn)))
       (catchA (rebalance_move c rf j v sn tn (replica_on (view w) (rb_version_id j) (rb_target j))) ?h)) ?w = (Inl e, w')"
    using rebalance_run_stages [OF assms(1,2) False] by blast
  then show ?thesis
  proof cases
    case 1
    then show ?thesis using assms(3) by (simp add: row_kept_def)
  next
    case 2
    have "r_id r \<noteq> k" if "replica_on (view w) (rb_version_id j) (rb_target j) = Some r" for r
      using replica_on_SomeD [OF that] assms(3,4) by (auto simp: row_kept_def)
    then have "raises_keep (row_kept k s) (rebalance_move c rf j v sn tn (replica_on (view w) (rb_version_id j) (rb_target j)))"
      by (intro rebalance_move_raises assms(4))
    then have "raises_keep (row_kept k s) (thenA (net_call (c_open c (n_address sn)))
       (thenA (net_call (c_open c (n_address tn)))
       (catchA (rebalance_move c rf j v sn tn (replica_on (view w) (rb_version_id j) (rb_target j))) ?h)))"
      unfolding live_rebalance_def mark_rebalance_def by (intro raises_thenA raises_catchA raises_bindA raises_if raises_raiseA keeps_rules)
    from raises_keepD [OF this w 2] show ?thesis .
  qed
qed

lemma drain_node_serving:
  assumes "drain_node c rf m n w = (Inr rs, w')"
  shows "serving n (nodes (view w))"
proof -
  obtain n0 where n0: "get_node_row (view w) n = Some n0" using assms
    by (auto simp: drain_node_def require_node_def bindA_assoc run_simps split: option.splits)
  moreover have "n_status n0 \<noteq> NS_REMOVED"
    using assms n0 by (auto simp: drain_node_def require_node_def bindA_assoc run_simps split: option.splits if_splits)
  ultimately show ?thesis by (simp add: serving_def)
qed

lemma serving_strip: "db_inv d \<Longrightarrow> serving n (nodes d) \<Longrightarrow> strip n = n"
  using lookup_by_SomeD by (fastforce simp: serving_def inv_defs)

section \<open>Properties\<close>

definition demo_move :: db where
  "demo_move = demo_cluster\<lparr>repair_jobs := [], rebalance_jobs := [new_rebalance_job 50 7 10 ''n1'' ''n2'']\<rparr>"

lemma demo_move_inv: "db_inv demo_move"
  by code_simp

lemma demo_move_row:
  "get_rebalance_row (view (demo_world demo_move n)) 50 = Some (new_rebalance_job 50 7 10 ''n1'' ''n2'')"
  by (simp add: demo_world_def demo_move_def new_rebalance_job_def)

definition demo_rebalance :: "string list \<Rightarrow> (exn + rebalance_result) \<times> unit world" where
  "demo_rebalance up = rebalance_run_job (demo_client up) 1 3 50 (demo_world demo_move ())"

lemmas demo_rebalance_unfold = demo_rebalance_def rebalance_run_job_def rebalance_move_def recheck_target_def
  copy_replica_def drop_source_def Let_def demo_client_simps

lemma demo_rebalance_ok: "\<exists>res w'. demo_rebalance [''http://n1'', ''http://n2''] = (Inr res, w')"
proof -
  have "\<not> isl (fst (demo_rebalance [''http://n1'', ''http://n2'']))" unfolding demo_rebalance_unfold by code_simp
  then show ?thesis by (metis old.sum.exhaust prod.collapse sum.disc(1))
qed

lemma demo_rebalance_down: "\<exists>e w'. demo_rebalance [''http://n1''] = (Inl e, w')"
proof -
  have "isl (fst (demo_rebalance [''http://n1'']))" unfolding demo_rebalance_unfold by code_simp
  then show ?thesis by (cases "demo_rebalance [''http://n1'']") (auto simp: isl_def)
qed

text \<open>C11. A move that returns has moved: the target holds a HEALTHY replica, the version still has
  at least the replication factor of healthy replicas, the source has no replica any more, and
  all of it is durable.\<close>

theorem rebalance_run_correct:
  assumes "db_inv (view w)" "rebalance_run_job c rf m i w = (Inr res, w')"
    "get_rebalance_row (view w) i = Some j" "\<not> job_over m (rb_status j) (rb_attempts j)"
    "rb_source j \<noteq> rb_target j"
  shows "(\<exists>q. replica_on (view w') (rb_version_id j) (rb_target j) = Some q \<and> r_status q = RS_HEALTHY) \<and>
    rf \<le> int (healthy_count (view w') (rb_version_id j)) \<and>
    replica_on (view w') (rb_version_id j) (rb_source j) = None \<and> stored w' = view w' \<and> rbr_source_removed res"
  using rebalance_run_success [OF assms] by blast

theorem rebalance_run_correct_witness:
  "\<exists>res w'. demo_rebalance [''http://n1'', ''http://n2''] = (Inr res, w') \<and>
     replica_on (view w') 10 ''n1'' = None \<and> 1 \<le> int (healthy_count (view w') 10)"
proof -
  obtain res w' where r: "demo_rebalance [''http://n1'', ''http://n2''] = (Inr res, w')"
    using demo_rebalance_ok by blast
  have "db_inv (view (demo_world demo_move ()))" using demo_move_inv by (simp add: demo_world_def)
  from rebalance_run_correct [OF this r [unfolded demo_rebalance_def] demo_move_row] r show ?thesis
    by (auto simp: job_over_def new_rebalance_job_def)
qed

text \<open>C22. Copy before delete: a move that fails, at whatever point and for whatever reason, leaves
  the source replica in the tables exactly as it was.\<close>

theorem rebalance_failure_keeps_source:
  assumes "db_inv (view w)" "rebalance_run_job c rf m i w = (Inl e, w')"
    "get_rebalance_row (view w) i = Some j" "rb_source j \<noteq> rb_target j"
    "replica_on (view w) (rb_version_id j) (rb_source j) = Some s"
  shows "replica_on (view w') (rb_version_id j) (rb_source j) = Some s"
proof -
  note s = replica_on_SomeD [OF assms(5,1)]
  have "row_kept (r_id s) s w'"
    using rebalance_run_raises [OF assms(2,3)] s(1,3) assms(1,4) by (simp add: row_kept_def)
  then have "db_inv (view w')" "s \<in> set (replicas (view w'))"
    by (auto simp: row_kept_def dest: lookup_by_SomeD)
  then show ?thesis
    unfolding replica_on_def lookup_by_Some_iff [OF db_inv_distinct(7) [OF \<open>db_inv (view w')\<close>]] using s by simp
qed

theorem rebalance_failure_keeps_source_witness:
  "\<exists>e w'. demo_rebalance [''http://n1''] = (Inl e, w') \<and>
     replica_on (view w') 10 ''n1'' = replica_on demo_move 10 ''n1'' \<and> replica_on demo_move 10 ''n1'' \<noteq> None"
proof -
  obtain e w' where r: "demo_rebalance [''http://n1''] = (Inl e, w')" using demo_rebalance_down by blast
  have inv: "db_inv (view (demo_world demo_move ()))" using demo_move_inv by (simp add: demo_world_def)
  have "replica_on demo_move 10 ''n1'' \<noteq> None" by code_simp
  then obtain s where s: "replica_on demo_move 10 ''n1'' = Some s" by blast
  from rebalance_failure_keeps_source [OF inv r [unfolded demo_rebalance_def] demo_move_row, of s] r s show ?thesis
    by (auto simp: new_rebalance_job_def demo_world_def)
qed

definition demo_drain :: "(exn + rebalance_result list) \<times> unit world" where
  "demo_drain = drain_node (demo_client [''http://n1'', ''http://n2'']) 1 3 ''n1'' (demo_world demo_move ())"

lemmas demo_drain_unfold = demo_drain_def drain_node_def drain_replica_def migrate_replica_def
  rebalance_create_job_def demo_rebalance_unfold

text \<open>C33. A drain removes a node exactly when it is empty: when draining returns, the node is in
  state REMOVED if and only if no replica row is left on it, and a node that still holds a
  replica keeps its row and another state.\<close>

theorem drain_removes_only_empty_node:
  assumes "db_inv (view w)" "stored w = view w" "drain_node c rf m n w = (Inr rs, w')"
  shows "\<exists>x. get_node_row (view w') n = Some x \<and>
    (n_status x = NS_REMOVED \<longleftrightarrow> (\<forall>r\<in>set (replicas (view w')). r_node_id r \<noteq> n))"
proof -
  have n: "strip n = n" "nodes_sat (serving n) w"
    using drain_node_serving [OF assms(3)] assms(1,2) serving_strip by (auto simp: holds_of_def)
  from drain_node_end [OF assms(3) n] obtain rss w1 where e: "nodes_sat (serving n) w1"
    "(if count_rows (\<lambda>r. r_node_id r = n) (replicas (view w1)) = 0
      then thenA (transaction (transition_node_state n NS_REMOVED)) (retA ()) else retA ()) w1 = (Inr (), w')"
    by blast
  show ?thesis
  proof (cases "count_rows (\<lambda>r. r_node_id r = n) (replicas (view w1)) = 0")
    case True
    with e(2) obtain x where t: "transition_node_state n NS_REMOVED (view w1) = Inr (x, view w')"
      by (auto simp: retA_def elim!: thenA_InrE dest!: transaction_InrD(1))
    from transition_node_row [OF t n(1)] True show ?thesis
      by (auto simp: count_rows_def filter_empty_conv)
  next
    case False
    with e(2) have "w' = w1" by (simp add: retA_def)
    with e(1) False show ?thesis
      by (auto simp: holds_of_def serving_def count_rows_def filter_empty_conv)
  qed
qed

lemma demo_drain_ok: "\<exists>rs w'. demo_drain = (Inr rs, w')"
proof -
  have "\<not> isl (fst demo_drain)" unfolding demo_drain_unfold by code_simp
  then show ?thesis by (metis prod.collapse sum.collapse(2))
qed

theorem drain_removes_only_empty_node_witness:
  "\<exists>rs w' x. demo_drain = (Inr rs, w') \<and> get_node_row (view w') ''n1'' = Some x"
proof -
  obtain rs w' where r: "demo_drain = (Inr rs, w')" using demo_drain_ok by blast
  have "db_inv (view (demo_world demo_move ()))" using demo_move_inv by (simp add: demo_world_def)
  from drain_removes_only_empty_node [OF this _ r [unfolded demo_drain_def]] r show ?thesis
    by (auto simp: demo_world_def)
qed

text \<open>The removal is never durable: the REMOVED transition runs after a select, in a savepoint
  that nothing commits, so after the task's session scope the stored row of a drained node is in
  another state although the drain returned.\<close>

theorem drain_removal_not_durable:
  assumes "db_inv (stored w)" "session_scope (drain_node c rf m n) w = (Inr rs, w')"
  shows "\<exists>x. get_node_row (stored w') n = Some x \<and> n_status x \<noteq> NS_REMOVED \<and> view w' = stored w'"
proof -
  let ?w = "w\<lparr>view := stored w, in_tx := False\<rparr>"
  obtain u where u: "drain_node c rf m n ?w = (Inr rs, u)" "w' = u\<lparr>view := stored u, in_tx := False\<rparr>"
    using assms(2) by (auto simp: session_scope_def rollback_def split: prod.splits)
  have n: "strip n = n" "nodes_sat (serving n) ?w"
    using drain_node_serving [OF u(1)] assms(1) serving_strip by (auto simp: holds_of_def)
  from drain_node_end [OF u(1) n] obtain rss w1 where e: "nodes_sat (serving n) w1" "in_tx w1"
    "(if count_rows (\<lambda>r. r_node_id r = n) (replicas (view w1)) = 0
      then thenA (transaction (transition_node_state n NS_REMOVED)) (retA ()) else retA ()) w1 = (Inr (), u)"
    by blast
  have "stored u = stored w1" using e(2,3)
    by (auto simp: retA_def transaction_def split: if_splits sum.splits elim!: thenA_InrE)
  with e(1) u(2) show ?thesis by (auto simp: holds_of_def serving_def)
qed

theorem drain_removal_not_durable_witness:
  "\<exists>rs w' x. session_scope (drain_node (demo_client [''http://n1'', ''http://n2'']) 1 3 ''n1'')
     (demo_world demo_move ()) = (Inr rs, w') \<and> get_node_row (stored w') ''n1'' = Some x \<and> n_status x \<noteq> NS_REMOVED"
proof -
  have s: "(demo_world demo_move ())\<lparr>view := stored (demo_world demo_move ()), in_tx := False\<rparr> = demo_world demo_move ()"
    by (simp add: demo_world_def)
  obtain rs u where "demo_drain = (Inr rs, u)" using demo_drain_ok by blast
  then have r: "session_scope (drain_node (demo_client [''http://n1'', ''http://n2'']) 1 3 ''n1'')
     (demo_world demo_move ()) = (Inr rs, snd (rollback u))"
    by (simp add: session_scope_def s demo_drain_def)
  have "db_inv (stored (demo_world demo_move ()))" using demo_move_inv by (simp add: demo_world_def)
  from drain_removal_not_durable [OF this r] r show ?thesis by auto
qed

end
