(* ===== verification/Integrity.thy ===== *)
theory Integrity
  imports Rebalance
begin

text \<open>
  \<^verbatim>\<open>integrity/manager.py\<close>: measuring stored replicas against the metadata, marking the
  ones that differ CORRUPTED and scheduling their repair, as single checks, as scans of a node
  or of a version, and as durable jobs. A node that does not answer is never taken for a corrupted
  one: only a measurement changes a replica.
\<close>

section \<open>Verifying one replica\<close>

record integrity_result =
  ir_replica_id :: uuid
  ir_version_id :: uuid
  ir_node_id :: string
  ir_checked :: bool
  ir_corrupted :: bool
  ir_repair_id :: "uuid option"
  ir_checksum :: "string option"
  ir_size :: "int option"

definition require_replica :: "uuid \<Rightarrow> ('n, replica_row) act" where
  "require_replica replica_id =
     bindA (query (\<lambda>d. get_replica_row d replica_id)) (\<lambda>found.
     case found of None \<Rightarrow> raiseA (VaultE (ObjectNotFound (UuidId replica_id))) | Some r \<Rightarrow> retA r)"

definition not_checked :: "replica_row \<Rightarrow> integrity_result" where
  "not_checked r = \<lparr>ir_replica_id = r_id r, ir_version_id = r_version_id r, ir_node_id = r_node_id r,
     ir_checked = False, ir_corrupted = False, ir_repair_id = None, ir_checksum = None, ir_size = None\<rparr>"

definition expected_checksum :: "replica_row \<Rightarrow> version_row \<Rightarrow> string" where
  "expected_checksum r v = lower (case r_checksum r of
     None \<Rightarrow> v_checksum v | Some c \<Rightarrow> if c = [] then v_checksum v else c)"

definition expected_size :: "replica_row \<Rightarrow> version_row \<Rightarrow> int" where
  "expected_size r v = (case r_size r of None \<Rightarrow> v_size v | Some z \<Rightarrow> z)"

definition measurement_ok :: "verified_object \<Rightarrow> replica_row \<Rightarrow> version_row \<Rightarrow> bool" where
  "measurement_ok m r v \<longleftrightarrow> vo_verified m \<and> vo_valid m \<and> lower (vo_checksum m) = expected_checksum r v \<and>
     lower (vo_checksum m) = lower (v_checksum v) \<and> vo_size m = expected_size r v \<and> vo_size m = v_size v"

text \<open>What follows a measurement.\<close>

definition settle_measurement ::
  "int \<Rightarrow> replica_row \<Rightarrow> version_row \<Rightarrow> verified_object \<Rightarrow> ('n, integrity_result) act" where
  "settle_measurement rf r v m =
     (let found = (not_checked r)\<lparr>ir_checked := True, ir_checksum := Some (lower (vo_checksum m)),
        ir_size := Some (vo_size m)\<rparr> in
      if \<not> measurement_ok m r v then
        thenA (transaction (set_replica_state (r_id r) RS_CORRUPTED))
        (bindA (schedule_for_version rf (v_id v) (Some rf) ''integrity-mismatch'' (Some r)) (\<lambda>job.
         retA (found\<lparr>ir_corrupted := True, ir_repair_id := map_option rp_id job\<rparr>)))
      else
        bindA now (\<lambda>t.
        thenA (transaction (record_replica_verification t (r_id r) (lower (vo_checksum m)) (vo_size m)))
          (retA found)))"

definition verify_replica :: "'n client \<Rightarrow> int \<Rightarrow> uuid \<Rightarrow> ('n, integrity_result) act" where
  "verify_replica c rf replica_id =
     bindA (require_replica replica_id) (\<lambda>r.
     bindA (repair_version_row (r_version_id r)) (\<lambda>v.
     bindA (require_node (r_node_id r)) (\<lambda>n.
     if v_state v \<noteq> VS_COMMITTED then retA (not_checked r) else
     if n_status n \<noteq> NS_HEALTHY \<or> r_status r \<noteq> RS_HEALTHY then retA (not_checked r) else
     thenA (net_call (c_open c (n_address n)))
     (bindA (net_call (c_verify c (n_address n) (uuid_str (v_object_id v)) (uuid_str (v_id v)) False))
       (settle_measurement rf r v)))))"

section \<open>Scans\<close>

definition scan_node :: "'n client \<Rightarrow> int \<Rightarrow> string \<Rightarrow> ('n, integrity_result list) act" where
  "scan_node c rf node_id =
     bindA (require_node node_id) (\<lambda>n.
     if n_status n \<noteq> NS_HEALTHY then retA [] else
     bindA (query (\<lambda>d. sort_key id (map r_id (filter (\<lambda>r. r_node_id r = node_id \<and>
       r_status r = RS_HEALTHY \<and> committed_version d (r_version_id r)) (replicas d)))))
       (forA (verify_replica c rf)))"

definition scan_version :: "'n client \<Rightarrow> int \<Rightarrow> uuid \<Rightarrow> ('n, integrity_result list) act" where
  "scan_version c rf version_id =
     bindA (repair_version_row version_id) (\<lambda>v.
     if v_state v \<noteq> VS_COMMITTED then retA [] else
     bindA (query (\<lambda>d. map r_id (sort_key r_node_id (filter (\<lambda>r. r_version_id r = version_id \<and>
       r_status r = RS_HEALTHY) (replicas d)))))
       (forA (verify_replica c rf)))"

section \<open>Jobs\<close>

definition integrity_start :: "integrity_job \<Rightarrow> integrity_job" where
  "integrity_start j = j\<lparr>ig_status := JS_RUNNING, ig_attempts := ig_attempts j + 1, ig_last_error := None\<rparr>"

definition integrity_settle :: "job_status \<Rightarrow> err_text option \<Rightarrow> integrity_job \<Rightarrow> integrity_job" where
  "integrity_settle st e j = j\<lparr>ig_status := st, ig_last_error := e\<rparr>"

definition integrity_finish :: "integrity_result list \<Rightarrow> integrity_job \<Rightarrow> integrity_job" where
  "integrity_finish rs j = j\<lparr>ig_checked := int (length (filter ir_checked rs)),
     ig_corrupted := int (length (filter ir_corrupted rs)), ig_status := JS_SUCCEEDED\<rparr>"

interpretation integrity_job: job_discipline ig_status ig_attempts integrity_start integrity_settle
  by unfold_locales (simp_all add: integrity_start_def integrity_settle_def)

record integrity_job_result =
  ijr_id :: uuid
  ijr_status :: job_status
  ijr_attempts :: int
  ijr_checked :: int
  ijr_corrupted :: int
  ijr_results :: "integrity_result list"

definition integrity_job_result_of :: "integrity_job \<Rightarrow> integrity_result list \<Rightarrow> integrity_job_result" where
  "integrity_job_result_of j rs = \<lparr>ijr_id = ig_id j, ijr_status = ig_status j, ijr_attempts = ig_attempts j,
     ijr_checked = ig_checked j, ijr_corrupted = ig_corrupted j, ijr_results = rs\<rparr>"

definition new_integrity_job :: "uuid \<Rightarrow> time \<Rightarrow> string option \<Rightarrow> uuid option \<Rightarrow> integrity_job" where
  "new_integrity_job i t node_id version_id =
     \<lparr>ig_id = i, ig_node_id = node_id, ig_version_id = version_id, ig_status = JS_PENDING, ig_attempts = 0,
      ig_checked = 0, ig_corrupted = 0, ig_last_error = None, ig_created_at = t\<rparr>"

definition integrity_create_job :: "string option \<Rightarrow> uuid option \<Rightarrow> ('n, integrity_job) act" where
  "integrity_create_job node_id version_id =
     thenA (case node_id of None \<Rightarrow> retA () | Some n \<Rightarrow> thenA (require_node n) (retA ()))
     (thenA (case version_id of None \<Rightarrow> retA () | Some v \<Rightarrow> thenA (repair_version_row v) (retA ()))
     (bindA new_uuid (\<lambda>i. bindA now (\<lambda>t.
       add_commit (insert_integrity (new_integrity_job i t node_id version_id))))))"

definition live_integrity :: "uuid \<Rightarrow> integrity_job \<Rightarrow> ('n, integrity_job) act" where
  "live_integrity i j = live (\<lambda>d. case get_integrity_row d i of None \<Rightarrow> j | Some x \<Rightarrow> x)"

text \<open>The scans a job asks for.\<close>

definition integrity_scans :: "'n client \<Rightarrow> int \<Rightarrow> integrity_job \<Rightarrow> ('n, integrity_result list) act" where
  "integrity_scans c rf job =
     (case ig_node_id job of
        Some n \<Rightarrow> scan_node c rf n
      | None \<Rightarrow>
          (case ig_version_id job of
             Some v \<Rightarrow> scan_version c rf v
           | None \<Rightarrow>
               bindA (query (\<lambda>d. map n_id (sort_key n_id (filter (\<lambda>n. n_status n = NS_HEALTHY) (nodes d)))))
                 (\<lambda>ids. bindA (forA (scan_node c rf) ids) (\<lambda>rss. retA (concat rss)))))"

definition integrity_run_job :: "'n client \<Rightarrow> int \<Rightarrow> int \<Rightarrow> uuid \<Rightarrow> ('n, integrity_job_result) act" where
  "integrity_run_job c rf max_attempts integrity_id =
     bindA (query (\<lambda>d. get_integrity_row d integrity_id)) (\<lambda>found.
     case found of
       None \<Rightarrow> raiseA (VaultE (ObjectNotFound (UuidId integrity_id)))
     | Some job \<Rightarrow>
       if job_over max_attempts (ig_status job) (ig_attempts job) then retA (integrity_job_result_of job []) else
       thenA (modify (upd_integrity integrity_id integrity_start))
       (thenA commit
       (catchA
         (bindA (integrity_scans c rf job) (\<lambda>rs.
          thenA (modify (upd_integrity integrity_id (integrity_finish rs)))
          (thenA commit
          (bindA (live_integrity integrity_id job) (\<lambda>j. retA (integrity_job_result_of j rs))))))
         (\<lambda>e. if caught_errors e
              then bindA (live_integrity integrity_id job) (\<lambda>j.
                   thenA (modify (upd_integrity integrity_id
                     (integrity_settle (retry_status max_attempts (ig_attempts j)) (Some (ErrExn e)))))
                   (thenA commit (raiseA e)))
              else raiseA e))))"

section \<open>Preservation\<close>

lemma integrity_update_step:
  "ctl_step d (upd_integrity i integrity_start d)" "ctl_step d (upd_integrity i (integrity_settle st e) d)"
  "ctl_step d (upd_integrity i (integrity_finish rs) d)"
  by (rule ctl_integrity, simp add: integrity_start_def integrity_settle_def integrity_finish_def)+

lemma integrity_checks_sound [keeps_rules]:
  "keeps (sound d0) (require_replica i)" "keeps (sound d0) (settle_measurement rf r v m)"
  unfolding require_replica_def settle_measurement_def Let_def by (intro keeps_rules)+

lemma verify_replica_sound [keeps_rules]: "keeps (sound d0) (verify_replica c rf i)"
  unfolding verify_replica_def by (intro keeps_rules)

lemma scans_sound [keeps_rules]:
  "keeps (sound d0) (scan_node c rf n)" "keeps (sound d0) (scan_version c rf v)"
  unfolding scan_node_def scan_version_def by (intro keeps_rules)+

lemma integrity_jobs_sound [keeps_rules]:
  "keeps (sound d0) (integrity_create_job n v)" "keeps (sound d0) (integrity_scans c rf j)"
  "keeps (sound d0) (live_integrity i j)"
  unfolding integrity_create_job_def integrity_scans_def live_integrity_def by (intro keeps_rules)+

lemma integrity_run_sound [keeps_rules]: "keeps (sound d0) (integrity_run_job c rf m i)"
  unfolding integrity_run_job_def by (intro keeps_rules integrity_update_step)

section \<open>What a check can do\<close>

abbreviation not_client :: "exn \<Rightarrow> bool" where
  "not_client e \<equiv> \<not> is_client_error e"

lemma op_exceptions:
  "set_replica_state i st d = Inl e \<Longrightarrow> not_client e"
  "record_replica_verification t i c z d = Inl e \<Longrightarrow> not_client e"
  "insert_repair j d = Inl e \<Longrightarrow> not_client e"
  by (auto simp: set_replica_state_def record_replica_verification_def lock_replica_def insert_repair_def
      bindE_def some_or_def validate_checksum_def Let_def split: if_splits option.splits sum.splits)

lemma op_exn [exn_rules]:
  "raises_in not_client (transaction (set_replica_state i st))"
  "raises_in not_client (transaction (record_replica_verification t i c z))"
  "raises_in not_client (add_commit (insert_repair j))"
  by (intro raises_in_transaction raises_in_add_commit, erule op_exceptions)+

lemma schedule_exn [exn_rules]: "raises_in not_client (schedule_for_version df v rf reason p)"
  unfolding schedule_for_version_def repair_version_row_def target_for_version_def repair_create_job_def
    repair_new_job_def Let_def
  by (intro exn_rules) simp_all

lemma settle_exn [exn_rules]: "raises_in not_client (settle_measurement rf r v m)"
  unfolding settle_measurement_def Let_def by (intro exn_rules)

lemma lookups_tables [keeps_rules]:
  "keeps (tables_are d s) (require_replica i)" "keeps (tables_are d s) (require_node n)"
  "keeps (tables_are d s) (repair_version_row v)"
  unfolding require_replica_def require_node_def repair_version_row_def by (intro keeps_rules)+

lemma verify_replica_unreachable:
  "hoare (tables_are d s) (verify_replica c rf i) (\<lambda>_ _. True) (\<lambda>e w. is_client_error e \<longrightarrow> tables_are d s w)"
  unfolding verify_replica_def
  by (intro hoare_through_bind hoare_through_then hoare_through_if hoare_raises_in keeps_rules exn_rules) simp_all

text \<open>Scheduling a repair leaves the replica rows alone.\<close>

definition sees :: "(db \<Rightarrow> 't) \<Rightarrow> 't \<Rightarrow> 'n world \<Rightarrow> bool" where
  "sees tab x w \<longleftrightarrow> tab (view w) = x"

lemma sees_quiet [returns_rules]:
  "returns_keep (sees tab x) new_uuid" "returns_keep (sees tab x) now" "returns_keep (sees tab x) (query f)"
  "returns_keep (sees tab x) (live f)" "returns_keep (sees tab x) (net_call m)" "returns_keep (sees tab x) commit"
  by (auto simp: returns_keep_def sees_def session_defs split: prod.splits)

lemma sees_add_commit:
  assumes "\<And>d y d'. body d = Inr (y, d') \<Longrightarrow> tab d' = tab d"
  shows "returns_keep (sees tab x) (add_commit body)"
  using assms by (auto simp: returns_keep_def sees_def add_commit_def split: sum.splits)

lemma sees_insert_repair [returns_rules]: "returns_keep (sees replicas x) (add_commit (insert_repair j))"
  by (rule sees_add_commit) (auto simp: insert_repair_def split: if_splits)

lemma schedule_replicas:
  assumes "schedule_for_version df v rf reason p w = (Inr j, w')"
  shows "replicas (view w') = replicas (view w)"
proof -
  have "returns_keep (sees replicas x) (schedule_for_version df v rf reason p)" for x
    unfolding schedule_for_version_def repair_version_row_def target_for_version_def repair_create_job_def
      repair_new_job_def Let_def
    by (intro returns_rules)
  from returns_keepD [OF this _ assms] show ?thesis by (simp add: sees_def)
qed

lemma record_verification_row:
  assumes "record_replica_verification t i c z d = Inr (q, d')" "get_replica_row d i = Some r"
    "get_version_row d (r_version_id r) = Some v"
  shows "get_replica_row d' i = Some q" "r_status q = RS_HEALTHY" "r_version_id q = r_version_id r"
    "r_checksum q = Some (v_checksum v)" "r_size q = Some (v_size v)" "r_last_verified_at q = Some t"
    "versions d' = versions d"
  using assms
  by (auto simp: record_replica_verification_def lock_replica_def row_lookups result_iffs Let_def split: if_splits)

lemma settle_measurement_result:
  assumes "settle_measurement rf r v m w = (Inr res, w')"
    "get_replica_row (view w) (r_id r) = Some r" "get_version_row (view w) (r_version_id r) = Some v"
  shows "ir_checked res" "ir_replica_id res = r_id r" "ir_corrupted res \<longleftrightarrow> \<not> measurement_ok m r v"
    "ir_corrupted res \<Longrightarrow> \<exists>q. get_replica_row (view w') (r_id r) = Some q \<and> r_status q = RS_CORRUPTED"
    "\<not> ir_corrupted res \<Longrightarrow> \<exists>q. get_replica_row (view w') (r_id r) = Some q \<and> r_status q = RS_HEALTHY \<and>
       r_version_id q = r_version_id r \<and> r_checksum q = Some (v_checksum v) \<and> r_size q = Some (v_size v)"
proof -
  have "ir_checked res \<and> ir_replica_id res = r_id r \<and> (ir_corrupted res \<longleftrightarrow> \<not> measurement_ok m r v) \<and>
    (ir_corrupted res \<longrightarrow> (\<exists>q. get_replica_row (view w') (r_id r) = Some q \<and> r_status q = RS_CORRUPTED)) \<and>
    (\<not> ir_corrupted res \<longrightarrow> (\<exists>q. get_replica_row (view w') (r_id r) = Some q \<and> r_status q = RS_HEALTHY \<and>
       r_version_id q = r_version_id r \<and> r_checksum q = Some (v_checksum v) \<and> r_size q = Some (v_size v)))"
  proof (cases "measurement_ok m r v")
    case True
    obtain q t where "record_replica_verification t (r_id r) (lower (vo_checksum m)) (vo_size m) (view w) = Inr (q, view w')"
      and res: "res = (not_checked r)\<lparr>ir_checked := True, ir_checksum := Some (lower (vo_checksum m)), ir_size := Some (vo_size m)\<rparr>"
      using assms(1) True by (auto simp: settle_measurement_def Let_def run_simps elim!: thenA_InrE dest!: transaction_InrD(1))
    from record_verification_row [OF this(1) assms(2,3)] res True show ?thesis by (auto simp: not_checked_def)
  next
    case False
    then obtain q j and w1 :: "'a world" where s: "transaction (set_replica_state (r_id r) RS_CORRUPTED) w = (Inr q, w1)"
      "schedule_for_version rf (v_id v) (Some rf) ''integrity-mismatch'' (Some r) w1 = (Inr j, w')"
      and res: "ir_checked res" "ir_corrupted res" "ir_replica_id res = r_id r"
      using assms(1) by (auto simp: settle_measurement_def Let_def run_simps not_checked_def elim!: thenA_InrE bindA_InrE)
    have "get_replica_row (view w') (r_id r) = Some q" "r_status q = RS_CORRUPTED"
      using set_replica_state_frame(5,6) [OF transaction_InrD(1) [OF s(1)]] schedule_replicas [OF s(2)] by simp_all
    with res False show ?thesis by simp
  qed
  then show "ir_checked res" "ir_replica_id res = r_id r" "ir_corrupted res \<longleftrightarrow> \<not> measurement_ok m r v"
    "ir_corrupted res \<Longrightarrow> \<exists>q. get_replica_row (view w') (r_id r) = Some q \<and> r_status q = RS_CORRUPTED"
    "\<not> ir_corrupted res \<Longrightarrow> \<exists>q. get_replica_row (view w') (r_id r) = Some q \<and> r_status q = RS_HEALTHY \<and>
       r_version_id q = r_version_id r \<and> r_checksum q = Some (v_checksum v) \<and> r_size q = Some (v_size v)"
    by blast+
qed

text \<open>What a node answers when its measurement of a version is asked for in network state \<open>s\<close>.\<close>

definition node_measures :: "'n client \<Rightarrow> node_row \<Rightarrow> version_row \<Rightarrow> 'n \<Rightarrow> verified_object \<Rightarrow> bool" where
  "node_measures c n v s m \<longleftrightarrow> (\<exists>s1 s2. c_open c (n_address n) s = (Inr (), s1) \<and>
     c_verify c (n_address n) (uuid_str (v_object_id v)) (uuid_str (v_id v)) False s1 = (Inr m, s2))"

lemma verify_replica_cases:
  fixes w :: "'n world"
  assumes "verify_replica c rf i w = (Inr res, w')"
  obtains r v n where "get_replica_row (view w) i = Some r" "get_version_row (view w) (r_version_id r) = Some v"
      "get_node_row (view w) (r_node_id r) = Some n"
      "v_state v = VS_COMMITTED \<and> n_status n = NS_HEALTHY \<and> r_status r = RS_HEALTHY \<longrightarrow>
        (\<exists>m w1. node_measures c n v (net w) m \<and> view w1 = view w \<and> settle_measurement rf r v m w1 = (Inr res, w'))"
      "\<not> (v_state v = VS_COMMITTED \<and> n_status n = NS_HEALTHY \<and> r_status r = RS_HEALTHY) \<longrightarrow>
        res = not_checked r \<and> view w' = view w"
proof -
  obtain r where r: "get_replica_row (view w) i = Some r"
    using assms by (auto simp: verify_replica_def require_replica_def bindA_assoc run_simps split: option.splits)
  obtain v where v: "get_version_row (view w) (r_version_id r) = Some v"
    using assms r by (auto simp: verify_replica_def require_replica_def repair_version_row_def bindA_assoc run_simps
        split: option.splits)
  obtain n where n: "get_node_row (view w) (r_node_id r) = Some n"
    using assms r v by (auto simp: verify_replica_def require_replica_def repair_version_row_def require_node_def
        bindA_assoc run_simps split: option.splits)
  note unfolds = verify_replica_def require_replica_def repair_version_row_def require_node_def bindA_assoc run_simps
  show thesis
  proof (rule that [OF r v n]; intro impI)
    assume True: "v_state v = VS_COMMITTED \<and> n_status n = NS_HEALTHY \<and> r_status r = RS_HEALTHY"
    let ?ob = "uuid_str (v_object_id v)" and ?ve = "uuid_str (v_id v)"
    from True assms r v n obtain m w1 and w2 :: "'n world" where
      s: "net_call (c_open c (n_address n)) (w\<lparr>in_tx := True\<rparr>) = (Inr (), w2)"
         "net_call (c_verify c (n_address n) ?ob ?ve False) w2 = (Inr m, w1)" "settle_measurement rf r v m w1 = (Inr res, w')"
      by (auto simp: unfolds elim!: thenA_InrE bindA_InrE)
    have "node_measures c n v (net w) m" unfolding node_measures_def
      using net_callD(4) [OF s(1)] net_callD(4) [OF s(2)] by auto
    moreover have "view w1 = view w" using net_callD(1) [OF s(1)] net_callD(1) [OF s(2)] by simp
    ultimately show "\<exists>m w1. node_measures c n v (net w) m \<and> view w1 = view w \<and> settle_measurement rf r v m w1 = (Inr res, w')"
      using s(3) by blast
  next
    assume "\<not> (v_state v = VS_COMMITTED \<and> n_status n = NS_HEALTHY \<and> r_status r = RS_HEALTHY)"
    with assms r v n show "res = not_checked r \<and> view w' = view w" by (auto simp: unfolds split: if_splits)
  qed
qed

text \<open>For a HEALTHY replica the recorded checksum and size are those of its version.\<close>

lemma measurement_ok_healthy:
  assumes "db_inv d" "get_replica_row d i = Some r" "get_version_row d (r_version_id r) = Some v" "r_status r = RS_HEALTHY"
  shows "measurement_ok m r v \<longleftrightarrow>
    vo_verified m \<and> vo_valid m \<and> lower (vo_checksum m) = lower (v_checksum v) \<and> vo_size m = v_size v"
proof -
  have "r \<in> set (replicas d)" using lookup_by_SomeD [OF assms(2)] by simp
  from healthy_replicaD(1,2) [OF assms(1) this assms(4,3)]
  show ?thesis by (auto simp: measurement_ok_def expected_checksum_def expected_size_def)
qed

section \<open>The job discipline\<close>

lemma get_upd_integrity:
  assumes "lookup_by ig_id i t = Some j" "\<And>j. ig_id (f j) = ig_id j"
  shows "lookup_by ig_id i (update_by ig_id i f t) = Some (f j)"
  using lookup_update_by [of ig_id f i i t] assms by simp

abbreviation integrity_row :: "uuid \<Rightarrow> integrity_job \<Rightarrow> 'n world \<Rightarrow> bool" where
  "integrity_row i j \<equiv> holds_of integrity_jobs (\<lambda>t. lookup_by ig_id i t = Some j)"

lemma record_verification_jobs: "record_replica_verification t i c z d = Inr (q, d') \<Longrightarrow> integrity_jobs d' = integrity_jobs d"
  by (auto simp: record_replica_verification_def upd_defs result_iffs Let_def split: if_splits)

lemma integrity_table_ops [keeps_rules]:
  "keeps (holds_of integrity_jobs P) (transaction (set_replica_state i st))"
  "keeps (holds_of integrity_jobs P) (transaction (record_replica_verification t i c z))"
  "keeps (holds_of integrity_jobs P) (add_commit (insert_repair j))"
  by (rule holds_of_transaction, simp add: set_replica_state_frame(9))
    (rule holds_of_transaction, simp add: record_verification_jobs,
     rule holds_of_add_commit, auto simp: insert_repair_def split: if_splits)

lemma integrity_table_schedule [keeps_rules]:
  "keeps (holds_of integrity_jobs P) (schedule_for_version df v rf reason p)"
  unfolding schedule_for_version_def repair_version_row_def target_for_version_def repair_create_job_def
    repair_new_job_def Let_def
  by (intro keeps_rules)

lemma integrity_table_scans [keeps_rules]: "keeps (holds_of integrity_jobs P) (integrity_scans c rf job)"
  unfolding integrity_scans_def scan_node_def scan_version_def verify_replica_def settle_measurement_def Let_def
    require_replica_def require_node_def repair_version_row_def
  by (intro keeps_rules)

text \<open>How a run that was counted ends.\<close>

lemma integrity_run_ended:
  assumes "integrity_run_job c rf m i w = (r, w')" "get_integrity_row (view w) i = Some j"
    "\<not> job_over m (ig_status j) (ig_attempts j)" "case r of Inl e \<Rightarrow> caught_errors e | Inr _ \<Rightarrow> True"
  shows "\<exists>x. integrity_row i x w' \<and> ig_attempts x = ig_attempts (integrity_start j) \<and>
    ig_status x = (if isl r then retry_status m (ig_attempts (integrity_start j)) else JS_SUCCEEDED)"
proof -
  let ?w = "w\<lparr>view := upd_integrity i integrity_start (view w), stored := upd_integrity i integrity_start (view w),
            in_tx := False\<rparr>"
  let ?body = "bindA (integrity_scans c rf j) (\<lambda>rs.
          thenA (modify (upd_integrity i (integrity_finish rs)))
          (thenA commit (bindA (live_integrity i j) (\<lambda>k. retA (integrity_job_result_of k rs)))))"
  have row: "integrity_row i (integrity_start j) ?w"
    using get_upd_integrity [OF assms(2), of integrity_start]
    by (simp add: holds_of_def upd_integrity_def integrity_start_def)
  obtain r1 u where scan: "integrity_scans c rf j ?w = (r1, u)" by (cases "integrity_scans c rf j ?w")
  have u: "integrity_row i (integrity_start j) u" using keepsD [OF integrity_table_scans row scan] .
  then have u': "lookup_by ig_id i (integrity_jobs (view u)) = Some (integrity_start j)" by (simp add: holds_of_def)
  have upd: "lookup_by ig_id i (integrity_jobs (upd_integrity i f (view u))) = Some (f (integrity_start j))"
    if "\<And>j. ig_id (f j) = ig_id j" for f
    using get_upd_integrity [OF u' that] by (simp add: upd_integrity_def)
  have run: "catchA ?body (\<lambda>e. if caught_errors e
              then bindA (live_integrity i j) (\<lambda>k.
                   thenA (modify (upd_integrity i
                     (integrity_settle (retry_status m (ig_attempts k)) (Some (ErrExn e)))))
                   (thenA commit (raiseA e)))
              else raiseA e) ?w = (r, w')"
    using assms(1-3) by (simp add: integrity_run_job_def run_simps)
  show ?thesis
  proof (cases r1)
    case (Inl e)
    then have "?body ?w = (Inl e, u)" using scan by (simp add: bindA_def)
    with run assms(4) u' show ?thesis
      using upd [of "integrity_settle (retry_status m (ig_attempts (integrity_start j))) (Some (ErrExn e))"]
      by (auto simp: catchA_def run_simps live_integrity_def holds_of_def integrity_settle_def split: if_splits)
  next
    case (Inr rs)
    then show ?thesis using run scan upd [of "integrity_finish rs"]
      by (auto simp: catchA_def bindA_def run_simps live_integrity_def live_def retA_def holds_of_def integrity_finish_def)
  qed
qed

section \<open>Properties\<close>

text \<open>C36. A check says what the node measured and what is stored. A replica is checked exactly when its
  version is committed and its node and itself are HEALTHY; otherwise it is not touched. A checked replica is reported
  as corrupted exactly when the node did not measure a verified, valid copy with the checksum and the size of
  the version. A replica reported as corrupted is CORRUPTED in the tables, and one reported as sound is HEALTHY with
  the checksum and the size of its version.\<close>

theorem integrity_verify_correct:
  assumes "db_inv (view w)" "verify_replica c rf i w = (Inr res, w')"
  shows "\<exists>r v n. get_replica_row (view w) i = Some r \<and> get_version_row (view w) (r_version_id r) = Some v \<and>
    get_node_row (view w) (r_node_id r) = Some n \<and> ir_replica_id res = i \<and>
    (ir_checked res \<longleftrightarrow> v_state v = VS_COMMITTED \<and> n_status n = NS_HEALTHY \<and> r_status r = RS_HEALTHY) \<and>
    (\<not> ir_checked res \<longrightarrow> \<not> ir_corrupted res \<and> view w' = view w) \<and>
    (ir_checked res \<longrightarrow> (\<exists>m. node_measures c n v (net w) m \<and>
       (ir_corrupted res \<longleftrightarrow>
         \<not> (vo_verified m \<and> vo_valid m \<and> lower (vo_checksum m) = lower (v_checksum v) \<and> vo_size m = v_size v)))) \<and>
    (ir_corrupted res \<longrightarrow> (\<exists>q. get_replica_row (view w') i = Some q \<and> r_status q = RS_CORRUPTED)) \<and>
    (ir_checked res \<and> \<not> ir_corrupted res \<longrightarrow>
       (\<exists>q. get_replica_row (view w') i = Some q \<and> r_status q = RS_HEALTHY \<and> r_version_id q = r_version_id r \<and>
          r_checksum q = Some (v_checksum v) \<and> r_size q = Some (v_size v)))"
proof -
  obtain r v n where row: "get_replica_row (view w) i = Some r" "get_version_row (view w) (r_version_id r) = Some v"
      "get_node_row (view w) (r_node_id r) = Some n"
    and run: "v_state v = VS_COMMITTED \<and> n_status n = NS_HEALTHY \<and> r_status r = RS_HEALTHY \<longrightarrow>
        (\<exists>m w1. node_measures c n v (net w) m \<and> view w1 = view w \<and> settle_measurement rf r v m w1 = (Inr res, w'))"
      "\<not> (v_state v = VS_COMMITTED \<and> n_status n = NS_HEALTHY \<and> r_status r = RS_HEALTHY) \<longrightarrow>
        res = not_checked r \<and> view w' = view w"
    by (rule verify_replica_cases [OF assms(2)])
  have i: "r_id r = i" using lookup_by_SomeD [OF row(1)] by simp
  show ?thesis
  proof (cases "v_state v = VS_COMMITTED \<and> n_status n = NS_HEALTHY \<and> r_status r = RS_HEALTHY")
    case True
    then obtain m w1 where m: "node_measures c n v (net w) m" "view w1 = view w" "settle_measurement rf r v m w1 = (Inr res, w')"
      using run(1) by blast
    have "get_replica_row (view w1) (r_id r) = Some r" "get_version_row (view w1) (r_version_id r) = Some v"
      using row(1,2) i m(2) by simp_all
    note s = settle_measurement_result [OF m(3) this] and ok = measurement_ok_healthy [OF assms(1) row(1,2), of m]
    show ?thesis using s ok True m(1) row unfolding i by (intro exI [of _ r] exI [of _ v] exI [of _ n]) auto
  next
    case False
    then have "res = not_checked r \<and> view w' = view w" using run(2) by blast
    then show ?thesis using False row i by (intro exI [of _ r] exI [of _ v] exI [of _ n]) (auto simp: not_checked_def)
  qed
qed

text \<open>A node that does not answer is not corrupted: when a check ends with an error of the storage
  client, the tables are exactly what they were.\<close>

theorem integrity_unreachable_not_corrupt:
  assumes "verify_replica c rf i w = (Inl e, w')" "is_client_error e"
  shows "view w' = view w \<and> stored w' = stored w"
  using hoareD_Inl [OF verify_replica_unreachable [of "view w" "stored w"] _ assms(1)] assms(2)
  by (simp add: tables_are_def)

text \<open>Integrity jobs follow the job discipline: a run of a job that is between runs leaves it between
  runs again, with one attempt more and never more than the maximum, SUCCEEDED when it returns,
  and PENDING only while attempts remain; the outcome is durable.\<close>

theorem integrity_run_disciplined:
  assumes "integrity_run_job c rf m i w = (r, w')" "get_integrity_row (view w) i = Some j"
    "\<not> job_over m (ig_status j) (ig_attempts j)" "case r of Inl e \<Rightarrow> caught_errors e | Inr _ \<Rightarrow> True"
    "0 \<le> ig_attempts j" "ig_attempts j \<le> m" "ig_status j \<noteq> JS_RUNNING" "ig_status j = JS_PENDING \<longrightarrow> ig_attempts j < m"
  shows "\<exists>x. get_integrity_row (view w') i = Some x \<and> get_integrity_row (stored w') i = Some x \<and>
    ig_attempts x = ig_attempts j + 1 \<and> ig_attempts x \<le> m \<and>
    (if isl r then ig_status x = JS_FAILED \<and> ig_attempts x = m \<or> ig_status x = JS_PENDING \<and> ig_attempts x < m
     else ig_status x = JS_SUCCEEDED)"
proof -
  have set: "integrity_job.settled m j" using assms(5-8) by (simp add: integrity_job.settled_def)
  note ok = integrity_job.run_fails(1) [OF set assms(3), of None] integrity_job.run_succeeds [OF set assms(3), of None]
  from integrity_run_ended [OF assms(1-4)] obtain x where x: "integrity_row i x w'"
    "ig_attempts x = ig_attempts (integrity_start j)"
    "ig_status x = (if isl r then retry_status m (ig_attempts (integrity_start j)) else JS_SUCCEEDED)" by blast
  with ok show ?thesis
    by (auto simp: holds_of_def integrity_job.settled_def integrity_start_def integrity_settle_def retry_status_def)
qed

definition demo_check :: "string list \<Rightarrow> db \<Rightarrow> (exn + integrity_result) \<times> unit world" where
  "demo_check up d = verify_replica (demo_client up) 1 30 (demo_world d ())"

lemmas demo_check_unfold = demo_check_def verify_replica_def settle_measurement_def Let_def demo_client_simps

theorem integrity_verify_correct_witness:
  "\<exists>res w' q. demo_check [''http://n1''] demo_cluster = (Inr res, w') \<and> ir_checked res \<and>
     get_replica_row (view w') 30 = Some q \<and> r_status q = RS_HEALTHY"
proof -
  have "(case fst (demo_check [''http://n1''] demo_cluster) of Inl _ \<Rightarrow> False
      | Inr res \<Rightarrow> ir_checked res \<and> \<not> ir_corrupted res)"
    unfolding demo_check_unfold by code_simp
  then obtain res w' where r: "demo_check [''http://n1''] demo_cluster = (Inr res, w')" "ir_checked res" "\<not> ir_corrupted res"
    by (cases "demo_check [''http://n1''] demo_cluster") (auto split: sum.splits)
  have "db_inv (view (demo_world demo_cluster ()))" using demo_cluster_inv by (simp add: demo_world_def)
  from integrity_verify_correct [OF this r(1) [unfolded demo_check_def]] r show ?thesis by auto
qed

theorem integrity_unreachable_not_corrupt_witness:
  "\<exists>e w'. demo_check [] demo_cluster = (Inl e, w') \<and> view w' = demo_cluster"
proof -
  have "(case fst (demo_check [] demo_cluster) of Inl e \<Rightarrow> is_client_error e | Inr res \<Rightarrow> False)"
    unfolding demo_check_unfold by code_simp
  then obtain e w' where r: "demo_check [] demo_cluster = (Inl e, w')" "is_client_error e"
    by (cases "demo_check [] demo_cluster") (auto split: sum.splits)
  from integrity_unreachable_not_corrupt [OF r(1) [unfolded demo_check_def] r(2)] r(1) show ?thesis
    by (auto simp: demo_world_def)
qed

definition demo_scan :: "(exn + integrity_job_result) \<times> unit world" where
  "demo_scan = integrity_run_job (demo_client []) 1 3 60
     (demo_world (demo_cluster\<lparr>integrity_jobs := [new_integrity_job 60 7 (Some ''n1'') None]\<rparr>) ())"

theorem integrity_run_disciplined_witness:
  "\<exists>e w' x. demo_scan = (Inl e, w') \<and> get_integrity_row (view w') 60 = Some x \<and> ig_attempts x = 1 \<and>
     ig_status x = JS_PENDING"
proof -
  have "(case fst demo_scan of Inl e \<Rightarrow> caught_errors e | Inr res \<Rightarrow> False)"
    unfolding demo_scan_def integrity_run_job_def integrity_scans_def scan_node_def demo_check_unfold by code_simp
  then obtain e where "fst demo_scan = Inl e" "caught_errors e" by (auto split: sum.splits)
  then obtain w' where r: "demo_scan = (Inl e, w')" "caught_errors e" by (metis prod.collapse)
  from integrity_run_disciplined [OF r(1) [unfolded demo_scan_def], of "new_integrity_job 60 7 (Some ''n1'') None"] r
  show ?thesis by (auto simp: demo_world_def new_integrity_job_def job_over_def)
qed

end
