(* ===== verification/Recovery.thy ===== *)
theory Recovery
  imports Integrity
begin

text \<open>
  \<^verbatim>\<open>recovery/manager.py\<close>: reconciling a node that comes back after a partition. Every
  known committed replica of the node is measured; what is found decides whether the replica is
  healthy, missing or corrupted, repairs are scheduled for the latter, and the node returns to
  HEALTHY only when nothing is left unresolved.

  The loop's counters and lists are modelled by one outcome per replica and their sum; the body
  of the loop never reads them.
\<close>

section \<open>One replica\<close>

record recovery_outcome =
  oc_checked :: nat
  oc_healthy :: nat
  oc_missing :: "uuid list"
  oc_corrupted :: "uuid list"
  oc_repairs :: "uuid list"
  oc_unresolved :: "uuid list"
  oc_complete :: bool
  oc_errors :: "(uuid \<times> err_text) list"

definition no_outcome :: recovery_outcome where
  "no_outcome = \<lparr>oc_checked = 0, oc_healthy = 0, oc_missing = [], oc_corrupted = [], oc_repairs = [],
     oc_unresolved = [], oc_complete = True, oc_errors = []\<rparr>"

definition known_replicas :: "string \<Rightarrow> db \<Rightarrow> replica_row list" where
  "known_replicas node_id d = sort_key r_id (filter (\<lambda>r. r_node_id r = node_id \<and>
     committed_version d (r_version_id r) \<and> r_status r \<noteq> RS_FAILED) (replicas d))"

definition mark_verified_replica :: "replica_row \<Rightarrow> string \<Rightarrow> int \<Rightarrow> ('n, unit) act" where
  "mark_verified_replica r checksum size_bytes =
     (let healthy = bindA now (\<lambda>t. thenA (transaction (mark_replica_healthy t (r_id r) checksum size_bytes)) (retA ())) in
      if r_status r = RS_HEALTHY then
        bindA now (\<lambda>t. thenA (transaction (record_replica_verification t (r_id r) checksum size_bytes)) (retA ()))
      else if r_status r = RS_FAILED then retA ()
      else if r_status r \<in> {RS_PENDING, RS_CORRUPTED, RS_STALE, RS_UNAVAILABLE} then
        thenA (transaction (set_replica_state (r_id r) RS_REPAIRING)) healthy
      else if r_status r \<noteq> RS_REPAIRING then raiseA (VaultE InvalidState)
      else healthy)"

definition schedule_repair :: "int \<Rightarrow> uuid \<Rightarrow> replica_row \<Rightarrow> string \<Rightarrow> ('n, uuid option \<times> exn option) act" where
  "schedule_repair rf version_id r reason =
     catchA (bindA (schedule_for_version rf version_id (Some rf) reason (Some r)) (\<lambda>job.
         retA (map_option rp_id job, None)))
       (\<lambda>e. if is_vault_error e then retA (None, Some e) else raiseA e)"

text \<open>Marking a HEALTHY replica and scheduling its repair, as every failed measurement does.\<close>

definition flag_replica ::
  "int \<Rightarrow> version_row \<Rightarrow> replica_row \<Rightarrow> replica_state \<Rightarrow> string \<Rightarrow> recovery_outcome \<Rightarrow> ('n, recovery_outcome) act" where
  "flag_replica rf v r st reason out =
     thenA (if r_status r = RS_HEALTHY then thenA (transaction (set_replica_state (r_id r) st)) (retA ()) else retA ())
     (bindA (schedule_repair rf (v_id v) r reason) (\<lambda>(repair_id, repair_error).
      retA (out\<lparr>oc_repairs := (case repair_id of None \<Rightarrow> [] | Some i \<Rightarrow> [i]),
        oc_unresolved := (case repair_error of None \<Rightarrow> [] | Some e \<Rightarrow> [r_id r]),
        oc_errors := (case repair_error of None \<Rightarrow> [] | Some e \<Rightarrow> [(r_id r, ErrExn e)])\<rparr>)))"

definition live_replica :: "replica_row \<Rightarrow> ('n, replica_row) act" where
  "live_replica r = live (\<lambda>d. case get_replica_row d (r_id r) of None \<Rightarrow> r | Some x \<Rightarrow> x)"

definition measure_replica ::
  "'n client \<Rightarrow> int \<Rightarrow> node_row \<Rightarrow> version_row \<Rightarrow> replica_row \<Rightarrow> ('n, recovery_outcome) act" where
  "measure_replica c rf n v r =
     bindA (net_call (c_verify c (n_address n) (uuid_str (v_object_id v)) (uuid_str (v_id v)) True)) (\<lambda>m.
     if \<not> matches_metadata m v
     then flag_replica rf v r RS_CORRUPTED ''partition-recovery-integrity-mismatch''
       (no_outcome\<lparr>oc_checked := 1, oc_corrupted := [r_id r]\<rparr>)
     else thenA (mark_verified_replica r (vo_checksum m) (vo_size m))
       (retA (no_outcome\<lparr>oc_checked := 1, oc_healthy := 1\<rparr>)))"

definition recovery_handler :: "int \<Rightarrow> version_row \<Rightarrow> replica_row \<Rightarrow> exn \<Rightarrow> ('n, recovery_outcome) act" where
  "recovery_handler rf v r e =
     (case e of
        ClientE ce \<Rightarrow>
          if ce = StorageObjectNotFoundError then
            flag_replica rf v r RS_UNAVAILABLE ''partition-recovery-missing''
              (no_outcome\<lparr>oc_checked := 1, oc_missing := [r_id r]\<rparr>)
          else if ce = StorageNodeIntegrityError then
            bindA (flag_replica rf v r RS_CORRUPTED ''partition-recovery-integrity-mismatch''
              (no_outcome\<lparr>oc_checked := 1, oc_corrupted := [r_id r]\<rparr>)) (\<lambda>out.
            retA (out\<lparr>oc_errors := oc_errors out @ [(r_id r, ErrExn e)]\<rparr>))
          else retA (no_outcome\<lparr>oc_unresolved := [r_id r], oc_complete := False, oc_errors := [(r_id r, ErrExn e)]\<rparr>)
      | _ \<Rightarrow> raiseA e)"

definition reconcile_replica ::
  "'n client \<Rightarrow> int \<Rightarrow> node_row \<Rightarrow> replica_row \<Rightarrow> ('n, recovery_outcome) act" where
  "reconcile_replica c rf n r0 =
     bindA (repair_version_row (r_version_id r0)) (\<lambda>v.
     thenA (net_call (c_open c (n_address n)))
     (bindA (live_replica r0) (\<lambda>r.
       catchA (measure_replica c rf n v r) (recovery_handler rf v r))))"

section \<open>A node\<close>

record recovery_result =
  rc_node_id :: string
  rc_checked :: nat
  rc_healthy :: nat
  rc_missing :: "uuid list"
  rc_corrupted :: "uuid list"
  rc_repairs :: "uuid list"
  rc_unresolved :: "uuid list"
  rc_complete :: bool
  rc_errors :: "(uuid \<times> err_text) list"

definition recovery_result_of :: "string \<Rightarrow> recovery_outcome list \<Rightarrow> recovery_result" where
  "recovery_result_of node_id os = \<lparr>rc_node_id = node_id, rc_checked = sum_list (map oc_checked os),
     rc_healthy = sum_list (map oc_healthy os), rc_missing = concat (map oc_missing os),
     rc_corrupted = concat (map oc_corrupted os), rc_repairs = concat (map oc_repairs os),
     rc_unresolved = concat (map oc_unresolved os),
     rc_complete = (list_all oc_complete os \<and> concat (map oc_unresolved os) = []),
     rc_errors = concat (map oc_errors os)\<rparr>"

definition reconcile_node :: "'n client \<Rightarrow> int \<Rightarrow> string \<Rightarrow> ('n, recovery_result) act" where
  "reconcile_node c rf node_id =
     bindA (require_node node_id) (\<lambda>n.
     if n_status n \<noteq> NS_RECOVERING then raiseA (VaultE InvalidState) else
     bindA (query (known_replicas node_id)) (\<lambda>rs.
     bindA (forA (reconcile_replica c rf n) rs) (\<lambda>os. retA (recovery_result_of node_id os))))"

definition reconcile_and_mark_healthy :: "'n client \<Rightarrow> int \<Rightarrow> string \<Rightarrow> ('n, recovery_result) act" where
  "reconcile_and_mark_healthy c rf node_id =
     bindA (reconcile_node c rf node_id) (\<lambda>res.
     if rc_complete res then
       bindA (require_node node_id) (\<lambda>n.
       if n_status n = NS_RECOVERING
       then thenA (transaction (transition_node_state node_id NS_HEALTHY)) (retA res) else retA res)
     else retA res)"

section \<open>Preservation\<close>

lemma recovery_steps_sound [keeps_rules]:
  "keeps (sound d0) (mark_verified_replica r c z)" "keeps (sound d0) (schedule_repair rf v r reason)"
  "keeps (sound d0) (live_replica r)"
  unfolding mark_verified_replica_def schedule_repair_def live_replica_def Let_def by (intro keeps_rules)+

lemma flag_replica_sound [keeps_rules]: "keeps (sound d0) (flag_replica rf v r st reason out)"
  unfolding flag_replica_def by (intro keeps_rules)

lemma recovery_handler_sound [keeps_rules]: "keeps (sound d0) (recovery_handler rf v r e)"
  unfolding recovery_handler_def by (cases e) (auto intro!: keeps_rules)

lemma reconcile_replica_sound [keeps_rules]: "keeps (sound d0) (reconcile_replica c rf n r)"
  unfolding reconcile_replica_def measure_replica_def by (intro keeps_rules)

lemma reconcile_node_sound [keeps_rules]:
  "keeps (sound d0) (reconcile_node c rf n)"
  unfolding reconcile_node_def by (intro keeps_rules)

lemma reconcile_and_mark_healthy_sound [keeps_rules]: "keeps (sound d0) (reconcile_and_mark_healthy c rf n)"
  unfolding reconcile_and_mark_healthy_def by (intro keeps_rules)

section \<open>Accounting\<close>

text \<open>Every outcome measures its replica once or leaves it unresolved.\<close>

definition accounted :: "recovery_outcome \<Rightarrow> bool" where
  "accounted out \<longleftrightarrow> oc_checked out = oc_healthy out + length (oc_missing out) + length (oc_corrupted out) \<and>
     oc_checked out = (if oc_complete out then 1 else 0) \<and> (oc_complete out \<or> oc_unresolved out \<noteq> [])"

lemma flag_replica_accounted:
  assumes "flag_replica rf v r st reason out w = (Inr res, w')" "accounted out" "oc_complete out"
  shows "accounted res" "oc_complete res"
  using assms by (auto simp: flag_replica_def retA_def accounted_def elim!: thenA_InrE bindA_InrE split: prod.splits)

lemma one_outcome:
  "accounted (no_outcome\<lparr>oc_checked := 1, oc_corrupted := [i]\<rparr>)" "accounted (no_outcome\<lparr>oc_checked := 1, oc_missing := [i]\<rparr>)"
  "accounted (no_outcome\<lparr>oc_checked := 1, oc_healthy := 1\<rparr>)"
  "accounted (no_outcome\<lparr>oc_unresolved := [i], oc_complete := False, oc_errors := es\<rparr>)"
  "oc_complete (no_outcome\<lparr>oc_checked := 1, oc_corrupted := [i]\<rparr>)" "oc_complete (no_outcome\<lparr>oc_checked := 1, oc_missing := [i]\<rparr>)"
  "accounted out \<Longrightarrow> accounted (out\<lparr>oc_errors := es\<rparr>)"
  by (simp_all add: accounted_def no_outcome_def)

lemma flagged_accounted:
  assumes "flag_replica rf v r st reason out w = (Inr res, w')"
    "out = no_outcome\<lparr>oc_checked := 1, oc_corrupted := [i]\<rparr> \<or> out = no_outcome\<lparr>oc_checked := 1, oc_missing := [i]\<rparr>"
  shows "accounted res"
  using flag_replica_accounted(1) [OF assms(1)] assms(2) one_outcome(1,2,5,6) by metis

lemma measure_replica_accounted:
  assumes "measure_replica c rf n v r w = (Inr out, w')"
  shows "accounted out"
proof -
  from assms obtain m u where run: "(if \<not> matches_metadata m v
     then flag_replica rf v r RS_CORRUPTED ''partition-recovery-integrity-mismatch''
       (no_outcome\<lparr>oc_checked := 1, oc_corrupted := [r_id r]\<rparr>)
     else thenA (mark_verified_replica r (vo_checksum m) (vo_size m))
       (retA (no_outcome\<lparr>oc_checked := 1, oc_healthy := 1\<rparr>))) u = (Inr out, w')"
    unfolding measure_replica_def by (rule bindA_InrE)
  show ?thesis
  proof (cases "matches_metadata m v")
    case True
    then show ?thesis using run one_outcome(3) by (auto simp: retA_def elim!: thenA_InrE)
  next
    case False
    then show ?thesis using run flagged_accounted by fastforce
  qed
qed

lemma recovery_handler_accounted:
  assumes "recovery_handler rf v r e w = (Inr out, w')"
  shows "accounted out"
proof (cases e)
  case (ClientE ce)
  consider "ce = StorageObjectNotFoundError" | "ce = StorageNodeIntegrityError"
    | "ce \<noteq> StorageObjectNotFoundError" "ce \<noteq> StorageNodeIntegrityError" by blast
  then show ?thesis
  proof cases
    case 1
    with assms ClientE show ?thesis
      by (intro flagged_accounted [where out = "no_outcome\<lparr>oc_checked := 1, oc_missing := [r_id r]\<rparr>"])
        (auto simp: recovery_handler_def)
  next
    case 2
    with assms ClientE obtain o1 u es where "flag_replica rf v r RS_CORRUPTED ''partition-recovery-integrity-mismatch''
        (no_outcome\<lparr>oc_checked := 1, oc_corrupted := [r_id r]\<rparr>) w = (Inr o1, u)" "out = o1\<lparr>oc_errors := es\<rparr>"
      by (auto simp: recovery_handler_def retA_def elim!: bindA_InrE)
    then show ?thesis using flagged_accounted one_outcome(7) by metis
  next
    case 3
    with assms ClientE have "out = no_outcome\<lparr>oc_unresolved := [r_id r], oc_complete := False, oc_errors := [(r_id r, ErrExn e)]\<rparr>"
      by (simp add: recovery_handler_def retA_def)
    then show ?thesis by (simp add: one_outcome(4))
  qed
qed (use assms in \<open>simp_all add: recovery_handler_def raiseA_def\<close>)

lemma reconcile_replica_accounted: "reconcile_replica c rf n r w = (Inr out, w') \<Longrightarrow> accounted out"
  by (auto simp: reconcile_replica_def elim!: bindA_InrE thenA_InrE catchA_InrE
      dest: measure_replica_accounted recovery_handler_accounted)

lemma accounted_sum:
  assumes "list_all accounted os"
  shows "rc_checked (recovery_result_of n os) = rc_healthy (recovery_result_of n os) +
      length (rc_missing (recovery_result_of n os)) + length (rc_corrupted (recovery_result_of n os))"
    "rc_checked (recovery_result_of n os) \<le> length os"
    "rc_complete (recovery_result_of n os) \<Longrightarrow> rc_checked (recovery_result_of n os) = length os"
  using assms by (induction os) (auto simp: recovery_result_of_def accounted_def split: if_splits)

section \<open>The node row during reconciliation\<close>

text \<open>An action that keeps a property unless the database refuses an insert.\<close>

definition steady :: "('n world \<Rightarrow> bool) \<Rightarrow> ('n, 'a) act \<Rightarrow> bool" where
  "steady I m \<longleftrightarrow> hoare I m (\<lambda>_. I) (\<lambda>e w. e = DbError \<or> I w)"

named_theorems steady_rules \<open>introduction rules for steady actions\<close>

lemma steady_keeps: "keeps I m \<Longrightarrow> steady I m"
  unfolding steady_def hoare_keeps by (erule hoare_weaken) auto

lemma steady_bindA [steady_rules]: "steady I m \<Longrightarrow> (\<And>x. steady I (f x)) \<Longrightarrow> steady I (bindA m f)"
  unfolding steady_def by (rule hoare_bindA)

lemma steady_thenA [steady_rules]: "steady I m \<Longrightarrow> steady I n \<Longrightarrow> steady I (thenA m n)"
  unfolding thenA_def by (rule steady_bindA)

lemma steady_catchA:
  assumes "steady I m" "\<And>e. e \<noteq> DbError \<Longrightarrow> steady I (h e)" "h DbError = raiseA DbError"
  shows "steady I (catchA m h)"
  unfolding steady_def
proof (rule hoareI)
  fix s x t
  assume "I s" "catchA m h s = (Inr x, t)"
  from this(2) show "I t"
  proof (cases rule: catchA_InrE)
    case ok
    then show ?thesis using assms(1) \<open>I s\<close> hoareD_Inr unfolding steady_def by metis
  next
    case (handled e u)
    then have "e \<noteq> DbError" using assms(3) by (auto simp: raiseA_def)
    moreover have "e = DbError \<or> I u" using hoareD_Inl [OF assms(1) [unfolded steady_def] \<open>I s\<close> handled(1)] .
    ultimately show ?thesis using assms(2) [of e] handled(2) hoareD_Inr unfolding steady_def by metis
  qed
next
  fix s e t
  assume s: "I s" "catchA m h s = (Inl e, t)"
  then obtain e' u where u: "m s = (Inl e', u)" "h e' u = (Inl e, t)"
    by (auto simp: catchA_def split: prod.splits sum.splits)
  have "e' = DbError \<or> I u" using hoareD_Inl [OF assms(1) [unfolded steady_def] s(1) u(1)] .
  then show "e = DbError \<or> I t"
  proof (cases "e' = DbError")
    case False
    with \<open>e' = DbError \<or> I u\<close> show ?thesis
      using hoareD_Inl [OF assms(2) [unfolded steady_def] _ u(2)] by blast
  qed (use u(2) assms(3) in \<open>simp add: raiseA_def\<close>)
qed

lemma steady_simple [steady_rules]: "steady I (retA x)" "steady I (raiseA e)"
  by (simp_all add: steady_def hoare_def retA_def raiseA_def)

lemma steady_if [steady_rules]: "(b \<Longrightarrow> steady I m) \<Longrightarrow> (\<not> b \<Longrightarrow> steady I n) \<Longrightarrow> steady I (if b then m else n)"
  by simp

lemma steady_option [steady_rules]:
  "(x = None \<Longrightarrow> steady I m) \<Longrightarrow> (\<And>y. x = Some y \<Longrightarrow> steady I (f y)) \<Longrightarrow>
   steady I (case x of None \<Rightarrow> m | Some y \<Rightarrow> f y)"
  by (cases x) simp_all

lemma steady_list [steady_rules]:
  "(x = [] \<Longrightarrow> steady I m) \<Longrightarrow> (\<And>y ys. x = y # ys \<Longrightarrow> steady I (f y ys)) \<Longrightarrow>
   steady I (case x of [] \<Rightarrow> m | y # ys \<Rightarrow> f y ys)"
  by (cases x) simp_all

lemma steady_forA [steady_rules]: "(\<And>x. steady I (f x)) \<Longrightarrow> steady I (forA f xs)"
  by (induction xs) (auto intro!: steady_rules)

lemma steady_Inr: "steady I m \<Longrightarrow> I w \<Longrightarrow> m w = (Inr x, w') \<Longrightarrow> I w'"
  unfolding steady_def by (erule hoareD_Inr)

lemma sees_keeps:
  "keeps (sees tab x) new_uuid" "keeps (sees tab x) now" "keeps (sees tab x) (query f)"
  "keeps (sees tab x) (live g)" "keeps (sees tab x) (net_call m)" "keeps (sees tab x) commit"
  by (auto simp: keeps_def sees_def session_defs split: prod.split)

lemmas sees_steady [steady_rules] = sees_keeps [THEN steady_keeps]

lemma sees_transaction:
  assumes "\<And>d y d'. body d = Inr (y, d') \<Longrightarrow> tab d' = tab d"
  shows "steady (sees tab x) (transaction body)"
  using assms by (auto simp: steady_def hoare_def sees_def transaction_def split: sum.splits)

lemma record_verification_nodes: "record_replica_verification t i c z d = Inr (q, d') \<Longrightarrow> nodes d' = nodes d"
  by (auto simp: record_replica_verification_def upd_defs result_iffs Let_def split: if_splits)

lemma nodes_steady [steady_rules]:
  "steady (sees nodes x) (transaction (set_replica_state i st))"
  "steady (sees nodes x) (transaction (mark_replica_healthy t i c z))"
  "steady (sees nodes x) (transaction (record_replica_verification t i c z))"
  by (rule sees_transaction, simp add: set_replica_state_frame(3) mark_replica_healthy_frame(3)
      record_verification_nodes)+

lemma insert_repair_steady [steady_rules]: "steady (sees nodes x) (add_commit (insert_repair j))"
  by (auto simp: steady_def hoare_def sees_def add_commit_def insert_repair_def split: sum.splits)

lemma schedule_steady [steady_rules]: "steady (sees nodes x) (schedule_for_version df v rf reason p)"
  unfolding schedule_for_version_def repair_version_row_def target_for_version_def repair_create_job_def
    repair_new_job_def Let_def
  by (intro steady_rules)

lemma recovery_steady [steady_rules]:
  "steady (sees nodes x) (mark_verified_replica r c z)" "steady (sees nodes x) (schedule_repair rf v r reason)"
  unfolding mark_verified_replica_def schedule_repair_def Let_def
  by (intro steady_rules steady_catchA; simp)+

lemma flag_replica_steady [steady_rules]: "steady (sees nodes x) (flag_replica rf v r st reason out)"
  unfolding flag_replica_def by (intro steady_rules) (auto intro: steady_rules split: prod.split)

lemma recovery_handler_steady [steady_rules]: "steady (sees nodes x) (recovery_handler rf v r e)"
  unfolding recovery_handler_def by (cases e) (auto intro!: steady_rules)

lemma reconcile_replica_steady [steady_rules]: "steady (sees nodes x) (reconcile_replica c rf n r)"
  unfolding reconcile_replica_def measure_replica_def repair_version_row_def live_replica_def
  by (intro steady_rules steady_catchA) (simp add: recovery_handler_def)

section \<open>A node that answers is recovered\<close>

lemma validate_matching:
  assumes "lower c = lower s" "checksum_ok s"
  shows "validate_checksum c = Inr s"
proof -
  have s: "lower s = s" using assms(2) lower_hex by (auto simp: checksum_ok_def)
  then have "length c = 64" using assms length_lower [of c] by (simp add: checksum_ok_def)
  then show ?thesis using assms s by (auto simp: validate_checksum_def Let_def checksum_ok_def)
qed

lemma set_repairing_runs:
  assumes "get_replica_row d (r_id r) = Some r" "r_status r \<in> {RS_PENDING, RS_CORRUPTED, RS_STALE, RS_UNAVAILABLE}"
  shows "set_replica_state (r_id r) RS_REPAIRING d =
    Inr (r\<lparr>r_status := RS_REPAIRING\<rparr>, upd_replica (r_id r) (\<lambda>x. x\<lparr>r_status := RS_REPAIRING\<rparr>) d)"
  using assms by (auto simp: set_replica_state_def lock_replica_def)

text \<open>The tables differ in one replica row at most.\<close>

definition touches :: "uuid \<Rightarrow> db \<Rightarrow> db \<Rightarrow> bool" where
  "touches i d d' \<longleftrightarrow> versions d' = versions d \<and> nodes d' = nodes d \<and>
     (\<forall>k. k \<noteq> i \<longrightarrow> get_replica_row d' k = get_replica_row d k)"

lemma touches_upd: "(\<And>x. r_id (f x) = r_id x) \<Longrightarrow> touches i d (upd_replica i f d)"
  by (auto simp: touches_def upd_replica_def lookup_update_by)

lemma touches_trans: "touches i d d1 \<Longrightarrow> touches i d1 d2 \<Longrightarrow> touches i d d2"
  by (auto simp: touches_def)

lemma mark_healthy_runs:
  assumes "get_replica_row d i = Some r" "get_version_row d (r_version_id r) = Some v" "r_status r = RS_REPAIRING"
    "lower c = lower (v_checksum v)" "checksum_ok (v_checksum v)" "0 \<le> v_size v"
  shows "\<exists>q d'. mark_replica_healthy t i c (v_size v) d = Inr (q, d') \<and> touches i d d'"
  using assms validate_matching [OF assms(4,5)]
  by (auto simp: mark_replica_healthy_def lock_replica_def Let_def intro!: touches_upd)

lemma record_verification_runs:
  assumes "get_replica_row d i = Some r" "get_version_row d (r_version_id r) = Some v" "r_status r = RS_HEALTHY"
    "lower c = lower (v_checksum v)" "checksum_ok (v_checksum v)" "0 \<le> v_size v"
  shows "\<exists>q d'. record_replica_verification t i c (v_size v) d = Inr (q, d') \<and> touches i d d'"
  using assms validate_matching [OF assms(4,5)]
  by (auto simp: record_replica_verification_def lock_replica_def Let_def intro!: touches_upd)

lemma timed_runs:
  assumes "\<And>t. \<exists>q d'. body t (view w) = Inr (q, d') \<and> touches i (view w) d'"
  shows "\<exists>w'. bindA now (\<lambda>t. thenA (transaction (body t)) (retA ())) w = (Inr (), w') \<and> touches i (view w) (view w')"
  using assms [of "now_feed w (now_pos w)"]
  by (auto simp: bindA_now) (auto simp: thenA_def bindA_def transaction_def retA_def)

lemma mark_verified_runs:
  fixes w :: "'n world"
  assumes "get_replica_row (view w) (r_id r) = Some r" "get_version_row (view w) (r_version_id r) = Some v"
    "r_status r \<noteq> RS_COPYING" "r_status r \<noteq> RS_FAILED"
    "lower c = lower (v_checksum v)" "checksum_ok (v_checksum v)" "0 \<le> v_size v"
  shows "\<exists>w'. mark_verified_replica r c (v_size v) w = (Inr (), w') \<and> touches (r_id r) (view w) (view w')"
proof -
  have healthy: "\<exists>w'. bindA now (\<lambda>t. thenA (transaction (mark_replica_healthy t (r_id r) c (v_size v))) (retA ())) u =
      (Inr (), w') \<and> touches (r_id r) (view u) (view w')"
    if "get_replica_row (view u) (r_id r) = Some q" "get_version_row (view u) (r_version_id q) = Some v"
      "r_status q = RS_REPAIRING" for q and u :: "'n world"
    by (rule timed_runs) (rule mark_healthy_runs [OF that assms(5-7)])
  consider "r_status r = RS_HEALTHY" | "r_status r = RS_REPAIRING"
    | "r_status r \<in> {RS_PENDING, RS_CORRUPTED, RS_STALE, RS_UNAVAILABLE}" using assms(3,4) by (cases "r_status r") auto
  then show ?thesis
  proof cases
    case 1
    have "\<exists>w'. bindA now (\<lambda>t. thenA (transaction (record_replica_verification t (r_id r) c (v_size v))) (retA ())) w =
      (Inr (), w') \<and> touches (r_id r) (view w) (view w')"
      by (rule timed_runs) (rule record_verification_runs [OF assms(1,2) 1 assms(5-7)])
    with 1 show ?thesis by (simp add: mark_verified_replica_def Let_def)
  next
    case 2
    with healthy [OF assms(1,2) 2] show ?thesis by (simp add: mark_verified_replica_def Let_def)
  next
    case 3
    let ?d = "upd_replica (r_id r) (\<lambda>x. x\<lparr>r_status := RS_REPAIRING\<rparr>) (view w)"
    obtain u :: "'n world" where u: "transaction (set_replica_state (r_id r) RS_REPAIRING) w = (Inr (r\<lparr>r_status := RS_REPAIRING\<rparr>), u)"
      "view u = ?d"
      using set_repairing_runs [OF assms(1) 3] by (simp add: transaction_def)
    have "get_replica_row ?d (r_id r) = Some (r\<lparr>r_status := RS_REPAIRING\<rparr>)" "versions ?d = versions (view w)"
      "touches (r_id r) (view w) ?d"
      using assms(1) touches_upd [of "\<lambda>x. x\<lparr>r_status := RS_REPAIRING\<rparr>" "r_id r" "view w"]
      by (simp_all add: upd_replica_def lookup_update_by)
    with healthy [of u "r\<lparr>r_status := RS_REPAIRING\<rparr>"] u assms(2) 3 show ?thesis
      by (auto simp: mark_verified_replica_def Let_def thenA_def bindA_def dest: touches_trans)
  qed
qed

text \<open>A client that reaches a node and finds a version there as the metadata says.\<close>

definition answers :: "'n client \<Rightarrow> string \<Rightarrow> version_row \<Rightarrow> bool" where
  "answers c addr v \<longleftrightarrow> (\<forall>s. \<exists>s'. c_open c addr s = (Inr (), s')) \<and>
     (\<forall>s. \<exists>m s'. c_verify c addr (uuid_str (v_object_id v)) (uuid_str (v_id v)) True s = (Inr m, s') \<and>
        matches_metadata m v)"

lemma reconcile_replica_runs:
  fixes w :: "'n world"
  assumes "get_replica_row (view w) (r_id r) = Some r" "get_version_row (view w) (r_version_id r) = Some v"
    "r_status r \<noteq> RS_COPYING" "r_status r \<noteq> RS_FAILED" "checksum_ok (v_checksum v)" "0 \<le> v_size v"
    "answers c (n_address n) v"
  shows "\<exists>w'. reconcile_replica c rf n r w = (Inr (no_outcome\<lparr>oc_checked := 1, oc_healthy := 1\<rparr>), w') \<and>
    touches (r_id r) (view w) (view w')"
proof -
  obtain s1 where s1: "c_open c (n_address n) (net (w\<lparr>in_tx := True\<rparr>)) = (Inr (), s1)"
    using assms(7) unfolding answers_def by blast
  let ?u1 = "w\<lparr>in_tx := True, net := s1\<rparr>"
  obtain m s2 where s2: "c_verify c (n_address n) (uuid_str (v_object_id v)) (uuid_str (v_id v)) True (net ?u1) = (Inr m, s2)"
    "matches_metadata m v"
    using assms(7) unfolding answers_def by blast
  let ?u2 = "w\<lparr>in_tx := True, net := s2\<rparr>"
  have m: "lower (vo_checksum m) = lower (v_checksum v)" "vo_size m = v_size v"
    using s2(2) by (simp_all add: matches_metadata_def matches_version_def)
  obtain w' :: "'n world" where w': "mark_verified_replica r (vo_checksum m) (vo_size m) ?u2 = (Inr (), w')"
    "touches (r_id r) (view w) (view w')"
    using mark_verified_runs [where w = ?u2 and r = r and v = v and c = "vo_checksum m"] assms(1-6) m by auto
  have "measure_replica c rf n v r ?u1 = (Inr (no_outcome\<lparr>oc_checked := 1, oc_healthy := 1\<rparr>), w')"
    using s2 w'(1) by (simp add: measure_replica_def thenA_def bindA_def retA_def net_call_def)
  then have "catchA (measure_replica c rf n v r) (recovery_handler rf v r) ?u1 =
      (Inr (no_outcome\<lparr>oc_checked := 1, oc_healthy := 1\<rparr>), w')" by (simp add: catchA_def)
  then have "reconcile_replica c rf n r w = (Inr (no_outcome\<lparr>oc_checked := 1, oc_healthy := 1\<rparr>), w')"
    using assms(1,2) s1
    by (simp add: reconcile_replica_def repair_version_row_def bindA_assoc bindA_query)
      (simp add: thenA_def bindA_def live_replica_def live_def net_call_def)
  with w'(2) show ?thesis by blast
qed

text \<open>A replica row that reconciliation can take to HEALTHY.\<close>

definition recoverable :: "'n client \<Rightarrow> node_row \<Rightarrow> db \<Rightarrow> replica_row \<Rightarrow> bool" where
  "recoverable c n d r \<longleftrightarrow> get_replica_row d (r_id r) = Some r \<and> r_status r \<noteq> RS_COPYING \<and> r_status r \<noteq> RS_FAILED \<and>
     (\<exists>v. get_version_row d (r_version_id r) = Some v \<and> checksum_ok (v_checksum v) \<and> 0 \<le> v_size v \<and>
        answers c (n_address n) v)"

lemma recoverable_touches: "recoverable c n d r \<Longrightarrow> touches i d d' \<Longrightarrow> r_id r \<noteq> i \<Longrightarrow> recoverable c n d' r"
  by (auto simp: recoverable_def touches_def)

lemma reconcile_loop_runs:
  fixes w :: "'n world"
  assumes "\<forall>r\<in>set rs. recoverable c n (view w) r" "distinct (map r_id rs)"
  shows "\<exists>w'. forA (reconcile_replica c rf n) rs w =
    (Inr (replicate (length rs) (no_outcome\<lparr>oc_checked := 1, oc_healthy := 1\<rparr>)), w') \<and> nodes (view w') = nodes (view w)"
  using assms
proof (induction rs arbitrary: w)
  case (Cons r rs)
  obtain w1 :: "'n world" where w1: "reconcile_replica c rf n r w = (Inr (no_outcome\<lparr>oc_checked := 1, oc_healthy := 1\<rparr>), w1)"
    "touches (r_id r) (view w) (view w1)"
    using reconcile_replica_runs [where w = w and r = r and c = c and n = n and rf = rf] Cons.prems(1)
    by (auto simp: recoverable_def)
  have "\<forall>q\<in>set rs. recoverable c n (view w1) q"
    using Cons.prems w1(2) recoverable_touches by (metis distinct.simps(2) image_eqI list.map(2) list.set_intros(2) list.set_map)
  with Cons.IH [of w1] Cons.prems(2) obtain w' :: "'n world" where
    "forA (reconcile_replica c rf n) rs w1 = (Inr (replicate (length rs) (no_outcome\<lparr>oc_checked := 1, oc_healthy := 1\<rparr>)), w')"
    "nodes (view w') = nodes (view w1)" by auto
  then show ?case using w1 by (simp add: bindA_def retA_def touches_def)
qed (simp add: retA_def)

lemma reconcile_node_run:
  assumes "get_node_row (view w) n = Some x" "n_status x = NS_RECOVERING"
  shows "reconcile_node c rf n w = bindA (forA (reconcile_replica c rf x) (known_replicas n (view w)))
    (\<lambda>os. retA (recovery_result_of n os)) (w\<lparr>in_tx := True\<rparr>)"
  using assms by (simp add: reconcile_node_def require_node_def bindA_assoc run_simps)

lemma reconcile_node_Inr:
  fixes w :: "'n world"
  assumes "reconcile_node c rf n w = (Inr res, w')"
  obtains x os where "get_node_row (view w) n = Some x" "n_status x = NS_RECOVERING"
    "forA (reconcile_replica c rf x) (known_replicas n (view w)) (w\<lparr>in_tx := True\<rparr>) = (Inr os, w')"
    "res = recovery_result_of n os"
proof -
  obtain x where x: "get_node_row (view w) n = Some x" "n_status x = NS_RECOVERING"
    using assms by (auto simp: reconcile_node_def require_node_def bindA_assoc run_simps split: option.splits if_splits)
  show thesis using assms unfolding reconcile_node_run [OF x]
    by (auto simp: retA_def elim!: bindA_InrE intro: that [OF x])
qed

lemma reconcile_node_nodes:
  fixes w :: "'n world"
  assumes "reconcile_node c rf n w = (Inr res, w')"
  shows "nodes (view w') = nodes (view w)"
  using assms
proof (cases rule: reconcile_node_Inr)
  case (1 x os)
  have "steady (sees nodes (nodes (view w))) (forA (reconcile_replica c rf x) (known_replicas n (view w)))"
    by (intro steady_rules)
  from steady_Inr [OF this _ 1(3)] show ?thesis by (simp add: sees_def)
qed

lemma known_recoverable:
  assumes "db_inv d" "\<forall>v\<in>set (versions d). answers c (n_address x) v" "r \<in> set (known_replicas n d)"
    "r_status r \<noteq> RS_COPYING"
  shows "recoverable c x d r"
proof -
  have r: "r \<in> set (replicas d)" "committed_version d (r_version_id r)" "r_status r \<noteq> RS_FAILED"
    using assms(3) by (auto simp: known_replicas_def)
  then obtain v where v: "get_version_row d (r_version_id r) = Some v"
    by (auto simp: committed_version_def split: option.splits)
  have "v \<in> set (versions d)" using lookup_by_SomeD [OF v] by blast
  moreover have "get_replica_row d (r_id r) = Some r"
    using lookup_by_Some_iff [OF db_inv_distinct(6) [OF assms(1)]] r(1) by blast
  ultimately show ?thesis using assms(1,2,4) v r(3) by (auto simp: recoverable_def inv_defs)
qed

lemma known_distinct: "db_inv d \<Longrightarrow> distinct (map r_id (known_replicas n d))"
  unfolding known_replicas_def
  using db_inv_distinct(6) [of d] by (simp add: distinct_map inj_on_def)

lemma reconciled_node_status:
  assumes "db_inv (view w)" "reconcile_and_mark_healthy c rf n w = (Inr res, w')"
  shows "\<exists>x. get_node_row (view w') n = Some x \<and>
    n_status x = (if rc_complete res then NS_HEALTHY else NS_RECOVERING)"
proof -
  from assms(2) obtain res1 w1 where r: "reconcile_node c rf n w = (Inr res1, w1)"
    "(if rc_complete res1 then bindA (require_node n) (\<lambda>x. if n_status x = NS_RECOVERING
       then thenA (transaction (transition_node_state n NS_HEALTHY)) (retA res1) else retA res1)
     else retA res1) w1 = (Inr res, w')"
    unfolding reconcile_and_mark_healthy_def by (rule bindA_InrE)
  from r(1) obtain x where x: "get_node_row (view w) n = Some x" "n_status x = NS_RECOVERING"
    by (rule reconcile_node_Inr)
  have n: "strip n = n" using serving_strip [OF assms(1)] x by (auto simp: serving_def)
  have x1: "get_node_row (view w1) n = Some x" using reconcile_node_nodes [OF r(1)] x(1) by simp
  show ?thesis
  proof (cases "rc_complete res1")
    case True
    with r(2) x1 x(2) obtain y where "transition_node_state n NS_HEALTHY (view w1) = Inr (y, view w')" "res = res1"
      by (auto simp: require_node_def bindA_assoc run_simps elim!: thenA_InrE dest!: transaction_InrD(1))
    with transition_node_row(1) [OF _ n] True show ?thesis by metis
  next
    case False
    with r(2) x1 x(2) show ?thesis by (auto simp: retA_def)
  qed
qed

section \<open>Properties\<close>

text \<open>C35. Reconciliation accounts for every replica: each one measured is healthy, missing or corrupted,
  no more are measured than the node is known to hold, and a result that claims to be complete has
  measured all of them and left none unresolved.\<close>

theorem recovery_accounting:
  assumes "reconcile_node c rf n w = (Inr res, w')"
  shows "rc_checked res = rc_healthy res + length (rc_missing res) + length (rc_corrupted res) \<and>
    rc_checked res \<le> length (known_replicas n (view w)) \<and>
    (rc_complete res \<longrightarrow> rc_checked res = length (known_replicas n (view w)) \<and> rc_unresolved res = [])"
  using assms
proof (cases rule: reconcile_node_Inr)
  case (1 x os)
  have "list_all2 (\<lambda>_. accounted) (known_replicas n (view w)) os"
    using forA_induct_ok [OF 1(3), where I = "\<lambda>_. True" and R = "\<lambda>_. accounted"] reconcile_replica_accounted by blast
  then have "list_all accounted os" "length os = length (known_replicas n (view w))"
    by (auto simp: list_all_iff list_all2_conv_all_nth in_set_conv_nth)
  with accounted_sum [of os n] 1(4) show ?thesis by (auto simp: recovery_result_of_def)
qed

text \<open>C24. A recovering node becomes HEALTHY exactly when its reconciliation is complete; otherwise it
  stays RECOVERING.\<close>

theorem recovery_gate:
  assumes "db_inv (view w)" "reconcile_and_mark_healthy c rf n w = (Inr res, w')"
  shows "\<exists>x. get_node_row (view w') n = Some x \<and>
    n_status x = (if rc_complete res then NS_HEALTHY else NS_RECOVERING)"
  using reconciled_node_status [OF assms] .

text \<open>C25. Recovery makes progress: if the node answers every request with what the metadata says, and no
  replica on it is in the middle of a copy, reconciliation finishes, finds every known replica
  healthy and returns the node to HEALTHY.\<close>

theorem recovery_completes:
  assumes "db_inv (view w)" "get_node_row (view w) n = Some x" "n_status x = NS_RECOVERING"
    "\<forall>r\<in>set (known_replicas n (view w)). r_status r \<noteq> RS_COPYING"
    "\<forall>v\<in>set (versions (view w)). answers c (n_address x) v"
  shows "\<exists>res w' y. reconcile_and_mark_healthy c rf n w = (Inr res, w') \<and> rc_complete res \<and>
    rc_healthy res = length (known_replicas n (view w)) \<and> get_node_row (view w') n = Some y \<and> n_status y = NS_HEALTHY"
proof -
  let ?rs = "known_replicas n (view w)"
  let ?os = "replicate (length ?rs) (no_outcome\<lparr>oc_checked := 1, oc_healthy := 1\<rparr>)"
  have n: "strip n = n" "n \<noteq> []" using serving_strip [OF assms(1)] assms(1,2,3) lookup_by_SomeD [OF assms(2)]
    by (auto simp: serving_def inv_defs)
  have "\<forall>r\<in>set ?rs. recoverable c x (view (w\<lparr>in_tx := True\<rparr>)) r"
    using known_recoverable [OF assms(1,5)] assms(4) by simp
  from reconcile_loop_runs [OF this known_distinct [OF assms(1)]] obtain w1 where
    loop: "forA (reconcile_replica c rf x) ?rs (w\<lparr>in_tx := True\<rparr>) = (Inr ?os, w1)" "nodes (view w1) = nodes (view w)"
    by auto
  have node: "reconcile_node c rf n w = (Inr (recovery_result_of n ?os), w1)"
    unfolding reconcile_node_run [OF assms(2,3)] using loop(1) by (simp add: bindA_def retA_def)
  have res: "rc_complete (recovery_result_of n ?os)" "rc_healthy (recovery_result_of n ?os) = length ?rs"
    by (auto simp: recovery_result_of_def no_outcome_def list_all_iff sum_list_replicate)
  have "get_node_row (view w1) n = Some x" using loop(2) assms(2) by simp
  then have t: "transition_node_state n NS_HEALTHY (view w1) =
      Inr (x\<lparr>n_status := NS_HEALTHY\<rparr>, upd_node n (\<lambda>y. y\<lparr>n_status := NS_HEALTHY\<rparr>) (view w1))"
    using n assms(3) by (simp add: transition_node_state_def Let_def)
  obtain w' where "reconcile_and_mark_healthy c rf n w = (Inr (recovery_result_of n ?os), w')"
    using node res(1) \<open>get_node_row (view w1) n = Some x\<close> assms(3) t
    by (simp add: reconcile_and_mark_healthy_def bindA_def thenA_def require_node_def query_def retA_def transaction_def)
  with reconciled_node_status [OF assms(1) this] res show ?thesis by auto
qed

definition demo_back :: db where
  "demo_back = demo_cluster\<lparr>nodes := [demo_node\<lparr>n_status := NS_RECOVERING\<rparr>, demo_node\<lparr>n_id := ''n2'', n_address := ''http://n2''\<rparr>]\<rparr>"

lemma demo_back_inv: "db_inv (view (demo_world demo_back ()))"
  by code_simp

lemmas demo_recover_unfold = reconcile_and_mark_healthy_def reconcile_node_def reconcile_replica_def measure_replica_def
  recovery_handler_def demo_client_simps

theorem recovery_accounting_witness:
  "\<exists>res w'. reconcile_node (demo_client [''http://n1'']) 1 ''n1'' (demo_world demo_back ()) = (Inr res, w') \<and>
     rc_checked res \<le> 1"
proof -
  let ?r = "reconcile_node (demo_client [''http://n1'']) 1 ''n1'' (demo_world demo_back ())"
  have "\<not> isl (fst ?r)" unfolding demo_recover_unfold by code_simp
  then obtain res w' where r: "?r = (Inr res, w')" by (metis prod.collapse sum.collapse(2))
  have "length (known_replicas ''n1'' (view (demo_world demo_back ()))) = 1" by code_simp
  with recovery_accounting [OF r] r show ?thesis by simp
qed

theorem recovery_gate_witness:
  "\<exists>res w' x. reconcile_and_mark_healthy (demo_client []) 1 ''n1'' (demo_world demo_back ()) = (Inr res, w') \<and>
     get_node_row (view w') ''n1'' = Some x \<and> n_status x = (if rc_complete res then NS_HEALTHY else NS_RECOVERING)"
proof -
  let ?r = "reconcile_and_mark_healthy (demo_client []) 1 ''n1'' (demo_world demo_back ())"
  have "\<not> isl (fst ?r)" unfolding demo_recover_unfold by code_simp
  then obtain res w' where r: "?r = (Inr res, w')" by (metis prod.collapse sum.collapse(2))
  from recovery_gate [OF demo_back_inv r] r show ?thesis by auto
qed

theorem recovery_completes_witness:
  "\<exists>res w' y. reconcile_and_mark_healthy (demo_client [''http://n1'']) 1 ''n1'' (demo_world demo_back ()) = (Inr res, w') \<and>
     rc_complete res \<and> get_node_row (view w') ''n1'' = Some y \<and> n_status y = NS_HEALTHY"
proof -
  have "\<forall>r\<in>set (known_replicas ''n1'' (view (demo_world demo_back ()))). r_status r \<noteq> RS_COPYING" by code_simp
  moreover have "\<forall>v\<in>set (versions (view (demo_world demo_back ()))). answers (demo_client [''http://n1'']) ''http://n1'' v"
    by (simp add: answers_def demo_client_def retA_def matches_metadata_def matches_version_def demo_world_def
        demo_back_def demo_cluster_def demo_version_def)
  ultimately show ?thesis
    using recovery_completes [OF demo_back_inv, of "''n1''" "demo_node\<lparr>n_status := NS_RECOVERING\<rparr>" "demo_client [''http://n1'']" 1]
    by (auto simp: demo_world_def demo_back_def demo_node_def)
qed

end
