(* ===== verification/Health.thy ===== *)
theory Health
  imports Recovery
begin

text \<open>
  The package \<^verbatim>\<open>health\<close>: the node registry, heartbeat ingestion, the failure detector,
  its scheduler and the heartbeat endpoint. Thresholds are in the unit of the clock
  (microseconds). \<open>run_forever\<close> is modelled up to its stop event, which fires after a given
  number of timeouts.
\<close>

section \<open>The registry (health/node registry.py)\<close>

definition registry_register :: "string option \<Rightarrow> string \<Rightarrow> int \<Rightarrow> ('n, node_row) act" where
  "registry_register node_id address capacity =
     bindA new_uuid (\<lambda>fresh. transaction (register_node fresh node_id address capacity NS_JOINING))"

definition registry_get :: "string \<Rightarrow> ('n, node_row) act" where
  "registry_get node_id =
     (if strip node_id = [] then raiseA ValueError else
      bindA (query (\<lambda>d. get_node_row d (strip node_id))) (\<lambda>found.
      case found of None \<Rightarrow> raiseA (VaultE (ObjectNotFound (TextId (strip node_id)))) | Some n \<Rightarrow> retA n))"

definition list_nodes :: "node_state option \<Rightarrow> ('n, node_row list) act" where
  "list_nodes st = query (\<lambda>d. sort_key n_id (filter (\<lambda>n. case st of None \<Rightarrow> True | Some s \<Rightarrow> n_status n = s) (nodes d)))"

definition healthy_nodes :: "int \<Rightarrow> string list \<Rightarrow> ('n, node_row list) act" where
  "healthy_nodes min_free exclude =
     (if min_free < 0 then raiseA ValueError else
      let excluded = map strip (filter (\<lambda>x. strip x \<noteq> []) exclude) in
      query (\<lambda>d. sort_key node_order (filter (\<lambda>n. n_status n = NS_HEALTHY \<and>
        min_free \<le> n_capacity n - n_used n \<and> n_id n \<notin> set excluded) (nodes d))))"

definition registry_transition :: "string \<Rightarrow> node_state \<Rightarrow> ('n, node_row) act" where
  "registry_transition node_id st = transaction (transition_node_state node_id st)"

definition mark_suspect :: "string \<Rightarrow> ('n, node_row) act" where
  "mark_suspect node_id = registry_transition node_id NS_SUSPECT"

definition mark_unavailable :: "string \<Rightarrow> ('n, node_row) act" where
  "mark_unavailable node_id = registry_transition node_id NS_UNAVAILABLE"

section \<open>Heartbeats (health/heartbeat.py)\<close>

record heartbeat_payload =
  hb_node_id :: string
  hb_capacity :: int
  hb_used :: int
  hb_timestamp :: datetime

text \<open>The validators of \<open>HeartbeatPayload\<close>; pydantic's error is a \<open>ValueError\<close>.\<close>

definition make_heartbeat :: "string \<Rightarrow> int \<Rightarrow> int \<Rightarrow> datetime \<Rightarrow> exn + heartbeat_payload" where
  "make_heartbeat node_id capacity used timestamp =
     (if node_id = [] \<or> strip node_id = [] \<or> capacity < 0 \<or> used < 0 \<or> capacity < used then Inl ValueError
      else Inr \<lparr>hb_node_id = strip node_id, hb_capacity = capacity, hb_used = used,
        hb_timestamp = Datetime (as_utc timestamp) (Some 0)\<rparr>)"

record heartbeat_result =
  hr_node_id :: string
  hr_accepted :: bool
  hr_status :: node_state
  hr_capacity :: int
  hr_used :: int
  hr_free :: int
  hr_last_heartbeat_at :: "time option"

definition heartbeat_result_of :: "node_row \<Rightarrow> bool \<Rightarrow> heartbeat_result" where
  "heartbeat_result_of n accepted = \<lparr>hr_node_id = n_id n, hr_accepted = accepted, hr_status = n_status n,
     hr_capacity = n_capacity n, hr_used = n_used n, hr_free = free_bytes n,
     hr_last_heartbeat_at = n_last_heartbeat_at n\<rparr>"

definition ingest :: "heartbeat_payload \<Rightarrow> ('n, heartbeat_result) act" where
  "ingest p =
     bindA (transaction (process_node_heartbeat (hb_node_id p) (Some (hb_capacity p)) (Some (hb_used p)) (hb_timestamp p)))
       (\<lambda>(n, accepted).
     bindA (if accepted then
              (if n_status n \<in> {NS_JOINING, NS_SUSPECT} then transaction (transition_node_state (n_id n) NS_HEALTHY)
               else if n_status n = NS_UNAVAILABLE then transaction (transition_node_state (n_id n) NS_RECOVERING)
               else if n_status n = NS_RECOVERING then retA n
               else if n_status n = NS_REMOVED then raiseA (VaultE InvalidState)
               else retA n)
            else retA n) (\<lambda>n.
     retA (heartbeat_result_of n accepted)))"

definition ingest_and_recover :: "'n client \<Rightarrow> int \<Rightarrow> heartbeat_payload \<Rightarrow> ('n, heartbeat_result) act" where
  "ingest_and_recover c rf p =
     bindA (ingest p) (\<lambda>res.
     if \<not> hr_accepted res \<or> hr_status res \<noteq> NS_RECOVERING then retA res else
     thenA (reconcile_and_mark_healthy c rf (hr_node_id res))
     (bindA (query (\<lambda>d. get_node_row d (hr_node_id res))) (\<lambda>found.
      case found of None \<Rightarrow> raiseA (VaultE InvalidState) | Some n \<Rightarrow> retA (heartbeat_result_of n True))))"

text \<open>The endpoint of \<^verbatim>\<open>health/api.py\<close>: an HTTP status for the two errors it maps.\<close>

definition heartbeat_endpoint :: "'n client \<Rightarrow> int \<Rightarrow> heartbeat_payload \<Rightarrow> ('n, int + heartbeat_result) act" where
  "heartbeat_endpoint c rf p =
     catchA (bindA (session_scope (ingest_and_recover c rf p)) (\<lambda>res. retA (Inr res)))
       (\<lambda>e. case e of
          VaultE (ObjectNotFound _) \<Rightarrow> retA (Inl 404)
        | VaultE InvalidState \<Rightarrow> retA (Inl 409)
        | _ \<Rightarrow> raiseA e)"

section \<open>The failure detector (health/failure detector.py)\<close>

record failure_detector =
  fd_suspect_after :: int
  fd_unavailable_after :: int
  fd_replication_factor :: int

definition failure_detector_init :: "int \<Rightarrow> int \<Rightarrow> int \<Rightarrow> exn + failure_detector" where
  "failure_detector_init suspect unavailable rf =
     (if suspect \<le> 0 then Inl ValueError
      else if unavailable \<le> suspect then Inl ValueError
      else Inr \<lparr>fd_suspect_after = suspect, fd_unavailable_after = unavailable, fd_replication_factor = rf\<rparr>)"

record node_transition =
  nt_node_id :: string
  nt_previous :: node_state
  nt_current :: node_state
  nt_repair_ids :: "uuid list"

definition affected_replicas :: "string \<Rightarrow> db \<Rightarrow> replica_row list" where
  "affected_replicas node_id d = sort_key r_version_id (filter (\<lambda>r. r_node_id r = node_id \<and>
     r_status r = RS_HEALTHY \<and> committed_version d (r_version_id r)) (replicas d))"

definition lose_replica :: "int \<Rightarrow> replica_row \<Rightarrow> ('n, uuid list) act" where
  "lose_replica rf r =
     thenA (transaction (set_replica_state (r_id r) RS_UNAVAILABLE))
     (catchA (bindA (schedule_for_version rf (r_version_id r) (Some rf) ''node-unavailable'' None) (\<lambda>job.
         retA (case job of None \<Rightarrow> [] | Some j \<Rightarrow> [rp_id j])))
       (\<lambda>e. if is_vault_error e then retA [] else raiseA e))"

definition schedule_repairs_for_node :: "int \<Rightarrow> string \<Rightarrow> ('n, uuid list) act" where
  "schedule_repairs_for_node rf node_id =
     bindA (query (affected_replicas node_id)) (\<lambda>rs.
     bindA (forA (lose_replica rf) rs) (\<lambda>ids. retA (concat ids)))"

definition evaluate :: "failure_detector \<Rightarrow> time \<Rightarrow> node_row \<Rightarrow> ('n, node_transition option) act" where
  "evaluate fd now_t n =
     (if n_status n \<in> {NS_DRAINING, NS_REMOVED, NS_JOINING} then retA None else
      case n_last_heartbeat_at n of
        None \<Rightarrow> retA None
      | Some beat \<Rightarrow>
          let elapsed = now_t - beat in
          if elapsed < 0 then retA None
          else if n_status n = NS_HEALTHY \<and> fd_suspect_after fd \<le> elapsed then
            bindA (mark_suspect (n_id n)) (\<lambda>u.
            retA (Some \<lparr>nt_node_id = n_id n, nt_previous = NS_HEALTHY, nt_current = n_status u, nt_repair_ids = []\<rparr>))
          else if n_status n = NS_SUSPECT \<and> fd_unavailable_after fd \<le> elapsed then
            bindA (mark_unavailable (n_id n)) (\<lambda>u.
            bindA (schedule_repairs_for_node (fd_replication_factor fd) (n_id u)) (\<lambda>ids.
            retA (Some \<lparr>nt_node_id = n_id n, nt_previous = NS_SUSPECT, nt_current = n_status u, nt_repair_ids = ids\<rparr>)))
          else if n_status n = NS_RECOVERING \<and> fd_suspect_after fd \<le> elapsed then
            bindA (mark_suspect (n_id n)) (\<lambda>u.
            retA (Some \<lparr>nt_node_id = n_id n, nt_previous = NS_RECOVERING, nt_current = n_status u, nt_repair_ids = []\<rparr>))
          else retA None)"

definition detector_now :: "datetime option \<Rightarrow> ('n, time) act" where
  "detector_now t = (case t of None \<Rightarrow> now | Some x \<Rightarrow> retA (as_utc x))"

definition check_node :: "failure_detector \<Rightarrow> string \<Rightarrow> datetime option \<Rightarrow> ('n, node_transition option) act" where
  "check_node fd node_id t =
     bindA (registry_get node_id) (\<lambda>n. bindA (detector_now t) (\<lambda>current. evaluate fd current n))"

definition live_node :: "node_row \<Rightarrow> ('n, node_row) act" where
  "live_node n = live (\<lambda>d. case get_node_row d (n_id n) of None \<Rightarrow> n | Some x \<Rightarrow> x)"

definition detector_scan :: "failure_detector \<Rightarrow> datetime option \<Rightarrow> ('n, node_transition list) act" where
  "detector_scan fd t =
     bindA (detector_now t) (\<lambda>current.
     bindA (list_nodes None) (\<lambda>ns.
     bindA (forA (\<lambda>n. bindA (live_node n) (evaluate fd current)) ns) (\<lambda>trs.
     retA (concat (map (\<lambda>x. case x of None \<Rightarrow> [] | Some tr \<Rightarrow> [tr]) trs)))))"

section \<open>The scheduler (health/scheduler.py)\<close>

definition run_once :: "failure_detector \<Rightarrow> datetime option \<Rightarrow> ('n, node_transition list) act" where
  "run_once fd t = detector_scan fd t"

primrec run_forever :: "failure_detector \<Rightarrow> nat \<Rightarrow> ('n, unit) act" where
  "run_forever fd 0 = thenA (run_once fd None) (retA ())"
| "run_forever fd (Suc timeouts) = thenA (run_once fd None) (run_forever fd timeouts)"

section \<open>Preservation\<close>

lemma registry_sound [keeps_rules]:
  "keeps (sound d0) (registry_register nid a c)" "keeps (sound d0) (registry_get i)" "keeps (sound d0) (list_nodes st)"
  "keeps (sound d0) (healthy_nodes k ex)" "keeps (sound d0) (mark_suspect i)" "keeps (sound d0) (mark_unavailable i)"
  unfolding registry_register_def registry_get_def list_nodes_def healthy_nodes_def mark_suspect_def
    mark_unavailable_def registry_transition_def Let_def
  by (intro keeps_rules)+

lemma ingest_sound [keeps_rules]: "keeps (sound d0) (ingest p)"
  unfolding ingest_def by (intro keeps_rules)

lemma ingest_and_recover_sound [keeps_rules]: "keeps (sound d0) (ingest_and_recover c rf p)"
  unfolding ingest_and_recover_def by (intro keeps_rules)

lemma heartbeat_endpoint_sound: "keeps (sound d0) (heartbeat_endpoint c rf p)"
  unfolding heartbeat_endpoint_def
  by (intro keeps_rules sound_session_scope) (auto intro!: keeps_rules split: exn.split vault_error.split)

lemma detector_sound [keeps_rules]:
  "keeps (sound d0) (lose_replica rf r)" "keeps (sound d0) (detector_now t)" "keeps (sound d0) (live_node n)"
  unfolding lose_replica_def detector_now_def live_node_def by (intro keeps_rules)+

lemma evaluate_sound [keeps_rules]: "keeps (sound d0) (evaluate fd t n)"
  unfolding evaluate_def schedule_repairs_for_node_def Let_def by (intro keeps_rules)

lemma detector_scan_sound [keeps_rules]:
  "keeps (sound d0) (detector_scan fd t)" "keeps (sound d0) (check_node fd i t)"
  unfolding detector_scan_def check_node_def by (intro keeps_rules)+

lemma run_forever_sound: "keeps (sound d0) (run_forever fd k)"
  by (induction k) (auto simp: run_once_def intro!: keeps_rules)

section \<open>What a scan does to a node\<close>

text \<open>The rule of the detector, as a function of the state and the age of the last heartbeat.\<close>

definition detector_verdict :: "failure_detector \<Rightarrow> time \<Rightarrow> node_row \<Rightarrow> node_state option" where
  "detector_verdict fd t n =
     (case n_last_heartbeat_at n of
        None \<Rightarrow> None
      | Some beat \<Rightarrow>
          if t < beat then None
          else if n_status n \<in> {NS_HEALTHY, NS_RECOVERING} \<and> beat + fd_suspect_after fd \<le> t then Some NS_SUSPECT
          else if n_status n = NS_SUSPECT \<and> beat + fd_unavailable_after fd \<le> t then Some NS_UNAVAILABLE
          else None)"

text \<open>The replica rows in \<open>S\<close> have become UNAVAILABLE and nothing else of the replicas has changed.\<close>

definition lost :: "uuid set \<Rightarrow> db \<Rightarrow> db \<Rightarrow> bool" where
  "lost S d d' \<longleftrightarrow> versions d' = versions d \<and> nodes d' = nodes d \<and>
     (\<forall>k. get_replica_row d' k = (if k \<in> S then map_option (\<lambda>r. r\<lparr>r_status := RS_UNAVAILABLE\<rparr>) (get_replica_row d k)
        else get_replica_row d k))"

lemma lost_trans:
  assumes "lost S d d1" "lost T d1 d2"
  shows "lost (S \<union> T) d d2"
proof -
  have "map_option (\<lambda>r. r\<lparr>r_status := RS_UNAVAILABLE\<rparr>) (map_option (\<lambda>r. r\<lparr>r_status := RS_UNAVAILABLE\<rparr>) y) =
      map_option (\<lambda>r. r\<lparr>r_status := RS_UNAVAILABLE\<rparr>) y" for y :: "replica_row option"
    by (cases y) simp_all
  then show ?thesis using assms by (auto simp: lost_def)
qed

abbreviation replica_tables :: "db \<Rightarrow> replica_row list \<times> version_row list \<times> node_row list" where
  "replica_tables d \<equiv> (replicas d, versions d, nodes d)"

lemma schedule_tables_steady [steady_rules]:
  "steady (sees replica_tables x) (schedule_for_version df v rf reason p)"
proof -
  have "steady (sees replica_tables x) (add_commit (insert_repair j))" for j
    by (auto simp: steady_def hoare_def sees_def add_commit_def insert_repair_def split: sum.splits)
  then show ?thesis
    unfolding schedule_for_version_def repair_version_row_def target_for_version_def repair_create_job_def
      repair_new_job_def Let_def
    by (intro steady_rules)
qed

lemma lose_replica_lost:
  fixes w :: "'n world"
  assumes "lose_replica rf r w = (Inr ids, w')"
  shows "lost {r_id r} (view w) (view w')"
proof -
  from assms obtain q and w1 :: "'n world" where s: "transaction (set_replica_state (r_id r) RS_UNAVAILABLE) w = (Inr q, w1)"
    "catchA (bindA (schedule_for_version rf (r_version_id r) (Some rf) ''node-unavailable'' None) (\<lambda>job.
         retA (case job of None \<Rightarrow> [] | Some j \<Rightarrow> [rp_id j])))
       (\<lambda>e. if is_vault_error e then retA [] else raiseA e) w1 = (Inr ids, w')"
    unfolding lose_replica_def by (elim thenA_InrE)
  have "steady (sees replica_tables (replica_tables (view w1))) (catchA (bindA (schedule_for_version rf (r_version_id r)
      (Some rf) ''node-unavailable'' None) (\<lambda>job. retA (case job of None \<Rightarrow> [] | Some j \<Rightarrow> [rp_id j])))
       (\<lambda>e. if is_vault_error e then retA [] else raiseA e))"
    by (intro steady_rules steady_catchA) simp
  from steady_Inr [OF this _ s(2)] have same: "replica_tables (view w') = replica_tables (view w1)" by (simp add: sees_def)
  note f = set_replica_state_frame [OF transaction_InrD(1) [OF s(1)]]
  from f(10) obtain y where "get_replica_row (view w) (r_id r) = Some y" "q = y\<lparr>r_status := RS_UNAVAILABLE\<rparr>" by blast
  with f(2-5) same show ?thesis by (auto simp: lost_def)
qed

lemma lose_replicas_lost:
  "forA (lose_replica rf) rs w = (Inr ids, w') \<Longrightarrow> lost (r_id ` set rs) (view w) (view w')"
proof (induction rs arbitrary: w ids)
  case (Cons r rs)
  from Cons.prems obtain x zs u where "lose_replica rf r w = (Inr x, u)" "forA (lose_replica rf) rs u = (Inr zs, w')"
    by (rule forA_ConsE)
  from lost_trans [OF lose_replica_lost [OF this(1)] Cons.IH [OF this(2)]] show ?case by simp
qed (simp add: retA_def lost_def)

lemma affected_lost:
  assumes "lost (r_id ` set (affected_replicas n d)) d d'" "db_inv d" "db_inv d'"
  shows "affected_replicas n d' = []"
proof (rule ccontr)
  assume "affected_replicas n d' \<noteq> []"
  then obtain q where "q \<in> set (affected_replicas n d')" by (metis list.set_sel(1))
  then have q: "q \<in> set (replicas d')" "r_node_id q = n" "r_status q = RS_HEALTHY"
    "committed_version d' (r_version_id q)" by (auto simp: affected_replicas_def)
  have row: "get_replica_row d' (r_id q) = Some q"
    using lookup_by_Some_iff [OF db_inv_distinct(6) [OF assms(3)]] q(1) by blast
  have com: "committed_version d (r_version_id q)" using q(4) assms(1) by (simp add: lost_def committed_version_def)
  show False
  proof (cases "r_id q \<in> r_id ` set (affected_replicas n d)")
    case True
    then show False using row assms(1) q(3) by (auto simp: lost_def)
  next
    case False
    then have "get_replica_row d (r_id q) = Some q" using row assms(1) by (simp add: lost_def)
    then have "q \<in> set (affected_replicas n d)"
      using q com lookup_by_SomeD [of r_id "r_id q" "replicas d" q] by (simp add: affected_replicas_def)
    with False show False by blast
  qed
qed

lemma schedule_repairs_sound [keeps_rules]: "keeps (sound d0) (schedule_repairs_for_node rf n)"
  unfolding schedule_repairs_for_node_def by (intro keeps_rules)

lemma transition_frame:
  assumes "transition_node_state n st d = Inr (x, d')" "strip n = n"
  shows "get_node_row d' n = Some x" "n_status x = st" "n_id x = n" "replicas d' = replicas d" "versions d' = versions d"
proof -
  obtain y where y: "get_node_row d n = Some y" using assms
    by (auto simp: transition_node_state_def result_iffs Let_def split: if_splits)
  have "n_id y = n" using lookup_by_SomeD [OF y] by simp
  with assms y show "get_node_row d' n = Some x" "n_status x = st" "n_id x = n" "replicas d' = replicas d"
    "versions d' = versions d"
    by (auto simp: transition_node_state_def Let_def row_lookups split: if_splits)
qed

lemma lose_node_replicas:
  fixes w :: "'n world"
  assumes "sound d0 w" "transaction (transition_node_state n NS_UNAVAILABLE) w = (Inr x, w1)"
    "schedule_repairs_for_node rf n w1 = (Inr ids, w')" "strip n = n"
  shows "get_node_row (view w') n = Some x \<and> affected_replicas n (view w') = []"
proof -
  note t = transaction_InrD(1) [OF assms(2)]
  have s1: "sound d0 w1" using keepsD [OF op_transition_node.sound_transaction assms(1,2)] .
  have s2: "sound d0 w'" using keepsD [OF schedule_repairs_sound s1 assms(3)] .
  from assms(3) obtain zs where "forA (lose_replica rf) (affected_replicas n (view w1)) (w1\<lparr>in_tx := True\<rparr>) = (Inr zs, w')"
    by (auto simp: schedule_repairs_for_node_def run_simps elim!: bindA_InrE)
  from lose_replicas_lost [OF this] have l: "lost (r_id ` set (affected_replicas n (view w1))) (view w1) (view w')" by simp
  have "get_node_row (view w') n = Some x" using l transition_frame(1) [OF t assms(4)] by (simp add: lost_def)
  with affected_lost [OF l sound_inv(2) [OF s1] sound_inv(2) [OF s2]] show ?thesis by simp
qed

lemma node_strip: "db_inv d \<Longrightarrow> get_node_row d i = Some n \<Longrightarrow> strip i = i \<and> i \<noteq> [] \<and> n_id n = i"
  using lookup_by_SomeD [of n_id i "nodes d" n] by (auto simp: inv_defs)

lemma evaluate_cases:
  fixes w :: "'n world"
  obtains (none) "detector_verdict fd t n = None" "evaluate fd t n w = retA None w"
  | (suspect) p where "detector_verdict fd t n = Some NS_SUSPECT"
      "evaluate fd t n w = (bindA (transaction (transition_node_state (n_id n) NS_SUSPECT))
        (\<lambda>u. retA (Some \<lparr>nt_node_id = n_id n, nt_previous = p, nt_current = n_status u, nt_repair_ids = []\<rparr>))) w"
  | (gone) "detector_verdict fd t n = Some NS_UNAVAILABLE"
      "evaluate fd t n w = (bindA (transaction (transition_node_state (n_id n) NS_UNAVAILABLE))
        (\<lambda>u. bindA (schedule_repairs_for_node (fd_replication_factor fd) (n_id u)) (\<lambda>ids.
         retA (Some \<lparr>nt_node_id = n_id n, nt_previous = NS_SUSPECT, nt_current = n_status u, nt_repair_ids = ids\<rparr>)))) w"
proof (cases "n_last_heartbeat_at n")
  case None
  then show thesis by (intro none) (simp_all add: evaluate_def detector_verdict_def)
next
  case (Some beat)
  note defs = evaluate_def detector_verdict_def Let_def mark_suspect_def mark_unavailable_def registry_transition_def Some
  consider "\<not> (t < beat) \<and> n_status n \<in> {NS_HEALTHY, NS_RECOVERING} \<and> fd_suspect_after fd \<le> t - beat"
    | "\<not> (t < beat) \<and> n_status n = NS_SUSPECT \<and> fd_unavailable_after fd \<le> t - beat"
    | "t < beat \<or> \<not> (n_status n \<in> {NS_HEALTHY, NS_RECOVERING} \<and> fd_suspect_after fd \<le> t - beat) \<and>
        \<not> (n_status n = NS_SUSPECT \<and> fd_unavailable_after fd \<le> t - beat)" by blast
  then show thesis
  proof cases
    case 1
    then show thesis by (intro suspect [of "n_status n"]) (auto simp: defs)
  next
    case 2
    then show thesis by (intro gone) (auto simp: defs)
  next
    case 3
    then show thesis by (intro none) (auto simp: defs)
  qed
qed

section \<open>Properties\<close>

text \<open>C34. The failure detector follows its rule: evaluating a node gives exactly the transition the rule
  prescribes for the state and the age of the last heartbeat, the node's row has the new state,
  a node that keeps its state leaves the tables alone, and a node declared UNAVAILABLE keeps no
  HEALTHY replica of a committed version.\<close>

theorem detector_follows_rule:
  assumes "sound d0 w" "get_node_row (view w) (n_id n) = Some n" "evaluate fd t n w = (Inr r, w')"
  shows "map_option nt_current r = detector_verdict fd t n \<and>
    (\<exists>x. get_node_row (view w') (n_id n) = Some x \<and>
       n_status x = (case detector_verdict fd t n of None \<Rightarrow> n_status n | Some s \<Rightarrow> s)) \<and>
    (r = None \<longrightarrow> view w' = view w) \<and>
    (detector_verdict fd t n = Some NS_UNAVAILABLE \<longrightarrow> affected_replicas (n_id n) (view w') = [])"
proof -
  have strip: "strip (n_id n) = n_id n" using node_strip [OF sound_inv(2) [OF assms(1)] assms(2)] by blast
  show ?thesis
  proof (cases rule: evaluate_cases [where fd = fd and t = t and n = n and w = w])
    case none
    with assms(2,3) show ?thesis by (auto simp: retA_def)
  next
    case suspect
    with assms(3) obtain u where "transition_node_state (n_id n) NS_SUSPECT (view w) = Inr (u, view w')"
      "map_option nt_current r = Some (n_status u)"
      by (auto simp: retA_def elim!: bindA_InrE dest!: transaction_InrD(1))
    with transition_frame [OF this(1) strip] suspect(1) show ?thesis by auto
  next
    case gone
    with assms(3) obtain u w1 ids where u: "transaction (transition_node_state (n_id n) NS_UNAVAILABLE) w = (Inr u, w1)"
      "schedule_repairs_for_node (fd_replication_factor fd) (n_id u) w1 = (Inr ids, w')" "map_option nt_current r = Some (n_status u)"
      by (auto simp: retA_def elim!: bindA_InrE)
    note f = transition_frame [OF transaction_InrD(1) [OF u(1)] strip]
    from lose_node_replicas [OF assms(1) u(1) u(2) [unfolded f(3)] strip] f(2) u(3) gone(1) show ?thesis by auto
  qed
qed

text \<open>Heartbeats: a heartbeat is accepted exactly when it is newer than the last one; a refused one
  changes nothing, an accepted one stores its time and its figures, returns JOINING and SUSPECT
  nodes to HEALTHY and UNAVAILABLE nodes to RECOVERING, and leaves any other state alone.\<close>

theorem heartbeat_effect:
  assumes "db_inv (view w)" "ingest p w = (Inr res, w')" "get_node_row (view w) (hb_node_id p) = Some n"
  shows "(hr_accepted res \<longleftrightarrow> (case n_last_heartbeat_at n of None \<Rightarrow> True | Some b \<Rightarrow> b < as_utc (hb_timestamp p))) \<and>
    (\<not> hr_accepted res \<longrightarrow> view w' = view w) \<and>
    (hr_accepted res \<longrightarrow> (\<exists>x. get_node_row (view w') (hb_node_id p) = Some x \<and>
       n_last_heartbeat_at x = Some (as_utc (hb_timestamp p)) \<and> n_capacity x = hb_capacity p \<and> n_used x = hb_used p \<and>
       n_status x = (if n_status n \<in> {NS_JOINING, NS_SUSPECT} then NS_HEALTHY
         else if n_status n = NS_UNAVAILABLE then NS_RECOVERING else n_status n)))"
proof -
  let ?i = "hb_node_id p" and ?ts = "as_utc (hb_timestamp p)"
  have i: "strip ?i = ?i" "?i \<noteq> []" "n_id n = ?i" using node_strip [OF assms(1,3)] by auto
  let ?n = "n\<lparr>n_capacity := hb_capacity p, n_used := hb_used p, n_last_heartbeat_at := Some ?ts\<rparr>"
  let ?f = "\<lambda>x. x\<lparr>n_capacity := hb_capacity p, n_used := hb_used p, n_last_heartbeat_at := Some ?ts\<rparr> :: node_row"
  have body: "process_node_heartbeat ?i (Some (hb_capacity p)) (Some (hb_used p)) (hb_timestamp p) (view w) =
      (if (case n_last_heartbeat_at n of None \<Rightarrow> False | Some b \<Rightarrow> ?ts \<le> b) then Inr ((n, False), view w)
       else Inr ((?n, True), upd_node ?i ?f (view w)))" "n_status n \<noteq> NS_REMOVED"
    using assms(2,3) i by (auto simp: ingest_def process_node_heartbeat_def transaction_def bindA_def Let_def
        split: if_splits option.splits)
  show ?thesis
  proof (cases "case n_last_heartbeat_at n of None \<Rightarrow> False | Some b \<Rightarrow> ?ts \<le> b")
    case True
    with body(1) assms(2) have "res = heartbeat_result_of n False" "view w' = view w"
      by (auto simp: ingest_def transaction_def bindA_def retA_def)
    with True show ?thesis by (auto simp: heartbeat_result_of_def split: option.splits)
  next
    case False
    let ?d = "upd_node ?i ?f (view w)"
    have row: "get_node_row ?d ?i = Some ?n" using assms(3) by (simp add: row_lookups)
    have tr: "transition_node_state ?i st ?d = Inr (?n\<lparr>n_status := st\<rparr>, upd_node ?i (\<lambda>x. x\<lparr>n_status := st\<rparr>) ?d)"
      if "st \<in> NODE_STATE_TRANSITIONS (n_status n)" for st
      using that row i by (cases "n_status n") (auto simp: transition_node_state_def Let_def)
    obtain w1 where w1: "transaction (process_node_heartbeat ?i (Some (hb_capacity p)) (Some (hb_used p)) (hb_timestamp p)) w =
        (Inr (?n, True), w1)" "view w1 = ?d"
      using body(1) False by (simp add: transaction_def)
    from assms(2) obtain x where x: "(if n_status n \<in> {NS_JOINING, NS_SUSPECT} then transaction (transition_node_state ?i NS_HEALTHY)
        else if n_status n = NS_UNAVAILABLE then transaction (transition_node_state ?i NS_RECOVERING) else retA ?n) w1 = (Inr x, w')"
      "res = heartbeat_result_of x True"
      unfolding ingest_def bindA_def [of "transaction (process_node_heartbeat _ _ _ _)"] w1(1)
      using i(3) body(2) by (auto simp: retA_def elim!: bindA_InrE split: if_splits)
    have "get_node_row (view w') ?i = Some x \<and> x = ?n\<lparr>n_status := (if n_status n \<in> {NS_JOINING, NS_SUSPECT} then NS_HEALTHY
         else if n_status n = NS_UNAVAILABLE then NS_RECOVERING else n_status n)\<rparr>"
    proof (cases "n_status n \<in> {NS_JOINING, NS_SUSPECT, NS_UNAVAILABLE}")
      case True
      then show ?thesis using x(1) w1(2) tr [of NS_HEALTHY] tr [of NS_RECOVERING] i(1)
        by (auto dest!: transaction_InrD(1) dest: transition_frame(1))
    next
      case False
      then show ?thesis using x(1) w1(2) row by (auto simp: retA_def)
    qed
    with x(2) have "hr_accepted res \<and> (\<exists>x. get_node_row (view w') ?i = Some x \<and>
       n_last_heartbeat_at x = Some ?ts \<and> n_capacity x = hb_capacity p \<and> n_used x = hb_used p \<and>
       n_status x = (if n_status n \<in> {NS_JOINING, NS_SUSPECT} then NS_HEALTHY
         else if n_status n = NS_UNAVAILABLE then NS_RECOVERING else n_status n))"
      by (simp add: heartbeat_result_of_def)
    with False show ?thesis by (auto split: option.splits)
  qed
qed

definition demo_detector :: failure_detector where
  "demo_detector = \<lparr>fd_suspect_after = 15, fd_unavailable_after = 45, fd_replication_factor = 1\<rparr>"

definition demo_silent :: db where
  "demo_silent = demo_cluster\<lparr>nodes := [demo_node\<lparr>n_status := NS_SUSPECT\<rparr>, demo_node\<lparr>n_id := ''n2'', n_address := ''http://n2''\<rparr>]\<rparr>"

lemma demo_silent_sound: "sound demo_silent (demo_world demo_silent ())"
proof -
  have "db_inv demo_silent" by code_simp
  then show ?thesis by (simp add: sound_def demo_world_def ctl_refl)
qed

theorem detector_follows_rule_witness:
  "\<exists>r w' x. evaluate demo_detector 60 (demo_node\<lparr>n_status := NS_SUSPECT\<rparr>) (demo_world demo_silent ()) = (Inr r, w') \<and>
     get_node_row (view w') ''n1'' = Some x \<and> n_status x = NS_UNAVAILABLE \<and> affected_replicas ''n1'' (view w') = []"
proof -
  let ?e = "evaluate demo_detector 60 (demo_node\<lparr>n_status := NS_SUSPECT\<rparr>) (demo_world demo_silent ())"
  have "\<not> isl (fst ?e)" by code_simp
  then obtain r w' where r: "?e = (Inr r, w')" by (metis prod.collapse sum.collapse(2))
  have "get_node_row (view (demo_world demo_silent ())) (n_id (demo_node\<lparr>n_status := NS_SUSPECT\<rparr>)) =
      Some (demo_node\<lparr>n_status := NS_SUSPECT\<rparr>)"
    by (simp add: demo_world_def demo_silent_def demo_node_def)
  from detector_follows_rule [OF demo_silent_sound this r] r show ?thesis
    by (auto simp: detector_verdict_def demo_detector_def demo_node_def)
qed

theorem heartbeat_effect_witness:
  "\<exists>res w' x. ingest \<lparr>hb_node_id = ''n1'', hb_capacity = 100, hb_used = 3, hb_timestamp = Datetime 60 (Some 0)\<rparr>
      (demo_world demo_silent ()) = (Inr res, w') \<and> get_node_row (view w') ''n1'' = Some x \<and> n_status x = NS_HEALTHY"
proof -
  let ?p = "\<lparr>hb_node_id = ''n1'', hb_capacity = 100, hb_used = 3, hb_timestamp = Datetime 60 (Some 0)\<rparr>"
  have "\<not> isl (fst (ingest ?p (demo_world demo_silent ())))" by code_simp
  then obtain res w' where r: "ingest ?p (demo_world demo_silent ()) = (Inr res, w')" by (metis prod.collapse sum.collapse(2))
  from heartbeat_effect [OF sound_inv(2) [OF demo_silent_sound] r, of "demo_node\<lparr>n_status := NS_SUSPECT\<rparr>"] r
  show ?thesis by (auto simp: demo_world_def demo_silent_def demo_node_def)
qed

end
