(* ===== verification/Worker.thy ===== *)
theory Worker
  imports Health Complex_Main
begin

text \<open>
  \<^verbatim>\<open>worker/tasks.py\<close>: the Celery tasks, each a manager operation in a
  \<open>session_scope\<close>, with the retry rule they share. The broker is a parameter: \<open>enqueue\<close> hands
  over a message and gives a task id. Identifiers arrive parsed; the result dictionaries are
  records and pairs of the same values. Polls that run concurrently are taken in list order.
\<close>

section \<open>Retries\<close>

definition retryable_codes :: "error_code set" where
  "retryable_codes = {NODE_UNAVAILABLE, INSUFFICIENT_REPLICAS, STORAGE_FULL}"

definition retryable :: "exn \<Rightarrow> bool" where
  "retryable e \<longleftrightarrow> is_client_error e \<or> (case e of VaultE v \<Rightarrow> error_code_of v \<in> retryable_codes | _ \<Rightarrow> False)"

datatype 'a outcome = Returned 'a | Raised exn | Retrying exn rat

definition retry_task :: "nat \<Rightarrow> rat \<Rightarrow> nat \<Rightarrow> exn \<Rightarrow> 'a outcome" where
  "retry_task max_retries initial_backoff retries e =
     (if \<not> retryable e then Raised e
      else if max_retries \<le> retries then Raised e
      else Retrying e (min 300 (initial_backoff * 2 ^ retries)))"

definition run_task :: "nat \<Rightarrow> rat \<Rightarrow> nat \<Rightarrow> ('n, 'a) act \<Rightarrow> 'n world \<Rightarrow> 'a outcome \<times> 'n world" where
  "run_task max_retries initial_backoff retries body w =
     (case body w of
        (Inr x, w') \<Rightarrow> (Returned x, w')
      | (Inl e, w') \<Rightarrow> (retry_task max_retries initial_backoff retries e, w'))"

section \<open>Tasks\<close>

datatype message = RepairVersion uuid uuid | RunIntegrityCheck uuid | MigrateReplica uuid string uuid

record worker_settings =
  ws_max_attempts :: int
  ws_replication_factor :: int
  ws_suspect_after :: int
  ws_unavailable_after :: int

type_synonym 'n enqueue = "message \<Rightarrow> (exn, 'n, string) action"

definition repair_version_task ::
  "nat \<Rightarrow> 'n client \<Rightarrow> worker_settings \<Rightarrow> uuid \<Rightarrow> uuid option \<Rightarrow> ('n, repair_result list option) act" where
  "repair_version_task fuel c st version_id repair_id =
     session_scope
       (case repair_id of
          Some i \<Rightarrow> bindA (repair_run_job c (ws_max_attempts st) i) (\<lambda>res. retA (Some [res]))
        | None \<Rightarrow> repair_version_until_healthy fuel c (ws_max_attempts st) (ws_replication_factor st) version_id
            (Some (ws_replication_factor st)) ''under-replicated'')"

definition queue_repair :: "'n enqueue \<Rightarrow> integrity_result \<Rightarrow> ('n, string list) act" where
  "queue_repair q res =
     (case ir_repair_id res of
        None \<Rightarrow> retA []
      | Some i \<Rightarrow> bindA (net_call (q (RepairVersion (ir_version_id res) i))) (\<lambda>t. retA [t]))"

definition verify_replica_task ::
  "'n client \<Rightarrow> 'n enqueue \<Rightarrow> worker_settings \<Rightarrow> uuid \<Rightarrow> ('n, integrity_result \<times> string list) act" where
  "verify_replica_task c q st replica_id =
     session_scope (bindA (verify_replica c (ws_replication_factor st) replica_id) (\<lambda>res.
       bindA (queue_repair q res) (\<lambda>ts. retA (res, ts))))"

definition scan_node_task ::
  "'n client \<Rightarrow> 'n enqueue \<Rightarrow> worker_settings \<Rightarrow> string \<Rightarrow> ('n, nat \<times> nat \<times> string list) act" where
  "scan_node_task c q st node_id =
     session_scope (bindA (scan_node c (ws_replication_factor st) node_id) (\<lambda>rs.
       bindA (forA (queue_repair q) rs) (\<lambda>tss.
       retA (length (filter ir_checked rs), length (filter ir_corrupted rs), concat tss))))"

datatype scan_entry = Queued uuid uuid string | Blocked uuid exn

definition under_replicated :: "int \<Rightarrow> db \<Rightarrow> version_row list" where
  "under_replicated rf d = sort_key v_id (filter (\<lambda>v. v_state v = VS_COMMITTED \<and>
     int (healthy_count d (v_id v)) < rf) (versions d))"

definition check_version :: "'n enqueue \<Rightarrow> int \<Rightarrow> version_row \<Rightarrow> ('n, scan_entry list) act" where
  "check_version q rf v =
     catchA (bindA (schedule_for_version rf (v_id v) (Some rf) ''under-replicated-scan'' None) (\<lambda>job.
         case job of
           None \<Rightarrow> retA []
         | Some j \<Rightarrow> bindA (net_call (q (RepairVersion (v_id v) (rp_id j)))) (\<lambda>t.
             retA [Queued (v_id v) (rp_id j) t])))
       (\<lambda>e. if is_vault_error e then thenA rollback (retA [Blocked (v_id v) e]) else raiseA e)"

definition check_under_replicated_objects :: "'n enqueue \<Rightarrow> worker_settings \<Rightarrow> ('n, scan_entry list) act" where
  "check_under_replicated_objects q st =
     session_scope (bindA (query (under_replicated (ws_replication_factor st))) (\<lambda>vs.
       bindA (forA (check_version q (ws_replication_factor st)) vs) (\<lambda>es. retA (concat es))))"

definition rebalance_node_task :: "'n client \<Rightarrow> worker_settings \<Rightarrow> string \<Rightarrow> ('n, rebalance_result list) act" where
  "rebalance_node_task c st node_id =
     session_scope (drain_node c (ws_replication_factor st) (ws_max_attempts st) node_id)"

definition migrate_replica_task ::
  "'n client \<Rightarrow> worker_settings \<Rightarrow> uuid \<Rightarrow> string \<Rightarrow> uuid option \<Rightarrow> ('n, rebalance_result) act" where
  "migrate_replica_task c st replica_id target rebalance_id =
     session_scope (bindA (query (\<lambda>d. get_replica_row d replica_id)) (\<lambda>found.
       case found of
         None \<Rightarrow> raiseA (VaultE (VaultError OBJECT_NOT_FOUND 404))
       | Some r \<Rightarrow>
           (case rebalance_id of
              Some i \<Rightarrow> rebalance_run_job c (ws_replication_factor st) (ws_max_attempts st) i
            | None \<Rightarrow> migrate_replica c (ws_replication_factor st) (ws_max_attempts st) (r_version_id r)
                (r_node_id r) target)))"

definition run_integrity_check ::
  "'n client \<Rightarrow> 'n enqueue \<Rightarrow> worker_settings \<Rightarrow> uuid \<Rightarrow> ('n, integrity_job_result \<times> string list) act" where
  "run_integrity_check c q st integrity_id =
     session_scope (bindA (integrity_run_job c (ws_replication_factor st) (ws_max_attempts st) integrity_id) (\<lambda>res.
       bindA (forA (queue_repair q) (ijr_results res)) (\<lambda>tss. retA (res, concat tss))))"

definition scan_all_integrity :: "'n enqueue \<Rightarrow> ('n, uuid \<times> string) act" where
  "scan_all_integrity q =
     session_scope (bindA (integrity_create_job None None) (\<lambda>job.
       bindA (net_call (q (RunIntegrityCheck (ig_id job)))) (\<lambda>t. retA (ig_id job, t))))"

section \<open>The health round\<close>

datatype poll = Polled heartbeat_payload | PollFailed exn

definition poll_node :: "'n client \<Rightarrow> node_row \<Rightarrow> ('n, poll) act" where
  "poll_node c n =
     thenA (net_call (c_open c (n_address n)))
     (catchA
       (bindA (tryA (net_call (c_health c (n_address n)))) (\<lambda>h.
        bindA (tryA (net_call (c_stats c (n_address n)))) (\<lambda>s.
        case h of Inl e \<Rightarrow> raiseA e | Inr hh \<Rightarrow>
        (case s of Inl e \<Rightarrow> raiseA e | Inr ss \<Rightarrow>
        if nh_node_id hh \<noteq> n_id n \<or> lower (nh_status hh) \<noteq> ''healthy''
        then raiseA (ClientE StorageNodeClientError)
        else bindA now (\<lambda>t.
          case make_heartbeat (n_id n) (st_capacity ss) (st_used ss) (Datetime t (Some 0)) of
            Inl e \<Rightarrow> retA (PollFailed e)
          | Inr p \<Rightarrow> retA (Polled p))))))
       (\<lambda>e. if is_client_error e then retA (PollFailed e) else raiseA e))"

definition ingest_poll :: "'n client \<Rightarrow> int \<Rightarrow> node_row \<times> poll \<Rightarrow> ('n, (string \<times> exn) + heartbeat_result) act" where
  "ingest_poll c rf np =
     (case snd np of
        PollFailed e \<Rightarrow> retA (Inl (n_id (fst np), e))
      | Polled p \<Rightarrow>
          bindA (live_node (fst np)) (\<lambda>n.
          bindA (if n_status n = NS_UNAVAILABLE then ingest_and_recover c rf p else ingest p) (\<lambda>res.
          retA (Inr res))))"

definition queue_detected :: "'n enqueue \<Rightarrow> uuid \<Rightarrow> ('n, unit) act" where
  "queue_detected q repair_id =
     bindA (query (\<lambda>d. map_option rp_version_id (get_repair_row d repair_id))) (\<lambda>v.
     case v of
       None \<Rightarrow> retA ()
     | Some version_id \<Rightarrow> thenA (net_call (q (RepairVersion version_id repair_id))) (retA ()))"

text \<open>Returns the polls that failed, the heartbeats that were processed and the detector's transitions.\<close>

definition process_node_health ::
  "'n client \<Rightarrow> 'n enqueue \<Rightarrow> worker_settings \<Rightarrow>
     ('n, ((string \<times> exn) + heartbeat_result) list \<times> node_transition list) act" where
  "process_node_health c q st =
     session_scope
       (bindA (query (\<lambda>d. sort_key n_id (filter (\<lambda>n. n_status n \<notin> {NS_DRAINING, NS_REMOVED}) (nodes d)))) (\<lambda>ns.
        bindA (forA (\<lambda>n. bindA (poll_node c n) (\<lambda>p. retA (n, p))) ns) (\<lambda>polls.
        bindA (forA (ingest_poll c (ws_replication_factor st)) polls) (\<lambda>ingested.
        bindA (from_result (failure_detector_init (ws_suspect_after st) (ws_unavailable_after st)
          (ws_replication_factor st))) (\<lambda>fd.
        bindA (detector_scan fd None) (\<lambda>trs.
        thenA (forA (\<lambda>tr. forA (queue_detected q) (nt_repair_ids tr)) trs)
          (retA (ingested, trs))))))))"

section \<open>Preservation\<close>

lemma worker_steps_sound [keeps_rules]:
  "keeps (sound d0) (queue_repair q res)" "keeps (sound d0) (check_version q rf v)" "keeps (sound d0) (queue_detected q i)"
  unfolding queue_repair_def check_version_def queue_detected_def by (intro keeps_rules)+

lemma poll_node_sound [keeps_rules]: "keeps (sound d0) (poll_node c n)"
  unfolding poll_node_def by (intro keeps_rules)

lemma ingest_poll_sound [keeps_rules]: "keeps (sound d0) (ingest_poll c rf np)"
  unfolding ingest_poll_def by (cases "snd np") (auto intro!: keeps_rules)

text \<open>Every task keeps the durable tables on the control plane's steps.\<close>

lemma tasks_sound [keeps_rules]:
  "keeps (sound d0) (repair_version_task fuel c st v i)"
  "keeps (sound d0) (verify_replica_task c q st r)"
  "keeps (sound d0) (scan_node_task c q st n)"
  "keeps (sound d0) (check_under_replicated_objects q st)"
  "keeps (sound d0) (rebalance_node_task c st n)"
  "keeps (sound d0) (migrate_replica_task c st r t b)"
  "keeps (sound d0) (run_integrity_check c q st j)"
  "keeps (sound d0) (scan_all_integrity q)"
  "keeps (sound d0) (process_node_health c q st)"
  unfolding repair_version_task_def verify_replica_task_def scan_node_task_def check_under_replicated_objects_def
    rebalance_node_task_def migrate_replica_task_def run_integrity_check_def scan_all_integrity_def process_node_health_def
  by (intro sound_session_scope keeps_rules)+

section \<open>Rounds that store nothing\<close>

text \<open>Nothing has become durable and no node of the session is UNAVAILABLE.\<close>

definition idle :: "db \<Rightarrow> 'n world \<Rightarrow> bool" where
  "idle s w \<longleftrightarrow> unsaved s w \<and> (\<forall>n\<in>set (nodes (view w)). n_status n \<noteq> NS_UNAVAILABLE)"

lemma idle_quiet [keeps_rules]:
  "keeps (idle s) new_uuid" "keeps (idle s) now" "keeps (idle s) (query f)" "keeps (idle s) (live f)"
  "keeps (idle s) (net_call m)" "keeps (idle s) (from_result r)"
  by (auto simp: keeps_def idle_def unsaved_def session_defs split: prod.split)

lemma idle_transaction:
  assumes "\<And>d x d'. body d = Inr (x, d') \<Longrightarrow> \<forall>n\<in>set (nodes d). n_status n \<noteq> NS_UNAVAILABLE \<Longrightarrow>
    \<forall>n\<in>set (nodes d'). n_status n \<noteq> NS_UNAVAILABLE"
  shows "keeps (idle s) (transaction body)"
  using assms by (auto simp: keeps_def idle_def unsaved_def transaction_def split: sum.splits)

lemma idle_node_ops [keeps_rules]:
  "keeps (idle s) (transaction (process_node_heartbeat i c u t))"
  "st \<noteq> NS_UNAVAILABLE \<Longrightarrow> keeps (idle s) (transaction (transition_node_state i st))"
  by (rule idle_transaction, force simp: process_node_heartbeat_def transition_node_state_def Let_def upd_node_def
      result_iffs split: if_splits elim!: in_update_byE)+

lemma idle_ingest [keeps_rules]: "keeps (idle s) (ingest p)"
  unfolding ingest_def by (intro keeps_rules) simp_all

lemma idle_poll [keeps_rules]: "keeps (idle s) (poll_node c n)"
  unfolding poll_node_def by (intro keeps_rules)

lemma keeps_forA_set:
  assumes "\<And>x. x \<in> set xs \<Longrightarrow> keeps I (f x)"
  shows "keeps I (forA f xs)"
  using assms by (induction xs) (auto intro!: keeps_rules)

lemma idle_ingest_poll:
  fixes c :: "'n client"
  assumes "n_status (fst np) \<noteq> NS_UNAVAILABLE"
  shows "keeps (idle s) (ingest_poll c rf np)"
proof (cases "snd np")
  case (Polled p)
  have "keeps (idle s) (bindA (live_node (fst np)) (\<lambda>n.
      bindA (if n_status n = NS_UNAVAILABLE then ingest_and_recover c rf p else ingest p)
        (\<lambda>res. retA (Inr res :: (string \<times> exn) + heartbeat_result))))"
    unfolding keeps_def
  proof (intro allI impI)
    fix w :: "'n world"
    assume w: "idle s w"
    have "n_status (case get_node_row (view w) (n_id (fst np)) of None \<Rightarrow> fst np | Some x \<Rightarrow> x) \<noteq> NS_UNAVAILABLE"
      using w assms lookup_by_SomeD by (fastforce simp: idle_def split: option.splits)
    moreover have "keeps (idle s) (bindA (ingest p) (\<lambda>res. retA (Inr res :: (string \<times> exn) + heartbeat_result)) :: ('n, _) act)" by (intro keeps_rules)
    ultimately show "idle s (snd (bindA (live_node (fst np)) (\<lambda>n.
      bindA (if n_status n = NS_UNAVAILABLE then ingest_and_recover c rf p else ingest p) (\<lambda>res. retA (Inr res :: (string \<times> exn) + heartbeat_result))) w))"
      using w by (simp add: live_node_def bindA_live keeps_def)
  qed
  then show ?thesis using Polled by (simp add: ingest_poll_def)
qed (simp add: ingest_poll_def keeps_rules)

lemma transition_status: "transition_node_state n st d = Inr (x, d') \<Longrightarrow> n_status x = st"
  by (cases "get_node_row d (strip n)") (auto simp: transition_node_state_def Let_def split: if_splits)

lemma evaluate_unsaved:
  assumes "evaluate fd t n w = (Inr r, w')" "\<And>tr. r = Some tr \<Longrightarrow> nt_current tr \<noteq> NS_UNAVAILABLE" "unsaved s w"
  shows "unsaved s w'"
proof (cases rule: evaluate_cases [where fd = fd and t = t and n = n and w = w])
  case none
  then show ?thesis using assms by (simp add: retA_def)
next
  case (suspect p)
  have "keeps (unsaved s) (bindA (transaction (transition_node_state (n_id n) NS_SUSPECT))
        (\<lambda>u. retA (Some \<lparr>nt_node_id = n_id n, nt_previous = p, nt_current = n_status u, nt_repair_ids = []\<rparr>)))"
    by (intro keeps_rules)
  from keepsD [OF this assms(3)] suspect(2) assms(1) show ?thesis by metis
next
  case gone
  from assms(1) [unfolded gone(2)] obtain tr where "r = Some tr" "nt_current tr = NS_UNAVAILABLE"
    by (auto simp: retA_def elim!: bindA_InrE dest!: transaction_InrD(1) transition_status)
  then show ?thesis using assms(2) by blast
qed

lemma scan_unsaved:
  assumes "forA (\<lambda>n. bindA (live_node n) (evaluate fd t)) ns w = (Inr rs, w')" "unsaved s w"
    "\<And>tr. Some tr \<in> set rs \<Longrightarrow> nt_current tr \<noteq> NS_UNAVAILABLE"
  shows "unsaved s w'"
  using assms
proof (induction ns arbitrary: w rs)
  case (Cons n ns)
  from Cons.prems(1) obtain r zs u where run: "bindA (live_node n) (evaluate fd t) w = (Inr r, u)"
    "forA (\<lambda>n. bindA (live_node n) (evaluate fd t)) ns u = (Inr zs, w')" "rs = r # zs"
    by (rule forA_ConsE)
  have "unsaved s u" using run(1,3) Cons.prems(2,3)
    by (auto simp: live_node_def bindA_live elim: evaluate_unsaved)
  with Cons.IH [OF run(2)] Cons.prems(3) run(3) show ?case by simp
qed (simp add: retA_def)

lemma detector_scan_unsaved:
  assumes "detector_scan fd None w = (Inr trs, w')" "unsaved s w" "\<forall>tr\<in>set trs. nt_current tr \<noteq> NS_UNAVAILABLE"
  shows "unsaved s w'"
proof -
  from assms(1) obtain rs t where rs: "forA (\<lambda>n. bindA (live_node n) (evaluate fd t)) (sort_key n_id (nodes (view w)))
      (w\<lparr>now_pos := Suc (now_pos w), in_tx := True\<rparr>) = (Inr rs, w')"
    "trs = concat (map (\<lambda>x. case x of None \<Rightarrow> [] | Some tr \<Rightarrow> [tr]) rs)"
    by (auto simp: detector_scan_def detector_now_def list_nodes_def run_simps elim!: bindA_InrE)
  have "nt_current tr \<noteq> NS_UNAVAILABLE" if "Some tr \<in> set rs" for tr
    using that assms(3) rs(2) by force
  with scan_unsaved [OF rs(1)] assms(2) show ?thesis by (simp add: unsaved_def)
qed

lemma polled_nodes:
  assumes "list_all2 (\<lambda>n np. fst np = n) ns polls" "np \<in> set polls"
  shows "fst np \<in> set ns"
  using assms by (induction rule: list_all2_induct) auto

section \<open>Properties\<close>

text \<open>Retries are bounded: a failed task is retried only for errors worth retrying, only while fewer
  than the maximum number of retries have been made, and never later than 300 seconds; otherwise
  the exception is raised.\<close>

theorem retry_bounded:
  assumes "0 \<le> b"
  shows "case retry_task mx b k e of
      Retrying e' delay \<Rightarrow> e' = e \<and> retryable e \<and> k < mx \<and> 0 \<le> delay \<and> delay \<le> 300 \<and> delay \<le> b * 2 ^ k
    | Raised e' \<Rightarrow> e' = e \<and> (\<not> retryable e \<or> mx \<le> k)
    | Returned x \<Rightarrow> False"
  using assms by (auto simp: retry_task_def)

theorem retry_bounded_witness:
  "\<exists>delay. retry_task 4 1 2 (ClientE StorageNodeUnavailableError) = (Retrying (ClientE StorageNodeUnavailableError) delay :: unit outcome) \<and>
     delay \<le> 300"
proof -
  have "(0 :: rat) \<le> 1" by simp
  note b = retry_bounded [OF this, where mx = 4 and k = 2 and e = "ClientE StorageNodeUnavailableError"]
  have "retry_task 4 1 2 (ClientE StorageNodeUnavailableError) = (Retrying (ClientE StorageNodeUnavailableError) 4 :: unit outcome)"
    by (simp add: retry_task_def retryable_def)
  then show ?thesis using b [where 'a = unit] by (simp del: power_numeral)
qed

text \<open>Health rounds are not durable: when no stored node is UNAVAILABLE and the round takes none to
  UNAVAILABLE, the stored tables after the round are the tables before it, so every heartbeat it
  reports as accepted and every node it reports as SUSPECT is lost with the session.\<close>

theorem health_round_not_durable:
  fixes w :: "'n world"
  assumes "process_node_health c q st w = (Inr (ingested, trs), w')"
    "\<forall>n\<in>set (nodes (stored w)). n_status n \<noteq> NS_UNAVAILABLE" "\<forall>tr\<in>set trs. nt_current tr \<noteq> NS_UNAVAILABLE"
  shows "stored w' = stored w"
proof -
  let ?w = "w\<lparr>view := stored w, in_tx := True\<rparr>" and ?I = "idle (stored w)"
  let ?ns = "sort_key n_id (filter (\<lambda>n. n_status n \<notin> {NS_DRAINING, NS_REMOVED}) (nodes (stored w)))"
  from assms(1) obtain polls fd w1 w2 w3 w4 x w5 where run:
    "forA (\<lambda>n. bindA (poll_node c n) (\<lambda>p. retA (n, p))) ?ns ?w = (Inr polls, w1)"
    "forA (ingest_poll c (ws_replication_factor st)) polls w1 = (Inr ingested, w2)"
    "from_result (failure_detector_init (ws_suspect_after st) (ws_unavailable_after st) (ws_replication_factor st)) w2 = (Inr fd, w3)"
    "detector_scan fd None w3 = (Inr trs, w4)"
    "forA (\<lambda>tr. forA (queue_detected q) (nt_repair_ids tr)) trs w4 = (Inr x, w5)" "w' = snd (rollback w5)"
    by (auto simp: process_node_health_def session_scope_def bindA_query retA_def split: prod.splits
        elim!: bindA_InrE thenA_InrE)
  have w: "?I ?w" using assms(2) by (simp add: idle_def unsaved_def)
  have "keeps ?I (forA (\<lambda>n. bindA (poll_node c n) (\<lambda>p. retA (n, p))) ?ns)" by (intro keeps_rules)
  from keepsD [OF this w run(1)] have w1: "?I w1" .
  have "list_all2 (\<lambda>n np. fst np = n) ?ns polls"
    by (rule forA_induct_ok [OF run(1), where I = "\<lambda>_. True" and R = "\<lambda>n np. fst np = n", THEN conjunct2])
      (auto simp: retA_def elim!: bindA_InrE)
  then have "fst ` set polls \<subseteq> set (nodes (stored w))" by (auto dest!: polled_nodes)
  then have "keeps ?I (forA (ingest_poll c (ws_replication_factor st)) polls)"
    using assms(2) by (intro keeps_forA_set idle_ingest_poll) fastforce
  from keepsD [OF this w1 run(2)] have "unsaved (stored w) w3" using run(3) by (simp add: idle_def from_result_def)
  from detector_scan_unsaved [OF run(4) this assms(3)] have w4: "unsaved (stored w) w4" .
  have "keeps (unsaved (stored w)) (forA (\<lambda>tr. forA (queue_detected q) (nt_repair_ids tr)) trs)"
    unfolding queue_detected_def by (intro keeps_rules)
  from keepsD [OF this w4 run(5)] run(6) show ?thesis by (simp add: rollback_def unsaved_def)
qed

definition demo_settings :: worker_settings where
  "demo_settings = \<lparr>ws_max_attempts = 3, ws_replication_factor = 1, ws_suspect_after = 15, ws_unavailable_after = 45\<rparr>"

definition was_accepted :: "(string \<times> exn) + heartbeat_result \<Rightarrow> bool" where
  "was_accepted x = (case x of Inl _ \<Rightarrow> False | Inr h \<Rightarrow> hr_accepted h)"

definition demo_round :: "(exn + ((string \<times> exn) + heartbeat_result) list \<times> node_transition list) \<times> unit world" where
  "demo_round = process_node_health
     ((demo_client [])\<lparr>c_health := (\<lambda>a. retA \<lparr>nh_status = ''healthy'', nh_node_id = ''n1''\<rparr>),
        c_stats := (\<lambda>a. retA \<lparr>st_node_id = ''n1'', st_capacity = 100, st_used = 3, st_free = 97\<rparr>)\<rparr>)
     (\<lambda>_. retA ''t'') demo_settings ((demo_world demo_cluster ())\<lparr>now_feed := (\<lambda>i. 60 + int i)\<rparr>)"

theorem health_round_not_durable_witness:
  "\<exists>ingested trs w'. demo_round = (Inr (ingested, trs), w') \<and>
     list_ex was_accepted ingested \<and> stored w' = demo_cluster"
proof -
  have "(case fst demo_round of Inl _ \<Rightarrow> False | Inr (ing, trs) \<Rightarrow> list_all (\<lambda>tr. nt_current tr \<noteq> NS_UNAVAILABLE) trs \<and>
      list_ex was_accepted ing)"
    by code_simp
  then obtain y where "fst demo_round = Inr y" "list_all (\<lambda>tr. nt_current tr \<noteq> NS_UNAVAILABLE) (snd y)"
    "list_ex was_accepted (fst y)" by (auto split: sum.splits prod.splits)
  note y = this
  obtain w' where "demo_round = (Inr y, w')" using y(1) by (metis prod.collapse)
  then have r: "demo_round = (Inr (fst y, snd y), w')" "\<forall>tr\<in>set (snd y). nt_current tr \<noteq> NS_UNAVAILABLE"
    "list_ex was_accepted (fst y)" using y(2,3) by (simp_all add: list_all_iff)
  have "\<forall>n\<in>set (nodes (stored (demo_world demo_cluster ()))). n_status n \<noteq> NS_UNAVAILABLE" by code_simp
  then have "\<forall>n\<in>set (nodes (stored ((demo_world demo_cluster ())\<lparr>now_feed := (\<lambda>i. 60 + int i)\<rparr>))). n_status n \<noteq> NS_UNAVAILABLE"
    by simp
  from health_round_not_durable [OF r(1) [unfolded demo_round_def] this r(2)] have "stored w' = demo_cluster"
    by (simp add: demo_world_def)
  with r(1,3) show ?thesis by blast
qed

end
