(* ===== verification/Gateway.thy ===== *)
theory Gateway
  imports Durability Worker
begin

text \<open>
  \<^verbatim>\<open>gateway/service.py\<close>: what the public gateway does with the metadata, the replication
  manager and the storage nodes. Uploads are staged in a temporary file; the file holds the bytes of
  the request from the moment staging returns until the upload ends, and is represented by its
  content. The audit columns that the listings also show are left out.
\<close>

section \<open>Reading the metadata\<close>

definition list_objects :: "('n, object_row list) act" where
  "list_objects = query (\<lambda>d. sort_key o_name (filter (\<lambda>ob. o_state ob \<noteq> OS_DELETED) (objects d)))"

record object_summary =
  os_id :: uuid
  os_name :: string
  os_state :: object_state
  os_current :: "uuid option"
  os_number :: "int option"
  os_size :: "int option"
  os_checksum :: "string option"
  os_version_state :: "version_state option"
  os_healthy :: nat

definition summary_of :: "db \<Rightarrow> object_row \<Rightarrow> object_summary" where
  "summary_of d ob =
     (let v = (case o_current_version_id ob of None \<Rightarrow> None | Some i \<Rightarrow> get_version_row d i) in
      \<lparr>os_id = o_id ob, os_name = o_name ob, os_state = o_state ob, os_current = o_current_version_id ob,
       os_number = map_option v_number v, os_size = map_option v_size v, os_checksum = map_option v_checksum v,
       os_version_state = map_option v_state v, os_healthy = (case v of None \<Rightarrow> 0 | Some x \<Rightarrow> healthy_count d (v_id x))\<rparr>)"

definition list_object_summaries :: "('n, object_summary list) act" where
  "list_object_summaries =
     query (\<lambda>d. map (summary_of d) (sort_key o_name (filter (\<lambda>ob. o_state ob \<noteq> OS_DELETED) (objects d))))"

definition gateway_get_object :: "string \<Rightarrow> ('n, object_row) act" where
  "gateway_get_object name =
     bindA (from_result (normalize_object_name name)) (\<lambda>nm.
     bindA (query (\<lambda>d. lookup_by o_name nm (objects d))) (\<lambda>found.
     case found of None \<Rightarrow> raiseA (VaultE (ObjectNotFound (TextId nm))) | Some ob \<Rightarrow> retA ob))"

definition get_live_object :: "string \<Rightarrow> ('n, object_row) act" where
  "get_live_object name =
     bindA (gateway_get_object name) (\<lambda>ob.
     if o_state ob \<noteq> OS_ACTIVE then raiseA (VaultE (ObjectNotFound (TextId (o_name ob)))) else retA ob)"

text \<open>The row of the current version; a missing row is a \<open>ValueError\<close>.\<close>

definition current_version :: "object_row \<Rightarrow> ('n, version_row option) act" where
  "current_version ob =
     (case o_current_version_id ob of
        None \<Rightarrow> retA None
      | Some i \<Rightarrow> bindA (query (\<lambda>d. get_version_row d i)) (\<lambda>found.
          case found of None \<Rightarrow> raiseA ValueError | Some v \<Rightarrow> retA (Some v)))"

definition object_metadata :: "string \<Rightarrow> ('n, object_row \<times> (int \<times> uuid) option) act" where
  "object_metadata name =
     bindA (get_live_object name) (\<lambda>ob.
     bindA (current_version ob) (\<lambda>current. retA (ob, map_option (\<lambda>v. (v_number v, v_id v)) current)))"

definition object_versions :: "string \<Rightarrow> ('n, (version_row \<times> nat \<times> replica_row list) list) act" where
  "object_versions name =
     bindA (get_live_object name) (\<lambda>ob.
     bindA (query (\<lambda>d. sort_key v_number (filter (\<lambda>v. v_object_id v = o_id ob) (versions d)))) (\<lambda>vs.
     if vs = [] then retA [] else
     bindA (query (\<lambda>d. \<lambda>v. healthy_count d (v_id v))) (\<lambda>counts.
     bindA (query (\<lambda>d. \<lambda>v. sort_key r_node_id (filter (\<lambda>r. r_version_id r = v_id v) (replicas d)))) (\<lambda>reps.
     retA (map (\<lambda>v. (v, counts v, reps v)) vs)))))"

definition gateway_list_nodes :: "('n, node_row list) act" where
  "gateway_list_nodes = query (\<lambda>d. sort_key n_id (nodes d))"

definition gateway_get_node :: "string \<Rightarrow> ('n, node_row) act" where
  "gateway_get_node node_id =
     (if strip node_id = [] then raiseA ValueError else
      bindA (query (\<lambda>d. get_node_row d (strip node_id))) (\<lambda>found.
      case found of None \<Rightarrow> raiseA (VaultE (ObjectNotFound (TextId (strip node_id)))) | Some n \<Rightarrow> retA n))"

record gateway_health =
  gh_ok :: bool
  gh_nodes :: nat
  gh_states :: "node_state \<Rightarrow> nat"

definition gateway_health_report :: "('n, gateway_health) act" where
  "gateway_health_report =
     bindA (query (\<lambda>d. \<lambda>st. length (filter (\<lambda>n. n_status n = st) (nodes d)))) (\<lambda>counts.
     let total = sum_list (map counts [NS_JOINING, NS_HEALTHY, NS_SUSPECT, NS_UNAVAILABLE, NS_RECOVERING, NS_DRAINING, NS_REMOVED]) in
     retA \<lparr>gh_ok = (0 < total \<and> counts NS_HEALTHY = total), gh_nodes = total, gh_states = counts\<rparr>)"

definition gateway_head :: "string \<Rightarrow> ('n, object_row \<times> version_row option) act" where
  "gateway_head name =
     bindA (get_live_object name) (\<lambda>ob.
     bindA (current_version ob) (\<lambda>current.
     case current of
       None \<Rightarrow> retA (ob, None)
     | Some v \<Rightarrow> if v_state v \<noteq> VS_COMMITTED then retA (ob, None) else retA (ob, Some v)))"

definition target_nodes :: "uuid \<Rightarrow> db \<Rightarrow> node_row list" where
  "target_nodes version_id d = sort_key n_id (filter (\<lambda>n. n_status n = NS_HEALTHY \<and>
     (\<exists>r\<in>set (replicas d). r_version_id r = version_id \<and> r_node_id r = n_id n \<and> r_status r = RS_HEALTHY)) (nodes d))"

definition read_targets :: "string \<Rightarrow> ('n, object_row \<times> version_row \<times> node_row list) act" where
  "read_targets name =
     bindA (gateway_head name) (\<lambda>(ob, version).
     case version of
       None \<Rightarrow> raiseA (VaultE (ObjectNotFound (TextId (o_name ob))))
     | Some v \<Rightarrow> bindA (query (target_nodes (v_id v))) (\<lambda>targets.
         if targets = [] then raiseA (VaultE (VaultError NODE_UNAVAILABLE 503)) else retA (ob, v, targets)))"

section \<open>Staging an upload\<close>

record staged_upload =
  su_data :: "byte list"
  su_size :: int
  su_checksum :: string

primrec stage_chunks :: "int \<Rightarrow> byte list \<Rightarrow> byte list list \<Rightarrow> exn + byte list" where
  "stage_chunks max_bytes written [] = Inr written"
| "stage_chunks max_bytes written (data # rest) =
     (if data = [] then stage_chunks max_bytes written rest
      else if max_bytes < int (length written) + int (length data) then Inl (VaultE (PayloadTooLarge max_bytes))
      else stage_chunks max_bytes (written @ data) rest)"

definition stage_upload :: "int \<Rightarrow> payload \<Rightarrow> exn + staged_upload" where
  "stage_upload max_bytes body =
     (if max_bytes < 1 then Inl ValueError else
      bindE (stage_chunks max_bytes [] (chunks body)) (\<lambda>data.
      case abort body of
        Some x \<Rightarrow> Inl x
      | None \<Rightarrow> Inr \<lparr>su_data = data, su_size = int (length data), su_checksum = sha256 data\<rparr>))"

definition file_chunks :: "nat \<Rightarrow> byte list \<Rightarrow> exn + payload" where
  "file_chunks chunk_size data = (if chunk_size < 1 then Inl ValueError else Inr (Payload (group chunk_size data) None))"

definition DEFAULT_CHUNK_SIZE_MB :: nat where
  "DEFAULT_CHUNK_SIZE_MB = 16"

text \<open>\<open>payload_factory\<close>: the generator raises where it is consumed, so a wrong size is part of the payload.\<close>

definition staged_payload :: "staged_upload \<Rightarrow> payload" where
  "staged_payload st = (case file_chunks (DEFAULT_CHUNK_SIZE_MB * 1024 * 1024) (su_data st) of Inl x \<Rightarrow> Payload [] (Some x) | Inr p \<Rightarrow> p)"

section \<open>Writing an object\<close>

record put_result =
  pr_object_id :: uuid
  pr_name :: string
  pr_version_id :: uuid
  pr_number :: int
  pr_size :: int
  pr_checksum :: string
  pr_replicas :: "string list"
  pr_factor :: int
  pr_write_quorum :: int

definition find_or_create :: "string \<Rightarrow> ('n, object_row \<times> bool) act" where
  "find_or_create nm =
     bindA (query (\<lambda>d. lookup_by o_name nm (objects d))) (\<lambda>found.
     case found of
       Some ob \<Rightarrow> retA (ob, False)
     | None \<Rightarrow>
         bindA new_uuid (\<lambda>i.
         catchA (bindA (transaction (create_object i nm)) (\<lambda>ob. retA (ob, True)))
           (\<lambda>e. case e of
              VaultE (ObjectAlreadyExists _) \<Rightarrow> bindA (gateway_get_object nm) (\<lambda>ob. retA (ob, False))
            | _ \<Rightarrow> raiseA e)))"

text \<open>
  \<open>session.delete(obj)\<close> with its cascades: the versions of the object and their replicas go with it; a
  repair or rebalance job that refers to such a version makes the database refuse, an integrity job
  loses its reference.
\<close>

definition version_ids :: "db \<Rightarrow> uuid \<Rightarrow> uuid set" where
  "version_ids d i = v_id ` set (filter (\<lambda>v. v_object_id v = i) (versions d))"

definition purge_object :: "uuid \<Rightarrow> db \<Rightarrow> exn + unit \<times> db" where
  "purge_object i d =
     (let gone = version_ids d i in
      if (\<exists>j\<in>set (repair_jobs d). rp_version_id j \<in> gone) \<or> (\<exists>j\<in>set (rebalance_jobs d). rb_version_id j \<in> gone)
      then Inl DbError
      else Inr ((), d\<lparr>objects := remove_by o_id i (objects d), versions := filter (\<lambda>v. v_object_id v \<noteq> i) (versions d),
        replicas := filter (\<lambda>r. r_version_id r \<notin> gone) (replicas d),
        integrity_jobs := map (\<lambda>j. case ig_version_id j of Some v \<Rightarrow> if v \<in> gone then j\<lparr>ig_version_id := None\<rparr> else j | None \<Rightarrow> j)
          (integrity_jobs d)\<rparr>))"

text \<open>The \<open>finally\<close> block of an upload that has not succeeded.\<close>

definition fail_prepared :: "version_row option \<Rightarrow> ('n, unit) act" where
  "fail_prepared version =
     (case version of
        None \<Rightarrow> retA ()
      | Some v \<Rightarrow>
          bindA (live (\<lambda>d. case get_version_row d (v_id v) of None \<Rightarrow> v_state v | Some x \<Rightarrow> v_state x)) (\<lambda>st.
          if st \<noteq> VS_PREPARING then retA ()
          else catchA (thenA (transaction (fail_version (v_id v))) (retA ())) (\<lambda>e. if is_vault_error e then retA () else raiseA e)))"

definition discard_object :: "object_row \<Rightarrow> bool \<Rightarrow> ('n, unit) act" where
  "discard_object ob created =
     bindA (live (\<lambda>d. case get_object_row d (o_id ob) of None \<Rightarrow> o_current_version_id ob | Some x \<Rightarrow> o_current_version_id x)) (\<lambda>current.
     if created \<and> current = None
     then catchA (add_commit (purge_object (o_id ob))) (\<lambda>e. if e = DbError then retA () else raiseA e)
     else retA ())"

definition abandon_upload :: "object_row \<Rightarrow> bool \<Rightarrow> version_row option \<Rightarrow> ('n, unit) act" where
  "abandon_upload ob created version = thenA (fail_prepared version) (discard_object ob created)"

definition or_abandon :: "object_row \<Rightarrow> bool \<Rightarrow> version_row option \<Rightarrow> ('n, 'a) act \<Rightarrow> ('n, 'a) act" where
  "or_abandon ob created version m = catchA m (\<lambda>e. thenA (abandon_upload ob created version) (raiseA e))"

definition commit_upload :: "'n client \<Rightarrow> replication_policy \<Rightarrow> object_row \<Rightarrow> version_row \<Rightarrow> staged_upload \<Rightarrow> int option \<Rightarrow> ('n, put_result) act" where
  "commit_upload c policy ob v st expected =
     bindA (replicate_version c policy (v_id v) (retA (staged_payload st)) None None expected) (\<lambda>res.
     bindA (live (\<lambda>d. case get_version_row d (v_id v) of None \<Rightarrow> v | Some x \<Rightarrow> x)) (\<lambda>committed.
     if v_state committed \<noteq> VS_COMMITTED then raiseA (VaultE (VaultError INTERNAL_ERROR 500)) else
     thenA commit
     (retA \<lparr>pr_object_id = o_id ob, pr_name = o_name ob, pr_version_id = v_id committed, pr_number = v_number committed,
        pr_size = v_size committed, pr_checksum = v_checksum committed, pr_replicas = rr_healthy res,
        pr_factor = pol_factor policy, pr_write_quorum = pol_write_quorum policy\<rparr>)))"

definition put_object :: "'n client \<Rightarrow> replication_policy \<Rightarrow> int \<Rightarrow> string \<Rightarrow> payload \<Rightarrow> int option \<Rightarrow> ('n, put_result) act" where
  "put_object c policy max_upload_bytes name body expected =
     bindA (from_result (normalize_object_name name)) (\<lambda>nm.
     bindA (from_result (stage_upload max_upload_bytes body)) (\<lambda>st.
     bindA (find_or_create nm) (\<lambda>(ob, created).
     bindA (or_abandon ob created None (bindA new_uuid (\<lambda>vi.
       transaction (create_version vi (o_id ob) (su_size st) (su_checksum st) expected)))) (\<lambda>v.
     or_abandon ob created (Some v) (commit_upload c policy ob v st expected)))))"

section \<open>Deleting an object\<close>

definition object_replicas :: "uuid \<Rightarrow> db \<Rightarrow> (replica_row \<times> node_row option \<times> version_row) list" where
  "object_replicas i d =
     concat (map (\<lambda>r. case get_version_row d (r_version_id r) of
       None \<Rightarrow> []
     | Some v \<Rightarrow> if v_object_id v = i then [(r, get_node_row d (r_node_id r), v)] else []) (replicas d))"

definition delete_one :: "'n client \<Rightarrow> replica_row \<times> node_row option \<times> version_row \<Rightarrow> (exn, 'n, replica_row \<times> string option \<times> bool) action" where
  "delete_one c x = (case x of (r, node, v) \<Rightarrow>
     (case node of
        None \<Rightarrow> retA (r, None, True)
      | Some n \<Rightarrow> catchA
          (thenA (c_delete c (n_address n) (uuid_str (v_object_id v)) (uuid_str (v_id v))) (retA (r, Some (n_id n), True)))
          (\<lambda>e. if is_client_error e then retA (r, Some (n_id n), False) else raiseA e)))"

text \<open>
  The coroutines of \<open>asyncio.gather\<close> run in list order; all of them are started, and the first exception
  is raised afterwards.
\<close>

definition gather_results :: "(exn + 'a) list \<Rightarrow> exn + 'a list" where
  "gather_results outs = (case filter isl outs of Inl e # _ \<Rightarrow> Inl e | _ \<Rightarrow> Inr (map projr outs))"

definition finish_deletion :: "object_row \<Rightarrow> (replica_row \<times> string option \<times> bool) list \<Rightarrow> ('n, string \<times> nat) act" where
  "finish_deletion ob results =
     (let gone = map fst (filter (\<lambda>x. snd (snd x)) results);
          failures = filter (\<lambda>x. \<not> snd (snd x) \<and> fst (snd x) \<noteq> None) results in
      thenA (modify (\<lambda>d. d\<lparr>replicas := filter (\<lambda>r. r_id r \<notin> r_id ` set gone) (replicas d)\<rparr>))
      (thenA commit
      (if failures \<noteq> [] then raiseA (VaultE (VaultError NODE_UNAVAILABLE 503))
       else thenA (transaction (transition_object_state (o_id ob) OS_DELETED))
            (thenA commit (retA (o_name ob, length gone))))))"

definition delete_replicas :: "'n client \<Rightarrow> object_row \<Rightarrow> ('n, string \<times> nat) act" where
  "delete_replicas c ob =
     bindA (query (object_replicas (o_id ob))) (\<lambda>rows.
     thenA (forA (\<lambda>x. case fst (snd x) of None \<Rightarrow> retA () | Some n \<Rightarrow> net_call (c_open c (n_address n))) rows)
     (bindA (forA (\<lambda>x. net_call (tryA (delete_one c x))) rows) (\<lambda>outs.
      bindA (from_result (gather_results outs)) (finish_deletion ob))))"

definition mark_deleting :: "object_row \<Rightarrow> ('n, unit) act" where
  "mark_deleting ob =
     (if o_state ob = OS_ACTIVE then thenA (transaction (transition_object_state (o_id ob) OS_DELETING)) (retA ()) else retA ())"

definition delete_object :: "'n client \<Rightarrow> string \<Rightarrow> ('n, string \<times> nat) act" where
  "delete_object c name =
     bindA (gateway_get_object name) (\<lambda>ob.
     if o_state ob = OS_DELETED then retA (o_name ob, 0) else
     thenA (mark_deleting ob) (delete_replicas c ob))"

section \<open>Choosing a replica to read\<close>

primrec preflight_read_target :: "'n client \<Rightarrow> string \<Rightarrow> string \<Rightarrow> node_row list \<Rightarrow> ('n, node_row \<times> node_row list) act" where
  "preflight_read_target c ob v [] = raiseA (VaultE (VaultError NODE_UNAVAILABLE 503))"
| "preflight_read_target c ob v (n # rest) =
     thenA (net_call (c_open c (n_address n)))
     (bindA (net_call (tryA (c_head c (n_address n) ob v))) (\<lambda>r.
      case r of
        Inr _ \<Rightarrow> retA (n, n # rest)
      | Inl e \<Rightarrow> if is_client_error e then preflight_read_target c ob v rest else raiseA e))"

section \<open>Failed uploads leave no trace\<close>

text \<open>The tables with the rows of one object and nothing else added.\<close>

definition extends :: "uuid \<Rightarrow> db \<Rightarrow> db \<Rightarrow> bool" where
  "extends i d0 d \<longleftrightarrow> remove_by o_id i (objects d) = objects d0 \<and>
     filter (\<lambda>v. v_object_id v \<noteq> i) (versions d) = versions d0 \<and> distinct (map v_id (versions d)) \<and>
     filter (\<lambda>r. r_id r \<in> r_id ` set (replicas d0)) (replicas d) = replicas d0 \<and>
     (\<forall>r\<in>set (replicas d). r_id r \<in> r_id ` set (replicas d0) \<or> r_version_id r \<in> version_ids d i) \<and>
     nodes d = nodes d0 \<and> repair_jobs d = repair_jobs d0 \<and> integrity_jobs d = integrity_jobs d0 \<and> rebalance_jobs d = rebalance_jobs d0"

lemma extends_fresh: "extends i d0 d \<Longrightarrow> version_ids d i \<inter> v_id ` set (versions d0) = {}"
proof -
  assume "extends i d0 d"
  then have v: "versions d0 = filter (\<lambda>v. v_object_id v \<noteq> i) (versions d)" "distinct (map v_id (versions d))" by (simp_all add: extends_def)
  show ?thesis using inj_onD [OF conjunct2 [OF v(2) [unfolded distinct_map]]] by (fastforce simp: v(1) version_ids_def)
qed

text \<open>The foreign key of the integrity jobs.\<close>

definition integrity_refs_ok :: "db \<Rightarrow> bool" where
  "integrity_refs_ok d \<longleftrightarrow> (\<forall>j\<in>set (integrity_jobs d). \<forall>v. ig_version_id j = Some v \<longrightarrow> v \<in> v_id ` set (versions d))"

lemma purge_extends:
  assumes inv: "db_inv d0" "integrity_refs_ok d0" and ext: "extends i d0 d"
  shows "purge_object i d = Inr ((), d0)"
proof -
  note fresh = extends_fresh [OF ext]
  have refs: "\<forall>j\<in>set (repair_jobs d0). rp_version_id j \<in> v_id ` set (versions d0)" "\<forall>j\<in>set (rebalance_jobs d0). rb_version_id j \<in> v_id ` set (versions d0)"
    "\<forall>j\<in>set (integrity_jobs d0). \<forall>v. ig_version_id j = Some v \<longrightarrow> v \<in> v_id ` set (versions d0)"
    "\<forall>r\<in>set (replicas d0). r_version_id r \<in> v_id ` set (versions d0)"
    using inv by (auto simp: inv_defs integrity_refs_ok_def)
  have "(r_version_id r \<notin> version_ids d i) = (r_id r \<in> r_id ` set (replicas d0))" if r: "r \<in> set (replicas d)" for r
  proof (cases "r_id r \<in> r_id ` set (replicas d0)")
    case True
    have old: "filter (\<lambda>r. r_id r \<in> r_id ` set (replicas d0)) (replicas d) = replicas d0" using ext unfolding extends_def by blast
    have "r \<in> set (filter (\<lambda>r. r_id r \<in> r_id ` set (replicas d0)) (replicas d))" using r True by simp
    then have "r \<in> set (replicas d0)" unfolding old .
    then show ?thesis using refs(4) fresh True by blast
  next
    case False
    then show ?thesis using ext r by (auto simp: extends_def)
  qed
  then have reps: "filter (\<lambda>r. r_version_id r \<notin> version_ids d i) (replicas d) = replicas d0"
    using ext by (simp add: extends_def cong: filter_cong)
  have jobs: "map (\<lambda>j. case ig_version_id j of Some v \<Rightarrow> if v \<in> version_ids d i then j\<lparr>ig_version_id := None\<rparr> else j | None \<Rightarrow> j)
      (integrity_jobs d0) = integrity_jobs d0"
    using refs(3) fresh by (intro map_idI) (auto split: option.splits)
  have "\<not> (\<exists>j\<in>set (repair_jobs d0). rp_version_id j \<in> version_ids d i)" "\<not> (\<exists>j\<in>set (rebalance_jobs d0). rb_version_id j \<in> version_ids d i)"
    using refs(1,2) fresh by blast+
  then show ?thesis using ext reps jobs by (simp add: purge_object_def Let_def extends_def)
qed

lemma version_ids_map:
  assumes "\<And>v. v_id (f v) = v_id v \<and> v_object_id (f v) = v_object_id v"
  shows "version_ids (d\<lparr>versions := map f (versions d)\<rparr>) i = version_ids d i"
  using assms by (simp add: version_ids_def filter_map comp_def image_image)

lemma extends_replicas:
  assumes ext: "extends i d0 d" and f: "\<And>r. r_id (f r) = r_id r \<and> r_version_id (f r) = r_version_id r"
    and same: "\<And>r. r_id r \<in> r_id ` set (replicas d0) \<Longrightarrow> f r = r"
  shows "extends i d0 (d\<lparr>replicas := map f (replicas d)\<rparr>)"
proof -
  have "filter (\<lambda>r. r_id r \<in> r_id ` set (replicas d0)) (map f (replicas d)) = map f (filter (\<lambda>r. r_id r \<in> r_id ` set (replicas d0)) (replicas d))"
    using f by (simp add: filter_map comp_def)
  also have "\<dots> = replicas d0" using ext same by (simp add: extends_def map_idI)
  finally show ?thesis using ext f by (simp add: extends_def version_ids_def)
qed

lemma extends_versions:
  assumes ext: "extends i d0 d" and f: "\<And>v. v_id (f v) = v_id v \<and> v_object_id (f v) = v_object_id v"
    and same: "\<And>v. v \<in> set (versions d) \<Longrightarrow> v_object_id v \<noteq> i \<Longrightarrow> f v = v"
  shows "extends i d0 (d\<lparr>versions := map f (versions d)\<rparr>)"
proof -
  have "filter (\<lambda>v. v_object_id v \<noteq> i) (map f (versions d)) = map f (filter (\<lambda>v. v_object_id v \<noteq> i) (versions d))"
    using f by (simp add: filter_map comp_def)
  also have "\<dots> = filter (\<lambda>v. v_object_id v \<noteq> i) (versions d)" using same by (intro map_idI) auto
  finally have v: "filter (\<lambda>v. v_object_id v \<noteq> i) (map f (versions d)) = versions d0" using ext by (simp add: extends_def)
  have "map v_id (map f (versions d)) = map v_id (versions d)" using f by (simp add: comp_def)
  then show ?thesis using ext v version_ids_map [OF f, of d i] by (simp add: extends_def del: map_map)
qed

lemma remove_update_same: "(\<And>r. key (f r) = key r) \<Longrightarrow> remove_by key i (update_by key i f t) = remove_by key i t"
  by (induction t) auto

lemma extends_object:
  assumes "extends i d0 d" "\<And>ob. o_id (f ob) = o_id ob"
  shows "extends i d0 (upd_object i f d)"
  using assms by (simp add: extends_def upd_object_def remove_update_same version_ids_def)

lemma extends_version_row:
  assumes ext: "extends i d0 d" and vid: "vid \<in> version_ids d i" and f: "\<And>v. v_id (f v) = v_id v \<and> v_object_id (f v) = v_object_id v"
  shows "extends i d0 (upd_version vid f d)"
proof -
  have "inj_on v_id (set (versions d))" using ext by (simp add: extends_def distinct_map)
  then have "v_object_id v = i" if "v \<in> set (versions d)" "v_id v = vid" for v
    using vid that by (auto simp: version_ids_def dest: inj_onD)
  then show ?thesis
    unfolding upd_version_def update_by_def using f by (intro extends_versions [OF ext]) auto
qed

text \<open>
  An upload under way: nothing is durable yet, and when it created its object the session holds the
  durable tables and the rows of that object.
\<close>

definition uploading :: "bool \<Rightarrow> uuid \<Rightarrow> uuid set \<Rightarrow> db \<Rightarrow> 'n world \<Rightarrow> bool" where
  "uploading created i V s w \<longleftrightarrow> unsaved s w \<and> (created \<longrightarrow> extends i s (view w) \<and> V \<subseteq> version_ids (view w) i)"

lemma uploading_quiet [keeps_rules]:
  "keeps (uploading b i V s) (query f)" "keeps (uploading b i V s) now" "keeps (uploading b i V s) new_uuid" "keeps (uploading b i V s) (live f)"
  "keeps (uploading b i V s) (net_call m)" "keeps (uploading b i V s) (from_result r)"
  by (auto simp: keeps_def uploading_def unsaved_def from_result_def session_defs net_call_def split: prod.splits sum.splits)

lemma uploading_uuids [keeps_rules]: "keeps (uploading b i V s) (new_uuids n)"
  by (induction n) (auto intro!: keeps_rules)

lemma uploading_transaction:
  assumes "\<And>d x d'. b \<Longrightarrow> V \<subseteq> version_ids d i \<Longrightarrow> body d = Inr (x, d') \<Longrightarrow> extends i s d \<Longrightarrow> extends i s d' \<and> version_ids d' i = version_ids d i"
  shows "keeps (uploading b i V s) (transaction body)"
  unfolding keeps_def
proof (intro allI impI)
  fix w :: "'n world"
  assume w: "uploading b i V s w"
  show "uploading b i V s (snd (transaction body w))"
  proof (cases "body (view w)")
    case (Inr y)
    then show ?thesis using w assms [of "view w" "fst y" "snd y"] by (cases y) (auto simp: uploading_def unsaved_def transaction_def)
  qed (use w in \<open>simp add: transaction_def\<close>)
qed

lemma version_ids_frame: "versions d' = versions d \<Longrightarrow> version_ids d' i = version_ids d i"
  by (simp add: version_ids_def)

lemma version_ids_upd: "(\<And>v. v_id (f v) = v_id v \<and> v_object_id (f v) = v_object_id v) \<Longrightarrow> version_ids (upd_version x f d) i = version_ids d i"
  unfolding upd_version_def update_by_def by (rule version_ids_map) auto

lemma extends_replica_row:
  "extends i s d \<Longrightarrow> rid \<notin> r_id ` set (replicas s) \<Longrightarrow> (\<And>r. r_id (f r) = r_id r \<and> r_version_id (f r) = r_version_id r) \<Longrightarrow>
   extends i s (upd_replica rid f d)"
  unfolding upd_replica_def update_by_def by (rule extends_replicas) auto

lemma extends_added:
  assumes ext: "extends i s d" and new: "\<forall>r\<in>set rs. r_version_id r \<in> version_ids d i" "\<forall>r\<in>set rs. r_id r \<notin> r_id ` set (replicas d)"
  shows "extends i s (d\<lparr>replicas := replicas d @ rs\<rparr>) \<and> (\<forall>r\<in>set rs. r_id r \<notin> r_id ` set (replicas s))"
proof -
  have "filter (\<lambda>r. r_id r \<in> r_id ` set (replicas s)) (replicas d) = replicas s" using ext unfolding extends_def by blast
  then have "set (replicas s) \<subseteq> set (replicas d)" by (metis filter_is_subset)
  then have fresh: "\<forall>r\<in>set rs. r_id r \<notin> r_id ` set (replicas s)" using new(2) by blast
  then have "filter (\<lambda>r. r_id r \<in> r_id ` set (replicas s)) rs = []" by (simp add: filter_empty_conv)
  then show ?thesis using ext new(1) fresh by (auto simp: extends_def version_ids_def)
qed

lemma create_replicas_extends:
  assumes "create_replicas ids vid ns d = Inr (rs, d')" "extends i s d" "vid \<in> version_ids d i"
  shows "extends i s d' \<and> version_ids d' i = version_ids d i \<and> (\<forall>r\<in>set rs. r_id r \<notin> r_id ` set (replicas s))"
proof -
  have d': "d' = d\<lparr>replicas := replicas d @ rs\<rparr>" "rs = new_replicas ids vid (map strip ns)" "\<forall>r\<in>set rs. r_id r \<notin> r_id ` set (replicas d)"
    using assms(1) by (auto simp: create_replicas_def Let_def split: if_splits)
  have "\<forall>r\<in>set rs. r_version_id r \<in> version_ids d i" using assms(3) by (auto simp: d'(2) new_replicas_def new_replica_def)
  then show ?thesis using extends_added [OF assms(2) _ d'(3)] d'(1) by (simp add: version_ids_def)
qed

lemma set_replica_states_extends:
  assumes "set_replica_states ids st d = Inr (x, d')" "extends i s d" "\<forall>j\<in>set ids. j \<notin> r_id ` set (replicas s)"
  shows "extends i s d' \<and> version_ids d' i = version_ids d i"
proof -
  have "d' = d \<or> d' = d\<lparr>replicas := map (\<lambda>r. if r_id r \<in> set ids then r\<lparr>r_status := st\<rparr> else r) (replicas d)\<rparr>"
    using assms(1) by (auto simp: set_replica_states_def Let_def split: if_splits)
  moreover have "extends i s (d\<lparr>replicas := map (\<lambda>r. if r_id r \<in> set ids then r\<lparr>r_status := st\<rparr> else r) (replicas d)\<rparr>)"
    using assms(3) by (intro extends_replicas [OF assms(2)]) auto
  ultimately show ?thesis using assms(2) version_ids_frame [of d' d i] by auto
qed

lemma version_ids_replica: "version_ids (upd_replica j f d) i = version_ids d i"
  by (simp add: version_ids_def upd_replica_def)

lemma replica_ops_extend:
  "set_replica_state rid st d = Inr (x, d') \<Longrightarrow> extends i s d \<Longrightarrow> rid \<notin> r_id ` set (replicas s) \<Longrightarrow> extends i s d' \<and> version_ids d' i = version_ids d i"
  "mark_replica_healthy t rid cs sz d = Inr (x, d') \<Longrightarrow> extends i s d \<Longrightarrow> rid \<notin> r_id ` set (replicas s) \<Longrightarrow> extends i s d' \<and> version_ids d' i = version_ids d i"
  by (auto simp: set_replica_state_def mark_replica_healthy_def result_iffs Let_def version_ids_replica split: if_splits intro!: extends_replica_row)

lemma fail_version_extends:
  "fail_version vid d = Inr (x, d') \<Longrightarrow> extends i s d \<Longrightarrow> vid \<in> version_ids d i \<Longrightarrow> extends i s d' \<and> version_ids d' i = version_ids d i"
  by (auto simp: fail_version_def result_iffs version_ids_upd split: if_splits intro!: extends_version_row)

lemma version_ids_object: "version_ids (upd_object j f d) i = version_ids d i"
  by (simp add: version_ids_def upd_object_def)

lemma commit_version_extends:
  assumes "commit_version t vid e d = Inr (x, d')" "extends i s d" "vid \<in> version_ids d i"
  shows "extends i s d' \<and> version_ids d' i = version_ids d i"
proof -
  obtain v ob where v: "get_version_row d vid = Some v" "get_object_row d (v_object_id v) = Some ob"
    and d': "d' = upd_object (o_id ob) (\<lambda>x. x\<lparr>o_current_version_id := Some (v_id v), o_state := OS_ACTIVE\<rparr>)
            (upd_version vid (\<lambda>x. x\<lparr>v_state := VS_COMMITTED, v_committed_at := Some t\<rparr>) d)"
    using assms(1) by (auto simp: commit_version_def lock_object_def result_iffs Let_def split: if_splits)
  have "inj_on v_id (set (versions d))" using assms(2) by (simp add: extends_def distinct_map)
  then have "v_object_id v = i" using lookup_by_SomeD [OF v(1)] assms(3) by (auto simp: version_ids_def dest: inj_onD)
  then have "o_id ob = i" using lookup_by_SomeD [OF v(2)] by simp
  then show ?thesis unfolding d'
    using extends_object [OF extends_version_row [OF assms(2,3)]] by (simp add: version_ids_object version_ids_upd)
qed

lemma uploading_replica_ops:
  assumes "b \<Longrightarrow> rid \<notin> r_id ` set (replicas s)"
  shows "keeps (uploading b i V s) (transaction (set_replica_state rid st))"
    "keeps (uploading b i V s) (transaction (mark_replica_healthy t rid cs sz))"
  by (rule uploading_transaction, rule replica_ops_extend, assumption+, erule assms)+

lemma uploading_record_write:
  "(b \<Longrightarrow> r_id (fst x) \<notin> r_id ` set (replicas s)) \<Longrightarrow> keeps (uploading b i V s) (record_write x)"
  unfolding record_write_def
  by (intro keeps_rules uploading_replica_ops) auto

lemma uploading_version_ops:
  assumes "vid \<in> V"
  shows "keeps (uploading b i V s) (transaction (fail_version vid))" "keeps (uploading b i V s) (transaction (commit_version t vid e))"
proof -
  show "keeps (uploading b i V s) (transaction (fail_version vid))"
    by (rule uploading_transaction, rule fail_version_extends, assumption+) (use assms in blast)
  show "keeps (uploading b i V s) (transaction (commit_version t vid e))"
    by (rule uploading_transaction, rule commit_version_extends, assumption+) (use assms in blast)
qed

lemma uploading_finish: "vid \<in> V \<Longrightarrow> keeps (uploading b i V s) (finish_version vid ns q e rs)"
  unfolding finish_version_def by (intro keeps_rules uploading_version_ops)

lemma uploading_create_replicas:
  assumes "vid \<in> V" "\<And>rs. (b \<Longrightarrow> \<forall>r\<in>set rs. r_id r \<notin> r_id ` set (replicas s)) \<Longrightarrow> keeps (uploading b i V s) (f rs)"
  shows "keeps (uploading b i V s) (bindA (transaction (create_replicas ids vid ns)) f)"
proof (rule keeps_bindA_when)
  show "keeps (uploading b i V s) (transaction (create_replicas ids vid ns))"
    by (rule uploading_transaction) (use assms(1) create_replicas_extends in blast)
  show "b \<longrightarrow> (\<forall>r\<in>set rs. r_id r \<notin> r_id ` set (replicas s))"
    if "uploading b i V s w" "transaction (create_replicas ids vid ns) w = (Inr rs, w')" for w w' rs
    using that(1) create_replicas_extends [OF transaction_InrD(1) [OF that(2)], of i s] assms(1) by (auto simp: uploading_def)
qed (use assms(2) in blast)

lemma uploading_replicate:
  assumes "vid \<in> V"
  shows "keeps (uploading b i V s) (replicate_version c p vid pf rf wq e)"
proof -
  have states: "keeps (uploading b i V s) (transaction (set_replica_states (map r_id rs) st))"
    if "b \<Longrightarrow> \<forall>r\<in>set rs. r_id r \<notin> r_id ` set (replicas s)" for rs st
    by (rule uploading_transaction, rule set_replica_states_extends, assumption+) (use that in auto)
  have writes: "keeps (uploading b i V s) (forA record_write (zip rs outs))"
    if "b \<Longrightarrow> \<forall>r\<in>set rs. r_id r \<notin> r_id ` set (replicas s)" for rs outs
    by (intro keeps_forA_in uploading_record_write) (use that in \<open>metis prod.collapse set_zip_leftD\<close>)
  show ?thesis
    unfolding replicate_version_def get_version_def select_nodes_def
    by (intro uploading_create_replicas assms states writes uploading_finish keeps_rules)
qed

lemma create_version_extends:
  assumes "create_version vi i sz cs e d = Inr (v, d')" "extends i s d"
  shows "extends i s d' \<and> v_id v \<in> version_ids d' i"
proof -
  have "d' = d\<lparr>versions := versions d @ [v]\<rparr>" "v_object_id v = i" "v_id v \<notin> v_id ` set (versions d)"
    using assms(1) by (auto simp: create_version_def result_iffs Let_def split: if_splits)
  then show ?thesis using assms(2) by (auto simp: extends_def version_ids_def)
qed

lemma create_object_extends:
  assumes "create_object i nm s = Inr (ob, d')" "db_inv s"
  shows "extends (o_id ob) s d'"
proof -
  have d': "d' = s\<lparr>objects := objects s @ [ob]\<rparr>" "o_id ob \<notin> o_id ` set (objects s)"
    using assms(1) by (auto simp: create_object_def result_iffs Let_def split: if_splits option.splits)
  have "remove_by o_id (o_id ob) (objects s @ [ob]) = objects s" using d'(2) by (simp add: remove_by_def filter_id_conv) (metis image_eqI)
  moreover have "filter (\<lambda>v. v_object_id v \<noteq> o_id ob) (versions s) = versions s"
    using d'(2) refs_object [OF assms(2)] by (simp add: filter_id_conv) metis
  moreover have "distinct (map v_id (versions s))" using assms(2) by (simp add: inv_defs)
  moreover have "filter (\<lambda>r. r_id r \<in> r_id ` set (replicas s)) (replicas s) = replicas s" by (simp add: filter_id_conv)
  ultimately show ?thesis by (simp add: extends_def d'(1))
qed

lemma unsaved_get_object [keeps_rules]: "keeps (unsaved s) (gateway_get_object nm)"
  unfolding gateway_get_object_def by (intro keeps_rules)

lemma find_or_create_uploading:
  assumes "db_inv s" "view w = s" "stored w = s"
  shows "find_or_create nm w = (Inl e, w') \<Longrightarrow> stored w' = s"
    "find_or_create nm w = (Inr (ob, created), w') \<Longrightarrow> uploading created (o_id ob) {} s w'"
proof -
  let ?w = "w\<lparr>in_tx := True\<rparr>"
  have "keeps (unsaved s) (case lookup_by o_name nm (objects s) of Some ob \<Rightarrow> retA (ob, False)
     | None \<Rightarrow> bindA new_uuid (\<lambda>i. catchA (bindA (transaction (create_object i nm)) (\<lambda>ob. retA (ob, True)))
           (\<lambda>e. case e of VaultE (ObjectAlreadyExists _) \<Rightarrow> bindA (gateway_get_object nm) (\<lambda>ob. retA (ob, False)) | _ \<Rightarrow> raiseA e)))" (is "keeps _ ?m")
    by (intro keeps_rules) (auto intro!: keeps_rules split: exn.split vault_error.split)
  moreover have run: "find_or_create nm w = ?m ?w" by (simp add: find_or_create_def bindA_query assms)
  ultimately have saved: "unsaved s w'" if "find_or_create nm w = (r, w')" for r
    using that assms(3) keepsD [of "unsaved s" ?m ?w r w'] by (simp add: unsaved_def)
  show "find_or_create nm w = (Inl e, w') \<Longrightarrow> stored w' = s" using saved by (simp add: unsaved_def)
  assume r: "find_or_create nm w = (Inr (ob, created), w')"
  have "extends (o_id ob) s (view w')" if created
    using r that assms(1,2) unfolding run
    by (auto simp: run_simps split: option.splits exn.splits vault_error.splits elim!: bindA_InrE catchA_InrE dest!: transaction_InrD(1) intro: create_object_extends)
  then show "uploading created (o_id ob) {} s w'" using saved [OF r] by (simp add: uploading_def)
qed

lemma uploading_fail_prepared:
  "(\<And>v. version = Some v \<Longrightarrow> v_id v \<in> V) \<Longrightarrow> keeps (uploading b i V s) (fail_prepared version)"
  unfolding fail_prepared_def by (intro keeps_rules uploading_version_ops) blast

lemma discard_restores:
  assumes "db_inv s" "integrity_refs_ok s" "uploading created (o_id ob) V s w" "discard_object ob created w = (r, w')"
  shows "stored w' = s"
proof (cases created)
  case True
  then have "purge_object (o_id ob) (view w) = Inr ((), s)" using purge_extends [OF assms(1,2)] assms(3) by (simp add: uploading_def)
  then show ?thesis using assms(3,4) True
    by (auto simp: discard_object_def run_simps catchA_def add_commit_def uploading_def unsaved_def split: if_splits)
next
  case False
  then show ?thesis using assms(3,4) by (auto simp: discard_object_def run_simps uploading_def unsaved_def)
qed

lemma abandon_restores:
  assumes "db_inv s" "integrity_refs_ok s" "uploading created (o_id ob) V s w" "\<And>v. version = Some v \<Longrightarrow> v_id v \<in> V"
    "abandon_upload ob created version w = (r, w')"
  shows "stored w' = s"
proof -
  obtain x w1 where f: "fail_prepared version w = (x, w1)" by (cases "fail_prepared version w")
  then have u: "uploading created (o_id ob) V s w1" using keepsD [OF uploading_fail_prepared assms(3) f] assms(4) by blast
  show ?thesis
  proof (cases x)
    case (Inl e)
    then show ?thesis using assms(5) f u by (auto simp: abandon_upload_def thenA_def bindA_def uploading_def unsaved_def)
  next
    case (Inr y)
    then show ?thesis using discard_restores [OF assms(1,2) u] assms(5) f by (auto simp: abandon_upload_def thenA_def bindA_def)
  qed
qed

lemma or_abandon_restores:
  fixes m :: "('n, 'a) act"
  assumes "db_inv s" "integrity_refs_ok s" "uploading created (o_id ob) V s w" "\<And>v. version = Some v \<Longrightarrow> v_id v \<in> V"
    "raises_keep (uploading created (o_id ob) V s) m" "or_abandon ob created version m w = (Inl e, w')"
  shows "stored w' = s"
proof -
  obtain e1 w1 where m: "m w = (Inl e1, w1)" and t: "thenA (abandon_upload ob created version) (raiseA e1 :: ('n, 'a) act) w1 = (Inl e, w')"
    using assms(6) by (auto simp: or_abandon_def catchA_def split: prod.splits sum.splits)
  obtain r w2 where "abandon_upload ob created version w1 = (r, w2)" by (cases "abandon_upload ob created version w1")
  moreover from this have "w' = w2" using t by (auto simp: thenA_def bindA_def raiseA_def split: sum.splits)
  ultimately show ?thesis using abandon_restores [OF assms(1,2) raises_keepD [OF assms(5,3) m] assms(4)] by blast
qed

lemma or_abandon_InrD: "or_abandon ob created version m w = (Inr x, w') \<Longrightarrow> m w = (Inr x, w')"
  by (auto simp: or_abandon_def catchA_def thenA_def bindA_def raiseA_def split: prod.splits sum.splits)

lemma commit_upload_raises:
  "v_id v \<in> V \<Longrightarrow> raises_keep (uploading b i V s) (commit_upload c p ob v st e)"
  unfolding commit_upload_def
  by (intro raises_bindA uploading_replicate raises_if raises_raiseA uploading_quiet)
    (auto simp: raises_keep_def thenA_def bindA_def commit_def retA_def)

lemma version_upload:
  assumes "bindA new_uuid (\<lambda>vi. transaction (create_version vi i sz cs e)) w = (Inr v, w')" "uploading created i {} s w"
  shows "uploading created i {v_id v} s w'"
proof -
  let ?w = "w\<lparr>uuid_pos := Suc (uuid_pos w)\<rparr>"
  have t: "transaction (create_version (uuid_feed w (uuid_pos w)) i sz cs e) ?w = (Inr v, w')" using assms(1) by (simp add: run_simps)
  have "unsaved s w'" using assms(2) t by (auto simp: uploading_def unsaved_def transaction_def split: sum.splits)
  moreover have "extends i s (view w') \<and> v_id v \<in> version_ids (view w') i" if created
    using create_version_extends [OF transaction_InrD(1) [OF t], of s] assms(2) that by (simp add: uploading_def)
  ultimately show ?thesis by (simp add: uploading_def)
qed

lemma version_upload_raises:
  "raises_keep (uploading created i {} s) (bindA new_uuid (\<lambda>vi. transaction (create_version vi i sz cs e)))"
  by (auto simp: raises_keep_def run_simps uploading_def unsaved_def transaction_def split: sum.splits)

lemma put_raises_restores:
  assumes put: "put_object c policy max_bytes name body expected w = (Inl e, w')"
    and w: "view w = s" "stored w = s" and inv: "db_inv s" "integrity_refs_ok s"
  shows "stored w' = s"
proof (cases "\<exists>nm st. normalize_object_name name = Inr nm \<and> stage_upload max_bytes body = Inr st")
  case True
  then obtain nm st where st: "normalize_object_name name = Inr nm" "stage_upload max_bytes body = Inr st" by blast
  let ?rest = "\<lambda>(ob, created). bindA (or_abandon ob created None (bindA new_uuid (\<lambda>vi.
       transaction (create_version vi (o_id ob) (su_size st) (su_checksum st) expected)))) (\<lambda>v.
     or_abandon ob created (Some v) (commit_upload c policy ob v st expected))"
  have "bindA (find_or_create nm) ?rest w = (Inl e, w')" using put st by (simp add: put_object_def run_simps)
  then show ?thesis
  proof (cases rule: bindA_InlE)
    case first
    then show ?thesis by (rule find_or_create_uploading(1) [OF inv(1) w])
  next
    case (second x w1)
    obtain ob created where x: "x = (ob, created)" by (cases x)
    have u: "uploading created (o_id ob) {} s w1" using find_or_create_uploading(2) [OF inv(1) w] second(1) x by blast
    from second(2) show ?thesis unfolding x case_prod_conv
    proof (cases rule: bindA_InlE)
      case first
      then show ?thesis by (rule or_abandon_restores [OF inv u _ version_upload_raises, rotated]) simp
    next
      case (second v w2)
      have "uploading created (o_id ob) {v_id v} s w2" by (rule version_upload [OF or_abandon_InrD [OF second(1)] u])
      then show ?thesis by (rule or_abandon_restores [OF inv _ _ commit_upload_raises second(2)]) simp_all
    qed
  qed
qed (use put w in \<open>auto simp: put_object_def run_simps split: sum.splits\<close>)

text \<open>
  C3. An upload that fails leaves no trace in the metadata: whatever the gateway raises, be it a bad name, a
  body that is too large or breaks off, a version conflict, a node that does not answer or a missed quorum,
  the durable tables after the request are those before it, and neither the object the request created nor
  its version or replicas remain.
\<close>

theorem gateway_put_atomic:
  assumes "session_scope (put_object c policy max_bytes name body expected) w = (Inl e, w')"
    "db_inv (stored w)" "integrity_refs_ok (stored w)"
  shows "stored w' = stored w \<and> view w' = stored w"
proof -
  obtain w1 where "put_object c policy max_bytes name body expected (w\<lparr>view := stored w, in_tx := False\<rparr>) = (Inl e, w1)" "w' = snd (rollback w1)"
    using assms(1) by (auto simp: session_scope_def split: prod.splits)
  moreover from put_raises_restores [OF this(1) _ _ assms(2,3)] have "stored w1 = stored w" by simp
  ultimately show ?thesis by (simp add: rollback_def)
qed

section \<open>What a successful upload has done\<close>

lemma stage_chunks_all:
  "stage_chunks m written cs = Inr out \<Longrightarrow> int (length written) \<le> m \<Longrightarrow> out = written @ concat cs \<and> int (length out) \<le> m"
  by (induction cs arbitrary: written) (fastforce split: if_splits)+

lemma stage_upload_InrD:
  assumes "stage_upload m body = Inr st"
  shows "abort body = None" "su_data st = concat (chunks body)" "su_size st = int (length (su_data st))" "su_checksum st = sha256 (su_data st)"
    "int (length (su_data st)) \<le> m"
  using assms stage_chunks_all [of m "[]" "chunks body"]
  by (auto simp: stage_upload_def bindE_Inr_iff split: if_splits option.splits)

lemma staged_payload_data: "abort (staged_payload st) = None" "concat (chunks (staged_payload st)) = su_data st"
  by (simp_all add: staged_payload_def file_chunks_def DEFAULT_CHUNK_SIZE_MB_def concat_group)

lemma create_object_InrD:
  assumes "create_object i nm d = Inr (ob, d')" "normalize_object_name nm = Inr nm"
  shows "d' = d\<lparr>objects := objects d @ [ob]\<rparr>" "o_name ob = nm" "o_current_version_id ob = None" "lookup_by o_name nm (objects d) = None"
  using assms by (auto simp: create_object_def result_iffs Let_def split: if_splits option.splits)

lemma find_or_create_cases:
  assumes "find_or_create nm w = (Inr (ob, created), w')" "normalize_object_name nm = Inr nm"
  obtains (found) "lookup_by o_name nm (objects (view w)) = Some ob" "\<not> created" "view w' = view w" "net w' = net w"
  | (created) i where "lookup_by o_name nm (objects (view w)) = None" created "create_object i nm (view w) = Inr (ob, view w')" "net w' = net w"
proof (cases "lookup_by o_name nm (objects (view w))")
  case (Some y)
  then show thesis using assms(1) found by (auto simp: find_or_create_def run_simps)
next
  case None
  let ?w = "w\<lparr>in_tx := True, uuid_pos := Suc (uuid_pos w)\<rparr>"
  have run: "catchA (bindA (transaction (create_object (uuid_feed w (uuid_pos w)) nm)) (\<lambda>ob. retA (ob, True)))
      (\<lambda>e. case e of VaultE (ObjectAlreadyExists _) \<Rightarrow> bindA (gateway_get_object nm) (\<lambda>ob. retA (ob, False)) | _ \<Rightarrow> raiseA e) ?w = (Inr (ob, created), w')"
    using assms(1) None by (simp add: find_or_create_def run_simps)
  have "\<nexists>x. create_object (uuid_feed w (uuid_pos w)) nm (view w) = Inl (VaultE (ObjectAlreadyExists x))"
    using assms(2) None by (simp add: create_object_def Let_def)
  then obtain y d' where "create_object (uuid_feed w (uuid_pos w)) nm (view w) = Inr (y, d')"
    using run by (auto simp: catchA_def bindA_def transaction_def raiseA_def split: sum.splits exn.splits vault_error.splits prod.splits)
  then show thesis using run None created [of "uuid_feed w (uuid_pos w)"]
    by (auto simp: catchA_def bindA_def transaction_def retA_def)
qed

lemma put_stages:
  assumes "put_object c policy m name body e w = (Inr res, w')"
  obtains nm st ob created w1 vi v w2 rr w3 x where "normalize_object_name name = Inr nm" "stage_upload m body = Inr st"
    "find_or_create nm w = (Inr (ob, created), w1)"
    "create_version vi (o_id ob) (su_size st) (su_checksum st) e (view w1) = Inr (v, view w2)" "net w2 = net w1"
    "replicate_version c policy (v_id v) (retA (staged_payload st)) None None e w2 = (Inr rr, w3)"
    "x = (case get_version_row (view w3) (v_id v) of None \<Rightarrow> v | Some x \<Rightarrow> x)"
    "res = \<lparr>pr_object_id = o_id ob, pr_name = o_name ob, pr_version_id = v_id x, pr_number = v_number x,
        pr_size = v_size x, pr_checksum = v_checksum x, pr_replicas = rr_healthy rr,
        pr_factor = pol_factor policy, pr_write_quorum = pol_write_quorum policy\<rparr>"
    "w' = w3\<lparr>stored := view w3, in_tx := False\<rparr>"
proof -
  obtain nm st where st: "normalize_object_name name = Inr nm" "stage_upload m body = Inr st"
    using assms by (auto simp: put_object_def run_simps split: sum.splits)
  then obtain ob created w1 v w2 where f: "find_or_create nm w = (Inr (ob, created), w1)"
    and v: "transaction (create_version (uuid_feed w1 (uuid_pos w1)) (o_id ob) (su_size st) (su_checksum st) e) (w1\<lparr>uuid_pos := Suc (uuid_pos w1)\<rparr>) = (Inr v, w2)"
    and c: "commit_upload c policy ob v st e w2 = (Inr res, w')"
    using assms by (auto simp: put_object_def from_result_run new_uuid_def elim!: bindA_InrE dest!: or_abandon_InrD)
  have t: "create_version (uuid_feed w1 (uuid_pos w1)) (o_id ob) (su_size st) (su_checksum st) e (view w1) = Inr (v, view w2)" "net w2 = net w1"
    using transaction_InrD [OF v] by simp_all
  obtain rr w3 where r: "replicate_version c policy (v_id v) (retA (staged_payload st)) None None e w2 = (Inr rr, w3)"
    using c by (auto simp: commit_upload_def elim!: bindA_InrE)
  show thesis using c r
    by (intro that [OF st f t r refl]) (auto simp: commit_upload_def bindA_def live_def thenA_commit ret_raise_run split: if_splits)
qed

lemma found_object:
  assumes run: "find_or_create nm w = (Inr (ob, created), w')" and inv: "db_inv (view w)" and nm: "normalize_object_name nm = Inr nm"
  shows "db_inv (view w')" "lookup_by o_name nm (objects (view w')) = Some ob" "versions (view w') = versions (view w)" "replicas (view w') = replicas (view w)"
    "nodes (view w') = nodes (view w)" "net w' = net w" "current_number (view w') (o_id ob) = current_number (view w) (o_id ob)"
    "{x \<in> set (objects (view w')). o_name x \<noteq> nm} = {x \<in> set (objects (view w)). o_name x \<noteq> nm}" "jobs_are (view w) (view w')"
proof -
  have "db_inv (view w') \<and> lookup_by o_name nm (objects (view w')) = Some ob \<and> versions (view w') = versions (view w) \<and> replicas (view w') = replicas (view w) \<and>
    nodes (view w') = nodes (view w) \<and> net w' = net w \<and> current_number (view w') (o_id ob) = current_number (view w) (o_id ob) \<and>
    {x \<in> set (objects (view w')). o_name x \<noteq> nm} = {x \<in> set (objects (view w)). o_name x \<noteq> nm} \<and> jobs_are (view w) (view w')"
    using run nm
  proof (cases rule: find_or_create_cases)
    case found
    then show ?thesis using inv by (simp add: jobs_are_def)
  next
    case (created i)
    note c = create_object_InrD [OF created(3) nm]
    have "o_id ob \<notin> o_id ` set (objects (view w))" using created(3) by (auto simp: create_object_def result_iffs Let_def split: if_splits option.splits)
    then have "get_object_row (view w) (o_id ob) = None" by (simp add: lookup_by_None_iff)
    then show ?thesis using create_object_inv [OF created(3) inv] c created(4)
      by (auto simp: lookup_by_append current_number_def jobs_are_def)
  qed
  then show "db_inv (view w')" "lookup_by o_name nm (objects (view w')) = Some ob" "versions (view w') = versions (view w)" "replicas (view w') = replicas (view w)"
    "nodes (view w') = nodes (view w)" "net w' = net w" "current_number (view w') (o_id ob) = current_number (view w) (o_id ob)"
    "{x \<in> set (objects (view w')). o_name x \<noteq> nm} = {x \<in> set (objects (view w)). o_name x \<noteq> nm}" "jobs_are (view w) (view w')" by simp_all
qed

lemma create_version_InrD:
  assumes "create_version vi i sz cs e d = Inr (v, d')"
  shows "d' = d\<lparr>versions := versions d @ [v]\<rparr>" "v_object_id v = i" "v_size v = sz" "v_checksum v = lower cs" "v_id v \<notin> v_id ` set (versions d)"
    "\<forall>x\<in>set (versions d). v_object_id x = i \<longrightarrow> v_number x < v_number v" "\<forall>n. e = Some n \<longrightarrow> n = current_number d i"
    "get_version_row d' (v_id v) = Some v"
proof -
  obtain ob current where ob: "get_object_row d i = Some ob" "current_version_number ob d = Inr current" "expected_matches e current"
    and v: "v_number v = (case max_version_number d i of None \<Rightarrow> 0 | Some m \<Rightarrow> m) + 1"
    and d': "d' = d\<lparr>versions := versions d @ [v]\<rparr>" "v_object_id v = i" "v_size v = sz" "v_checksum v = lower cs" "v_id v \<notin> v_id ` set (versions d)"
    using assms by (auto simp: create_version_def lock_object_def result_iffs Let_def split: if_splits dest!: validate_checksum_Inr)
  show "\<forall>x\<in>set (versions d). v_object_id x = i \<longrightarrow> v_number x < v_number v" using max_version_number_ge [of _ d i] v by fastforce
  show "\<forall>n. e = Some n \<longrightarrow> n = current_number d i"
    using ob by (auto simp: current_number_def current_version_number_def expected_matches_def result_iffs split: option.splits)
  have "get_version_row d (v_id v) = None" using d'(5) by (simp add: lookup_by_None_iff)
  then show "get_version_row d' (v_id v) = Some v" using d'(1) by (simp add: lookup_by_append)
  show "d' = d\<lparr>versions := versions d @ [v]\<rparr>" "v_object_id v = i" "v_size v = sz" "v_checksum v = lower cs" "v_id v \<notin> v_id ` set (versions d)"
    by (fact d')+
qed

lemma updated_rows:
  assumes "distinct (map key t)" "lookup_by key k t = Some r"
  shows "set (update_by key k f t) = insert (f r) {x \<in> set t. key x \<noteq> k}"
proof -
  have r: "r \<in> set t" "key r = k" using lookup_by_SomeD [OF assms(2)] by auto
  have "x = r" if "x \<in> set t" "key x = k" for x using that r assms(1) by (metis distinct_map inj_onD)
  then have "set t = insert r {x \<in> set t. key x \<noteq> k}" using r(1) by blast
  then have "set (update_by key k f t) = (\<lambda>x. if key x = k then f x else x) ` insert r {x \<in> set t. key x \<noteq> k}"
    unfolding update_by_def set_map by (rule arg_cong)
  also have "\<dots> = insert (f r) {x \<in> set t. key x \<noteq> k}" unfolding image_insert using r(2) by (simp add: image_def)
  finally show ?thesis .
qed

lemma committed_rows:
  assumes "commit_version t vid e d = Inr (x, d')" "db_inv d" "get_version_row d vid = Some v" "lookup_by o_name nm (objects d) = Some ob" "v_object_id v = o_id ob"
  shows "lookup_by o_name nm (objects d') = Some (ob\<lparr>o_current_version_id := Some vid, o_state := OS_ACTIVE\<rparr>)"
    "get_version_row d' vid = Some (v\<lparr>v_state := VS_COMMITTED, v_committed_at := Some t\<rparr>)" "nodes d' = nodes d" "replicas d' = replicas d"
    "set (versions d') = insert (v\<lparr>v_state := VS_COMMITTED, v_committed_at := Some t\<rparr>) {x \<in> set (versions d). v_id x \<noteq> vid}"
    "{x \<in> set (objects d'). o_name x \<noteq> nm} = {x \<in> set (objects d). o_name x \<noteq> nm}"
proof -
  obtain y and ob' :: object_row where c: "get_version_row d vid = Some y" "get_object_row d (v_object_id y) = Some ob'"
    "d' = upd_object (o_id ob') (\<lambda>x. x\<lparr>o_current_version_id := Some vid, o_state := OS_ACTIVE\<rparr>)
       (upd_version vid (\<lambda>x. x\<lparr>v_state := VS_COMMITTED, v_committed_at := Some t\<rparr>) d)"
    using assms(1,2) by (rule commit_version_shape) blast
  have ob: "ob \<in> set (objects d)" "o_name ob = nm" using lookup_by_SomeD [OF assms(4)] by auto
  then have "get_object_row d (o_id ob) = Some ob" using lookup_by_Some_iff [OF db_inv_distinct(1) [OF assms(2)]] by blast
  then have same: "ob' = ob" "y = v" using c(1,2) assms(3,5) by simp_all
  have "ob\<lparr>o_current_version_id := Some vid, o_state := OS_ACTIVE\<rparr> \<in> set (objects d')"
    using ob(1) by (auto simp: c(3) same upd_object_def upd_version_def update_by_def)
  then show "lookup_by o_name nm (objects d') = Some (ob\<lparr>o_current_version_id := Some vid, o_state := OS_ACTIVE\<rparr>)"
    unfolding lookup_by_Some_iff [OF db_inv_distinct(2) [OF commit_version_inv [OF assms(1,2)]]] using ob(2) by simp
  show "get_version_row d' vid = Some (v\<lparr>v_state := VS_COMMITTED, v_committed_at := Some t\<rparr>)" "nodes d' = nodes d" "replicas d' = replicas d"
    using assms(3) by (simp_all add: c(3) row_lookups)
  let ?f = "\<lambda>x. x\<lparr>v_state := VS_COMMITTED, v_committed_at := Some t\<rparr>" and ?g = "\<lambda>x. x\<lparr>o_current_version_id := Some vid, o_state := OS_ACTIVE\<rparr>"
  have tabs: "versions d' = update_by v_id vid ?f (versions d)" "objects d' = update_by o_id (o_id ob) ?g (objects d)"
    by (simp_all add: c(3) same upd_object_def upd_version_def)
  show "set (versions d') = insert (?f v) {x \<in> set (versions d). v_id x \<noteq> vid}"
    unfolding tabs(1) by (rule updated_rows [OF db_inv_distinct(3) [OF assms(2)] assms(3)])
  have "get_object_row d (o_id ob) = Some ob" using lookup_by_Some_iff [OF db_inv_distinct(1) [OF assms(2)]] ob by blast
  from updated_rows [OF db_inv_distinct(1) [OF assms(2)] this]
  have "set (objects d') = insert (?g ob) {x \<in> set (objects d). o_id x \<noteq> o_id ob}" unfolding tabs(2) .
  moreover have "x = ob" if "x \<in> set (objects d)" "o_id x = o_id ob" for x
    using that ob(1) db_inv_distinct(1) [OF assms(2)] by (meson distinct_map inj_onD)
  ultimately show "{x \<in> set (objects d'). o_name x \<noteq> nm} = {x \<in> set (objects d). o_name x \<noteq> nm}"
    using ob(2) by fastforce
qed

lemma put_durable:
  assumes "put_object c policy max_bytes name body expected w = (Inr res, w')" "db_inv (view w)" "data = concat (chunks body)"
  shows "\<exists>nm ob v. normalize_object_name name = Inr nm \<and> abort body = None \<and> int (length data) \<le> max_bytes \<and>
    stored w' = view w' \<and> db_inv (stored w') \<and>
    lookup_by o_name nm (objects (stored w')) = Some ob \<and> o_state ob = OS_ACTIVE \<and> o_current_version_id ob = Some (v_id v) \<and>
    get_version_row (stored w') (v_id v) = Some v \<and> v_state v = VS_COMMITTED \<and> v_object_id v = o_id ob \<and>
    v_checksum v = sha256 data \<and> v_size v = int (length data) \<and>
    (\<forall>x\<in>set (versions (view w)). v_object_id x = o_id ob \<longrightarrow> v_number x < v_number v) \<and>
    (\<forall>n. expected = Some n \<longrightarrow> n = current_number (view w) (o_id ob)) \<and>
    pr_object_id res = o_id ob \<and> pr_name res = nm \<and> pr_version_id res = v_id v \<and> pr_number res = v_number v \<and>
    pr_size res = int (length data) \<and> pr_checksum res = sha256 data \<and>
    distinct (pr_replicas res) \<and> pol_write_quorum policy \<le> int (length (pr_replicas res)) \<and>
    (\<forall>i\<in>set (pr_replicas res). \<exists>r. replica_on (stored w') (v_id v) i = Some r \<and> r_status r = RS_HEALTHY) \<and>
    set (versions (stored w')) = insert v (set (versions (view w))) \<and>
    {x \<in> set (objects (stored w')). o_name x \<noteq> nm} = {x \<in> set (objects (view w)). o_name x \<noteq> nm} \<and>
    set (replicas (view w)) \<subseteq> set (replicas (stored w')) \<and>
    (\<forall>r\<in>set (replicas (stored w')). r \<in> set (replicas (view w)) \<or> r_version_id r = v_id v) \<and>
    nodes (stored w') = nodes (view w) \<and> repair_jobs (stored w') = repair_jobs (view w) \<and>
    rebalance_jobs (stored w') = rebalance_jobs (view w) \<and> integrity_jobs (stored w') = integrity_jobs (view w)"
proof -
  obtain nm st ob created w1 vi v w2 rr w3 x where s: "normalize_object_name name = Inr nm" "stage_upload max_bytes body = Inr st"
    "find_or_create nm w = (Inr (ob, created), w1)"
    "create_version vi (o_id ob) (su_size st) (su_checksum st) expected (view w1) = Inr (v, view w2)" "net w2 = net w1"
    "replicate_version c policy (v_id v) (retA (staged_payload st)) None None expected w2 = (Inr rr, w3)"
    "x = (case get_version_row (view w3) (v_id v) of None \<Rightarrow> v | Some x \<Rightarrow> x)"
    "res = \<lparr>pr_object_id = o_id ob, pr_name = o_name ob, pr_version_id = v_id x, pr_number = v_number x,
        pr_size = v_size x, pr_checksum = v_checksum x, pr_replicas = rr_healthy rr,
        pr_factor = pol_factor policy, pr_write_quorum = pol_write_quorum policy\<rparr>"
    "w' = w3\<lparr>stored := view w3, in_tx := False\<rparr>"
    by (rule put_stages [OF assms(1)])
  have nm: "normalize_object_name nm = Inr nm" using s(1) by (auto simp: normalize_object_name_eq split: if_splits)
  note st = stage_upload_InrD [OF s(2)] and f = found_object [OF s(3) assms(2) nm] and v = create_version_InrD [OF s(4)]
  have inv2: "db_inv (view w2)" by (rule create_version_inv [OF s(4) f(1)])
  obtain d t y where d: "db_inv d" "objects d = objects (view w2)" "versions d = versions (view w2)" "commit_version t (v_id v) expected d = Inr (y, view w3)"
    "pol_write_quorum policy \<le> int (length (rr_healthy rr))" "distinct (rr_healthy rr)"
    "\<forall>n\<in>set (rr_healthy rr). \<exists>r. replica_on d (v_id v) n = Some r \<and> r_status r = RS_HEALTHY"
    by (rule replicate_version_effect [OF inv2 s(6) refl refl]) simp
  have "lookup_by o_name nm (objects d) = Some ob" using f(2) v(1) d(2) by simp
  moreover have "get_version_row d (v_id v) = Some v" using v(8) d(3) by simp
  ultimately have c: "lookup_by o_name nm (objects (view w3)) = Some (ob\<lparr>o_current_version_id := Some (v_id v), o_state := OS_ACTIVE\<rparr>)"
    "get_version_row (view w3) (v_id v) = Some (v\<lparr>v_state := VS_COMMITTED, v_committed_at := Some t\<rparr>)" "replicas (view w3) = replicas d"
    "set (versions (view w3)) = insert (v\<lparr>v_state := VS_COMMITTED, v_committed_at := Some t\<rparr>) {x \<in> set (versions d). v_id x \<noteq> v_id v}"
    "{x \<in> set (objects (view w3)). o_name x \<noteq> nm} = {x \<in> set (objects d). o_name x \<noteq> nm}"
    using committed_rows [OF d(4,1), of v nm ob] v(2) by simp_all
  note kept = replicate_version_frame [OF inv2 s(6)]
  let ?v = "v\<lparr>v_state := VS_COMMITTED, v_committed_at := Some t\<rparr>" and ?ob = "ob\<lparr>o_current_version_id := Some (v_id v), o_state := OS_ACTIVE\<rparr>"
  have x: "x = ?v" using s(7) c(2) by simp
  have "o_name ob = nm" using lookup_by_SomeD [OF f(2)] by simp
  moreover have "v_checksum v = sha256 data" "v_size v = int (length data)" using st v(3,4) assms(3) by (simp_all add: lower_sha256)
  moreover have "\<forall>i\<in>set (rr_healthy rr). \<exists>r. replica_on (view w3) (v_id v) i = Some r \<and> r_status r = RS_HEALTHY"
    using d(7) c(3) by (simp add: replica_on_def)
  moreover have "db_inv (view w3)" by (rule commit_version_inv [OF d(4,1)])
  moreover have "set (versions (view w3)) = insert ?v (set (versions (view w)))" using c(4) d(3) v(1,5) f(3) by (auto simp: image_iff)
  moreover have "{x \<in> set (objects (view w3)). o_name x \<noteq> nm} = {x \<in> set (objects (view w)). o_name x \<noteq> nm}" using c(5) d(2) v(1) f(8) by simp
  moreover have "nodes (view w3) = nodes (view w)" "jobs_are (view w) (view w3)" using kept(1,2) f(5,9) v(1) by (simp_all add: jobs_are_def)
  moreover have "set (replicas (view w)) \<subseteq> set (replicas (view w3))" "\<forall>r\<in>set (replicas (view w3)). r \<in> set (replicas (view w)) \<or> r_version_id r = v_id v"
    using kept(3,4) f(4) v(1) by simp_all
  ultimately show ?thesis
    using s(1) st(1,2,5) assms(3) c(1,2) d(5,6) v(2,6,7) f(3,7)
    by (intro exI [of _ nm] exI [of _ ?ob] exI [of _ ?v]) (simp add: s(8,9) x jobs_are_def)
qed

lemma replicate_quorum_positive:
  "replicate_version c p v pf None None e w = (Inr rr, w') \<Longrightarrow> 1 \<le> pol_write_quorum p"
  by (auto simp: replicate_version_def Let_def raiseA_def split: if_splits)

text \<open>The replicas an upload reports are the HEALTHY ones of the new version, on HEALTHY nodes.\<close>

lemma put_replicas:
  assumes put: "put_object c policy max_bytes name body expected w = (Inr res, w')" and inv: "db_inv (view w)"
  shows "nodes (view w') = nodes (view w)" "pr_replicas res \<noteq> []"
    "set (pr_replicas res) \<subseteq> n_id ` {n \<in> set (nodes (view w)). n_status n = NS_HEALTHY}"
    "r \<in> set (replicas (view w')) \<Longrightarrow> r_version_id r = pr_version_id res \<Longrightarrow> r_status r = RS_HEALTHY \<Longrightarrow> r_node_id r \<in> set (pr_replicas res)"
proof -
  obtain nm st ob created w1 vi v w2 rr w3 x where s: "normalize_object_name name = Inr nm" "find_or_create nm w = (Inr (ob, created), w1)"
    "create_version vi (o_id ob) (su_size st) (su_checksum st) expected (view w1) = Inr (v, view w2)"
    "replicate_version c policy (v_id v) (retA (staged_payload st)) None None expected w2 = (Inr rr, w3)"
    "x = (case get_version_row (view w3) (v_id v) of None \<Rightarrow> v | Some x \<Rightarrow> x)" "pr_version_id res = v_id x" "pr_replicas res = rr_healthy rr"
    "w' = w3\<lparr>stored := view w3, in_tx := False\<rparr>"
    by (rule put_stages [OF put]) simp
  have nm: "normalize_object_name nm = Inr nm" using s(1) by (auto simp: normalize_object_name_eq split: if_splits)
  note f = found_object [OF s(2) inv nm] and v = create_version_InrD [OF s(3)]
  have inv2: "db_inv (view w2)" by (rule create_version_inv [OF s(3) f(1)])
  obtain d t y where d: "db_inv d" "objects d = objects (view w2)" "versions d = versions (view w2)" "nodes d = nodes (view w2)"
    "commit_version t (v_id v) expected d = Inr (y, view w3)" "set (rr_healthy rr) \<union> set (rr_failed rr) = set (rr_selected rr)"
    "pol_write_quorum policy \<le> int (length (rr_healthy rr))" "set (rr_selected rr) \<subseteq> n_id ` {n \<in> set (nodes d). n_status n = NS_HEALTHY}"
    "\<forall>r\<in>set (replicas d). r_version_id r = v_id v \<and> r_status r = RS_HEALTHY \<longrightarrow> r \<in> set (replicas (view w2)) \<or> r_node_id r \<in> set (rr_healthy rr)"
    by (rule replicate_version_effect [OF inv2 s(4) refl refl]) simp
  have c: "nodes (view w3) = nodes d" "replicas (view w3) = replicas d" "x = v\<lparr>v_state := VS_COMMITTED, v_committed_at := Some t\<rparr>"
    using committed_rows [OF d(5,1), of v nm ob] f(2) v(1,2,8) d(2,3) s(5) by simp_all
  have n: "nodes (view w2) = nodes (view w)" using f(5) v(1) by simp
  show "nodes (view w') = nodes (view w)" using c(1) d(4) n s(8) by simp
  show "pr_replicas res \<noteq> []" using d(7) replicate_quorum_positive [OF s(4)] s(7) by auto
  show "set (pr_replicas res) \<subseteq> n_id ` {n \<in> set (nodes (view w)). n_status n = NS_HEALTHY}" using d(4,6,8) n s(7) by auto
  assume r: "r \<in> set (replicas (view w'))" "r_version_id r = pr_version_id res" "r_status r = RS_HEALTHY"
  have refs: "r_version_id ` set (replicas (view w1)) \<subseteq> v_id ` set (versions (view w1))" using f(1) by (simp add: inv_defs)
  have "r_version_id r' \<noteq> v_id v" if "r' \<in> set (replicas (view w2))" for r'
  proof -
    have "r_version_id r' \<in> r_version_id ` set (replicas (view w1))" using that v(1) by simp
    then show ?thesis using refs v(5) by auto
  qed
  then show "r_node_id r \<in> set (pr_replicas res)" using r d(9) c(2,3) s(6,7,8) by auto
qed

text \<open>
  C2. An upload that succeeds is durable and complete. When the gateway answers a PUT, the durable tables
  name a committed version as the current one of the object of that (normalised) name; its checksum and
  size are the SHA-256 and the length of the bytes of the request, its number is larger than that of
  every earlier version, an expected version in the request was the current one before, and at least a
  write quorum of distinct nodes holds a HEALTHY replica of it. Nothing else has changed: the versions are the
  earlier ones and this one, the objects of other names, the earlier replicas, the nodes and the jobs have
  the same rows, and every new replica is one of this version.
\<close>

theorem gateway_put_committed:
  assumes "put_object c policy max_bytes name body expected w = (Inr res, w')" "db_inv (view w)" "data = concat (chunks body)"
  shows "\<exists>nm ob v. normalize_object_name name = Inr nm \<and> abort body = None \<and> int (length data) \<le> max_bytes \<and>
    stored w' = view w' \<and> db_inv (stored w') \<and>
    lookup_by o_name nm (objects (stored w')) = Some ob \<and> o_state ob = OS_ACTIVE \<and> o_current_version_id ob = Some (v_id v) \<and>
    get_version_row (stored w') (v_id v) = Some v \<and> v_state v = VS_COMMITTED \<and> v_object_id v = o_id ob \<and>
    v_checksum v = sha256 data \<and> v_size v = int (length data) \<and>
    (\<forall>x\<in>set (versions (view w)). v_object_id x = o_id ob \<longrightarrow> v_number x < v_number v) \<and>
    (\<forall>n. expected = Some n \<longrightarrow> n = current_number (view w) (o_id ob)) \<and>
    pr_object_id res = o_id ob \<and> pr_name res = nm \<and> pr_version_id res = v_id v \<and> pr_number res = v_number v \<and>
    pr_size res = int (length data) \<and> pr_checksum res = sha256 data \<and>
    distinct (pr_replicas res) \<and> pol_write_quorum policy \<le> int (length (pr_replicas res)) \<and>
    (\<forall>i\<in>set (pr_replicas res). \<exists>r. replica_on (stored w') (v_id v) i = Some r \<and> r_status r = RS_HEALTHY) \<and>
    set (versions (stored w')) = insert v (set (versions (view w))) \<and>
    {x \<in> set (objects (stored w')). o_name x \<noteq> nm} = {x \<in> set (objects (view w)). o_name x \<noteq> nm} \<and>
    set (replicas (view w)) \<subseteq> set (replicas (stored w')) \<and>
    (\<forall>r\<in>set (replicas (stored w')). r \<in> set (replicas (view w)) \<or> r_version_id r = v_id v) \<and>
    nodes (stored w') = nodes (view w) \<and> repair_jobs (stored w') = repair_jobs (view w) \<and>
    rebalance_jobs (stored w') = rebalance_jobs (view w) \<and> integrity_jobs (stored w') = integrity_jobs (view w)"
  by (rule put_durable [OF assms])

section \<open>Deleting\<close>

lemma transition_object_InrD:
  assumes "transition_object_state i st d = Inr (x, d')" "distinct (map o_id (objects d))"
  shows "d' = upd_object i (\<lambda>x. x\<lparr>o_state := st\<rparr>) d"
proof -
  obtain ob where ob: "get_object_row d i = Some ob" "d' = d \<and> o_state ob = st \<or> d' = upd_object i (\<lambda>x. x\<lparr>o_state := st\<rparr>) d"
    using assms(1) by (auto simp: transition_object_state_def lock_object_def result_iffs split: if_splits)
  have "upd_object i (\<lambda>x. x\<lparr>o_state := st\<rparr>) d = d" if "o_state ob = st"
  proof -
    have "x\<lparr>o_state := st\<rparr> = x" if "x \<in> set (objects d)" "o_id x = i" for x
      using that ob(1) lookup_by_Some_iff [OF assms(2), of i x] \<open>o_state ob = st\<close> by auto
    then have "update_by o_id i (\<lambda>x. x\<lparr>o_state := st\<rparr>) (objects d) = objects d" unfolding update_by_def by (intro map_idI) auto
    then show ?thesis by (simp add: upd_object_def)
  qed
  then show ?thesis using ob(2) by auto
qed

definition belongs :: "db \<Rightarrow> uuid \<Rightarrow> replica_row \<Rightarrow> bool" where
  "belongs d i r \<longleftrightarrow> (\<exists>v. get_version_row d (r_version_id r) = Some v \<and> v_object_id v = i)"

lemma object_replicas_fst: "map fst (object_replicas i d) = filter (belongs d i) (replicas d)"
proof -
  have "map fst (concat (map (\<lambda>r. case get_version_row d (r_version_id r) of
       None \<Rightarrow> [] | Some v \<Rightarrow> if v_object_id v = i then [(r, get_node_row d (r_node_id r), v)] else []) rs)) = filter (belongs d i) rs" for rs
    by (induction rs) (auto simp: belongs_def split: option.split)
  then show ?thesis by (simp add: object_replicas_def)
qed

definition deletion_of :: "replica_row \<times> node_row option \<times> version_row \<Rightarrow> exn + replica_row \<times> string option \<times> bool \<Rightarrow> bool" where
  "deletion_of x out \<longleftrightarrow> (case out of Inl _ \<Rightarrow> True | Inr y \<Rightarrow> fst y = fst x \<and> (fst (snd y) = None \<longrightarrow> snd (snd y)))"

lemma deletion_loop:
  assumes "forA (\<lambda>x. net_call (tryA (delete_one c x))) rows w = (Inr outs, w')"
  shows "view w' = view w \<and> stored w' = stored w \<and> in_tx w' = in_tx w \<and> list_all2 deletion_of rows outs"
proof -
  have "(view w' = view w \<and> stored w' = stored w \<and> in_tx w' = in_tx w) \<and> list_all2 deletion_of rows outs"
    by (rule forA_induct_ok [OF assms])
      (auto simp: net_call_def tryA_def deletion_of_def delete_one_def retA_def raiseA_def split: prod.splits sum.splits option.splits if_splits
        elim!: catchA_InrE thenA_InrE)
  then show ?thesis by simp
qed

lemma gather_results_Inr: "gather_results outs = Inr xs \<Longrightarrow> outs = map Inr xs"
proof -
  assume xs: "gather_results outs = Inr xs"
  have "filter isl outs = []"
  proof (rule ccontr)
    assume "filter isl outs \<noteq> []"
    then obtain y ys where y: "filter isl outs = y # ys" by (cases "filter isl outs") auto
    moreover from this have "isl y" by (metis filter_eq_ConsD)
    ultimately show False using xs by (cases y) (auto simp: gather_results_def)
  qed
  then have "\<forall>out\<in>set outs. \<not> isl out" "xs = map projr outs" using xs by (auto simp: gather_results_def filter_empty_conv)
  then show "outs = map Inr xs" by (simp add: map_idI)
qed

lemma settled_deletions:
  assumes "list_all2 deletion_of rows outs" "gather_results outs = Inr results"
  shows "map fst results = map fst rows" "\<forall>y\<in>set results. fst (snd y) = None \<longrightarrow> snd (snd y)"
proof -
  have "list_all2 deletion_of rows (map Inr results)" using assms gather_results_Inr by metis
  then have "map fst results = map fst rows \<and> (\<forall>y\<in>set results. fst (snd y) = None \<longrightarrow> snd (snd y))"
    by (induction results arbitrary: rows) (auto simp: deletion_of_def list_all2_Cons2)
  then show "map fst results = map fst rows" "\<forall>y\<in>set results. fst (snd y) = None \<longrightarrow> snd (snd y)" by blast+
qed

text \<open>The tables after a deletion that removed the replicas \<open>gone\<close> and left the object in a state.\<close>

definition deleted_to :: "object_state \<Rightarrow> uuid \<Rightarrow> replica_row list \<Rightarrow> db \<Rightarrow> db" where
  "deleted_to st i gone d = (upd_object i (\<lambda>x. x\<lparr>o_state := st\<rparr>) d)\<lparr>replicas := filter (\<lambda>r. r_id r \<notin> r_id ` set gone) (replicas d)\<rparr>"

lemma update_by_comp: "(\<And>r. key (f r) = key r) \<Longrightarrow> update_by key i g (update_by key i f t) = update_by key i (\<lambda>r. g (f r)) t"
  by (induction t) auto

lemma finish_deletion_run:
  assumes d: "view w = upd_object (o_id ob) (\<lambda>x. x\<lparr>o_state := OS_DELETING\<rparr>) d" "get_object_row d (o_id ob) \<noteq> None" "distinct (map o_id (objects d))"
    and gone: "gone = map fst (filter (\<lambda>x. snd (snd x)) results)"
  shows "finish_deletion ob results w =
    (if \<exists>x\<in>set results. \<not> snd (snd x) \<and> fst (snd x) \<noteq> None
     then (Inl (VaultE (VaultError NODE_UNAVAILABLE 503)),
       w\<lparr>view := deleted_to OS_DELETING (o_id ob) gone d, stored := deleted_to OS_DELETING (o_id ob) gone d, in_tx := False\<rparr>)
     else (Inr (o_name ob, length gone),
       w\<lparr>view := deleted_to OS_DELETED (o_id ob) gone d, stored := deleted_to OS_DELETED (o_id ob) gone d, in_tx := False\<rparr>))"
proof -
  let ?d = "deleted_to OS_DELETING (o_id ob) gone d"
  obtain x where x: "get_object_row d (o_id ob) = Some x" using d(2) by auto
  have "transition_object_state (o_id ob) OS_DELETED ?d = Inr (x\<lparr>o_state := OS_DELETED\<rparr>, upd_object (o_id ob) (\<lambda>x. x\<lparr>o_state := OS_DELETED\<rparr>) ?d)"
    using x by (simp add: transition_object_state_def lock_object_def deleted_to_def row_lookups)
  moreover have "upd_object (o_id ob) (\<lambda>x. x\<lparr>o_state := OS_DELETED\<rparr>) ?d = deleted_to OS_DELETED (o_id ob) gone d"
    by (simp add: deleted_to_def upd_object_def update_by_comp)
  ultimately show ?thesis
    using d(1) by (auto simp: finish_deletion_def Let_def run_simps gone [symmetric] thenA_def [of "transaction f" for f] bindA_def transaction_def
        filter_empty_conv deleted_to_def upd_object_def)
qed

lemma gateway_get_object_run:
  "gateway_get_object name w = (case normalize_object_name name of Inl e \<Rightarrow> (Inl e, w) | Inr nm \<Rightarrow>
     (case lookup_by o_name nm (objects (view w)) of None \<Rightarrow> (Inl (VaultE (ObjectNotFound (TextId nm))), w\<lparr>in_tx := True\<rparr>)
      | Some ob \<Rightarrow> (Inr ob, w\<lparr>in_tx := True\<rparr>)))"
  by (simp add: gateway_get_object_def run_simps split: sum.split option.split)

lemma tables_are_delete [keeps_rules]:
  "keeps (tables_are d s) (forA (\<lambda>x. case fst (snd x) of None \<Rightarrow> retA () | Some n \<Rightarrow> net_call (c_open c (n_address n))) rows)"
  "keeps (tables_are d s) (forA (\<lambda>x. net_call (tryA (delete_one c x))) rows)"
  by (intro keeps_rules)+

lemma mark_deleting_run:
  assumes ob: "get_object_row d (o_id ob) = Some ob" "o_state ob \<noteq> OS_DELETED" and d: "distinct (map o_id (objects d))" and w: "view w = d" "in_tx w"
  shows "mark_deleting ob w = (Inr (), w\<lparr>view := upd_object (o_id ob) (\<lambda>x. x\<lparr>o_state := OS_DELETING\<rparr>) d\<rparr>)"
proof (cases "o_state ob")
  case OS_ACTIVE
  then show ?thesis using ob w by (simp add: mark_deleting_def transition_object_state_def lock_object_def thenA_def bindA_def transaction_def retA_def)
next
  case OS_DELETING
  then have "transition_object_state (o_id ob) OS_DELETING d = Inr (ob, d)" using ob by (simp add: transition_object_state_def lock_object_def)
  from transition_object_InrD [OF this d] show ?thesis using OS_DELETING w(1) by (simp add: mark_deleting_def retA_def)
qed (use ob in simp)

lemma delete_replicas_run:
  assumes run: "delete_replicas c ob w = (r, w')"
    and w: "view w = upd_object (o_id ob) (\<lambda>x. x\<lparr>o_state := OS_DELETING\<rparr>) d" "stored w = d"
    and d: "get_object_row d (o_id ob) = Some ob" "distinct (map o_id (objects d))" "mine = filter (belongs d (o_id ob)) (replicas d)"
  shows "case r of Inr (nm, k) \<Rightarrow> nm = o_name ob \<and> k = length mine \<and> stored w' = deleted_to OS_DELETED (o_id ob) mine d
    | Inl e \<Rightarrow> stored w' = d \<or> (\<exists>gone. set gone \<subseteq> set mine \<and> stored w' = deleted_to OS_DELETING (o_id ob) gone d)"
proof -
  let ?d = "upd_object (o_id ob) (\<lambda>x. x\<lparr>o_state := OS_DELETING\<rparr>) d"
  have "belongs ?d = belongs d" "replicas ?d = replicas d" by (auto simp: fun_eq_iff belongs_def upd_object_def)
  then have rows: "map fst (object_replicas (o_id ob) ?d) = mine" using d(3) by (simp add: object_replicas_fst)
  let ?rows = "object_replicas (o_id ob) ?d" and ?w = "w\<lparr>in_tx := True\<rparr>"
  have start: "tables_are ?d d ?w" using w by (simp add: tables_are_def)
  obtain r1 w1 where opens: "forA (\<lambda>x. case fst (snd x) of None \<Rightarrow> retA () | Some n \<Rightarrow> net_call (c_open c (n_address n))) ?rows ?w = (r1, w1)"
    by (metis surj_pair)
  obtain r2 w2 where loop: "forA (\<lambda>x. net_call (tryA (delete_one c x))) ?rows w1 = (r2, w2)" by (metis surj_pair)
  have t1: "tables_are ?d d w1" by (rule keepsD [OF tables_are_delete(1) start opens])
  have t2: "tables_are ?d d w2" by (rule keepsD [OF tables_are_delete(2) t1 loop])
  show ?thesis
  proof (cases "\<exists>x outs results. r1 = Inr x \<and> r2 = Inr outs \<and> gather_results outs = Inr results")
    case True
    then obtain x outs results where ok: "r1 = Inr x" "r2 = Inr outs" "gather_results outs = Inr results" by blast
    let ?gone = "map fst (filter (\<lambda>x. snd (snd x)) results)"
    have "list_all2 deletion_of ?rows outs" using deletion_loop loop ok(2) by blast
    note results = settled_deletions [OF this ok(3)]
    have "finish_deletion ob results w2 = (r, w')"
      using run w(1) opens loop ok by (simp add: delete_replicas_def query_def thenA_def bindA_def from_result_def)
    then have fin: "(r, w') = (if \<exists>x\<in>set results. \<not> snd (snd x) \<and> fst (snd x) \<noteq> None
       then (Inl (VaultE (VaultError NODE_UNAVAILABLE 503)),
         w2\<lparr>view := deleted_to OS_DELETING (o_id ob) ?gone d, stored := deleted_to OS_DELETING (o_id ob) ?gone d, in_tx := False\<rparr>)
       else (Inr (o_name ob, length ?gone),
         w2\<lparr>view := deleted_to OS_DELETED (o_id ob) ?gone d, stored := deleted_to OS_DELETED (o_id ob) ?gone d, in_tx := False\<rparr>))"
      using finish_deletion_run [OF _ _ d(2) refl, of w2 ob results] t2 d(1) by (simp add: tables_are_def)
    have mine: "map fst results = mine" using results(1) rows by simp
    show ?thesis
    proof (cases "\<exists>x\<in>set results. \<not> snd (snd x) \<and> fst (snd x) \<noteq> None")
      case True
      have "set ?gone \<subseteq> set mine" unfolding mine [symmetric] by auto
      moreover have "isl r \<and> stored w' = deleted_to OS_DELETING (o_id ob) ?gone d" using fin True by simp
      ultimately show ?thesis by (cases r) (auto simp del: set_map)
    next
      case False
      then have all: "filter (\<lambda>x. snd (snd x)) results = results" using results(2) by (auto simp: filter_id_conv)
      have "r = Inr (o_name ob, length mine) \<and> stored w' = deleted_to OS_DELETED (o_id ob) mine d"
        using fin unfolding all mine if_not_P [OF False] by simp
      then show ?thesis by simp
    qed
  next
    case False
    have "isl r \<and> stored w' = d"
      using False run w(1) opens loop t1 t2
      by (cases r1; cases r2) (auto simp: delete_replicas_def query_def thenA_def bindA_def from_result_def tables_are_def split: sum.splits)
    then show ?thesis by (cases r) auto
  qed
qed

text \<open>
  C12. Deleting an object. When the gateway answers a DELETE, the durable tables are the old ones with the
  object marked DELETED and without the replicas of all its versions, and the answer counts those
  replicas; deleting a deleted object changes nothing. When the gateway raises, either nothing has
  changed or the object is durably DELETING, hidden from reads, and only replicas of the object are
  gone, so that the deletion can be repeated.
\<close>

theorem gateway_delete_outcome:
  assumes "session_scope (delete_object c name) w = (r, w')" "db_inv (stored w)"
  shows "case r of
      Inr (nm, k) \<Rightarrow> normalize_object_name name = Inr nm \<and> (\<exists>ob. lookup_by o_name nm (objects (stored w)) = Some ob \<and>
        (let mine = filter (belongs (stored w) (o_id ob)) (replicas (stored w)) in
         if o_state ob = OS_DELETED then k = 0 \<and> stored w' = stored w
         else k = length mine \<and> stored w' = deleted_to OS_DELETED (o_id ob) mine (stored w)))
    | Inl e \<Rightarrow> stored w' = stored w \<or> (\<exists>nm ob gone. normalize_object_name name = Inr nm \<and> lookup_by o_name nm (objects (stored w)) = Some ob \<and>
        o_state ob \<noteq> OS_DELETED \<and> set gone \<subseteq> {r \<in> set (replicas (stored w)). belongs (stored w) (o_id ob) r} \<and>
        stored w' = deleted_to OS_DELETING (o_id ob) gone (stored w))"
proof -
  let ?d = "stored w" and ?w = "w\<lparr>view := stored w, in_tx := False\<rparr>"
  obtain w1 where run: "delete_object c name ?w = (r, w1)" and w': "stored w' = stored w1"
    using assms(1) by (auto simp: session_scope_def rollback_def split: prod.splits)
  show ?thesis
  proof (cases "\<exists>nm ob. normalize_object_name name = Inr nm \<and> lookup_by o_name nm (objects ?d) = Some ob")
    case False
    then have "isl r \<and> stored w1 = ?d"
      using run by (auto simp: delete_object_def bindA_def gateway_get_object_run split: sum.splits option.splits)
    then show ?thesis using w' by (cases r) auto
  next
    case True
    then obtain nm ob where ob: "normalize_object_name name = Inr nm" "lookup_by o_name nm (objects ?d) = Some ob" by blast
    have o: "o_name ob = nm" "get_object_row ?d (o_id ob) = Some ob"
      using lookup_by_SomeD [OF ob(2)] lookup_by_Some_iff [OF db_inv_distinct(1) [OF assms(2)]] by auto
    show ?thesis
    proof (cases "o_state ob = OS_DELETED")
      case True
      then show ?thesis using run ob w' o by (auto simp: delete_object_def bindA_def gateway_get_object_run retA_def)
    next
      case False
      let ?w2 = "w\<lparr>view := upd_object (o_id ob) (\<lambda>x. x\<lparr>o_state := OS_DELETING\<rparr>) ?d, in_tx := True\<rparr>"
      have "delete_replicas c ob ?w2 = (r, w1)"
      proof -
        have "mark_deleting ob (?w\<lparr>in_tx := True\<rparr>) = (Inr (), ?w2)"
          using mark_deleting_run [OF o(2) False db_inv_distinct(1) [OF assms(2)], of "?w\<lparr>in_tx := True\<rparr>"] by simp
        then show ?thesis using run False ob by (simp add: delete_object_def bindA_def thenA_def gateway_get_object_run)
      qed
      from delete_replicas_run [OF this _ _ o(2) db_inv_distinct(1) [OF assms(2)] refl] show ?thesis
        using False ob o(1) w' by (cases r) (auto simp: Let_def)
    qed
  qed
qed

section \<open>Witnesses\<close>

lemma commit_upload_completes:
  assumes "replicate_version c policy (v_id v) (retA (staged_payload st)) None None e w = (Inr rr, w')" "db_inv (view w)"
  shows "\<exists>res w2. commit_upload c policy ob v st e w = (Inr res, w2)"
proof -
  obtain d t x where d: "db_inv d" "commit_version t (v_id v) e d = Inr (x, view w')"
    by (rule replicate_version_effect [OF assms(2,1) refl refl])
  obtain y and ob' :: object_row where "get_version_row d (v_id v) = Some y"
    "view w' = upd_object (o_id ob') (\<lambda>x. x\<lparr>o_current_version_id := Some (v_id v), o_state := OS_ACTIVE\<rparr>)
       (upd_version (v_id v) (\<lambda>x. x\<lparr>v_state := VS_COMMITTED, v_committed_at := Some t\<rparr>) d)"
    using d(2,1) by (rule commit_version_shape) blast
  then have "\<exists>y. get_version_row (view w') (v_id v) = Some y \<and> v_state y = VS_COMMITTED" by (simp add: row_lookups)
  then show ?thesis using assms(1) by (auto simp: commit_upload_def bindA_def live_def thenA_commit retA_def)
qed

definition demo_policy1 :: replication_policy where
  "demo_policy1 = \<lparr>pol_factor = 1, pol_write_quorum = 1, pol_read_quorum = 1\<rparr>"

definition put_world :: "'n \<Rightarrow> 'n world" where
  "put_world s = (demo_world (empty_db\<lparr>objects := [demo_object], nodes := [demo_node]\<rparr>) s)\<lparr>uuid_feed := (\<lambda>i. if i = 0 then 11 else 99 + i)\<rparr>"

lemma put_world_inv: "db_inv (view (put_world s))" "integrity_refs_ok (stored (put_world s))" "stored (put_world s) = view (put_world s)"
proof -
  have "strip ''a'' = ''a'' \<and> \<not> is_control CHR ''a''" by code_simp
  then have "db_inv (empty_db\<lparr>objects := [demo_object]\<rparr>)" using inv_add_object [of empty_db demo_object] db_inv_empty
    by (simp add: empty_db_def demo_object_def canonical_name_def)
  from inv_add_node [OF this, of demo_node] show "db_inv (view (put_world s))"
    by (simp add: put_world_def demo_world_def empty_db_def demo_node_def strip_def is_space_def)
  show "integrity_refs_ok (stored (put_world s))" "stored (put_world s) = view (put_world s)"
    by (simp_all add: put_world_def demo_world_def empty_db_def integrity_refs_ok_def)
qed

lemma demo_staged:
  "stage_upload 8 (Payload [[1, 2, 3]] None) = Inr \<lparr>su_data = [1, 2, 3], su_size = 3, su_checksum = sha256 [1, 2, 3]\<rparr>"
  "staged_payload \<lparr>su_data = [1, 2, 3], su_size = 3, su_checksum = k\<rparr> = Payload [[1, 2, 3]] None"
  "normalize_object_name ''a'' = Inr ''a''"
proof -
  show "normalize_object_name ''a'' = Inr ''a''" by code_simp
  show "staged_payload \<lparr>su_data = [1, 2, 3], su_size = 3, su_checksum = k\<rparr> = Payload [[1, 2, 3]] None"
    by (simp add: staged_payload_def file_chunks_def DEFAULT_CHUNK_SIZE_MB_def group.simps)
qed (simp add: stage_upload_def)

lemma demo_create_version:
  "create_version 11 1 3 (sha256 m) (Some 0) (empty_db\<lparr>objects := [demo_object], nodes := [demo_node]\<rparr>) =
     Inr ((demo_version 11 1)\<lparr>v_checksum := sha256 m\<rparr>, sealed_db (sha256 m))"
proof -
  have "validate_checksum (sha256 m) = Inr (sha256 m)"
    using sha256_shape [of m] by (auto simp: validate_checksum_def lower_checksum checksum_ok_def Let_def)
  then show ?thesis
    by (simp add: create_version_def validate_expected_version_def lock_object_def lookup_by_def demo_object_def current_version_number_def
        expected_matches_def max_version_number_def empty_db_def sealed_db_def demo_version_def some_or_def Let_def)
qed

lemma demo_put:
  assumes wr: "write_one c (retA (Payload [[1, 2, 3]] None)) ((demo_version 11 1)\<lparr>v_checksum := sha256 [1, 2, 3]\<rparr>) demo_node s =
    (Inr \<lparr>wr_node_id = ''n1'', wr_status = RS_HEALTHY, wr_verified = True, wr_error = None, wr_checksum = Some (sha256 [1, 2, 3]), wr_size = Some 3\<rparr>, t)"
  shows "\<exists>res w'. put_object c demo_policy1 8 ''a'' (Payload [[1, 2, 3]] None) (Some 0) (put_world s) = (Inr res, w')"
proof -
  let ?k = "sha256 [1, 2, 3]" and ?w = "(put_world s)\<lparr>in_tx := True, uuid_pos := 1, view := sealed_db (sha256 [1, 2, 3])\<rparr>"
  let ?v = "(demo_version 11 1)\<lparr>v_checksum := ?k\<rparr>" and ?st = "\<lparr>su_data = [1, 2, 3], su_size = 3, su_checksum = ?k\<rparr>"
  have "find_or_create ''a'' (put_world s) = (Inr (demo_object, False), (put_world s)\<lparr>in_tx := True\<rparr>)"
    by (simp add: find_or_create_def run_simps put_world_def demo_world_def lookup_by_def demo_object_def)
  moreover have "bindA new_uuid (\<lambda>vi. transaction (create_version vi (o_id demo_object) 3 ?k (Some 0))) ((put_world s)\<lparr>in_tx := True\<rparr>) = (Inr ?v, ?w)"
    using demo_create_version [of "[1, 2, 3]"] by (simp add: bindA_new_uuid transaction_def put_world_def demo_world_def demo_object_def)
  moreover obtain res w2 where "commit_upload c demo_policy1 demo_object ?v ?st (Some 0) ?w = (Inr res, w2)"
  proof -
    have "\<exists>rr w'. replicate_version c demo_policy1 (v_id ?v) (retA (staged_payload ?st)) None None (Some 0) ?w = (Inr rr, w')"
    proof -
      have "\<exists>res w'. replicate_version c \<lparr>pol_factor = 1, pol_write_quorum = 1, pol_read_quorum = 1\<rparr> 11 (retA (Payload [[1, 2, 3]] None)) None None (Some 0) ?w =
       (Inr res, w') \<and> rr_healthy res = [''n1'']"
      using wr by (intro sealed_replicates [where t = t]) (simp_all add: put_world_def demo_world_def sha256_shape)
      then show ?thesis by (auto simp: demo_policy1_def demo_staged demo_version_def)
    qed
    then obtain rr w' where "replicate_version c demo_policy1 (v_id ?v) (retA (staged_payload ?st)) None None (Some 0) ?w = (Inr rr, w')" by blast
    from commit_upload_completes [OF this] sealed_inv [OF sha256_shape] show thesis using that by auto
  qed
  ultimately show ?thesis by (simp add: put_object_def from_result_def demo_staged bindA_def or_abandon_def catchA_def)
qed

lemma or_abandon_Inl: "m w = (Inl e, w1) \<Longrightarrow> \<exists>e' w'. or_abandon ob created v m w = (Inl e', w')"
  by (auto simp: or_abandon_def catchA_def thenA_def bindA_def raiseA_def split: prod.split sum.split)

lemma empty_put_fails:
  "\<exists>e w'. put_object c demo_policy1 8 ''a'' (Payload [[1, 2, 3]] None) (Some 0) (demo_world empty_db s) = (Inl e, w')"
proof -
  let ?k = "sha256 [1, 2, 3]" and ?ob = "demo_object\<lparr>o_id := 100\<rparr>" and ?w1 = "(demo_world empty_db s)\<lparr>in_tx := True, uuid_pos := 1, view := empty_db\<lparr>objects := [demo_object\<lparr>o_id := 100\<rparr>]\<rparr>\<rparr>"
  let ?v = "(demo_version 101 1)\<lparr>v_object_id := 100, v_checksum := ?k\<rparr>" and ?st = "\<lparr>su_data = [1, 2, 3], su_size = 3, su_checksum = ?k\<rparr>"
  let ?w2 = "?w1\<lparr>uuid_pos := 2, view := empty_db\<lparr>objects := [?ob], versions := [?v]\<rparr>\<rparr>"
  have k: "validate_checksum ?k = Inr ?k"
    using sha256_shape [of "[1, 2, 3]"] by (auto simp: validate_checksum_def lower_checksum checksum_ok_def Let_def)
  have "find_or_create ''a'' (demo_world empty_db s) = (Inr (?ob, True), ?w1)"
    by (simp add: find_or_create_def query_def new_uuid_def retA_def catchA_def bindA_def transaction_def create_object_def demo_staged demo_world_def empty_db_def demo_object_def Let_def)
  moreover have "bindA new_uuid (\<lambda>vi. transaction (create_version vi (o_id ?ob) 3 ?k (Some 0))) ?w1 = (Inr ?v, ?w2)"
    by (simp add: bindA_new_uuid transaction_def create_version_def k validate_expected_version_def lock_object_def lookup_by_def demo_object_def current_version_number_def
        expected_matches_def max_version_number_def empty_db_def demo_version_def some_or_def demo_world_def Let_def)
  moreover have "\<exists>e w'. commit_upload c demo_policy1 ?ob ?v ?st (Some 0) ?w2 = (Inl e, w')"
    by (simp add: commit_upload_def replicate_version_def demo_policy1_def get_version_def query_def retA_def raiseA_def bindA_def demo_version_def lookup_by_def select_nodes_eq Let_def
        demo_world_def empty_db_def)
  ultimately show ?thesis using or_abandon_Inl [of "commit_upload c demo_policy1 ?ob ?v ?st (Some 0)" ?w2]
    by (auto simp: put_object_def from_result_def demo_staged bindA_def or_abandon_def [of ?ob True None] catchA_def)
qed

theorem gateway_put_atomic_witness:
  "\<exists>e w'. session_scope (put_object (node_client cluster_transport '' secret '' 30) demo_policy1 8 ''a'' (Payload [[1, 2, 3]] None) (Some 0)) (demo_world empty_db demo_wire) =
    (Inl e, w') \<and> stored w' = empty_db"
proof -
  let ?w = "demo_world empty_db demo_wire"
  have "?w\<lparr>view := stored ?w, in_tx := False\<rparr> = ?w" by (simp add: demo_world_def)
  then obtain e w' where r: "session_scope (put_object (node_client cluster_transport '' secret '' 30) demo_policy1 8 ''a'' (Payload [[1, 2, 3]] None) (Some 0)) ?w = (Inl e, w')"
    using empty_put_fails [of "node_client cluster_transport '' secret '' 30" demo_wire] by (auto simp: session_scope_def)
  moreover have "stored ?w = empty_db" "integrity_refs_ok empty_db" by (simp_all add: demo_world_def empty_db_def integrity_refs_ok_def)
  ultimately show ?thesis using gateway_put_atomic [OF r] db_inv_empty by auto
qed

theorem gateway_put_committed_witness:
  "\<exists>res w'. put_object (node_client cluster_transport '' secret '' 30) demo_policy1 8 ''a'' (Payload [[1, 2, 3]] None) (Some 0) (put_world demo_wire) = (Inr res, w') \<and>
    1 \<le> length (pr_replicas res) \<and> pr_checksum res = sha256 [1, 2, 3] \<and> stored w' = view w'"
proof -
  obtain res w' where r: "put_object (node_client cluster_transport '' secret '' 30) demo_policy1 8 ''a'' (Payload [[1, 2, 3]] None) (Some 0) (put_world demo_wire) = (Inr res, w')"
    using demo_put [OF someI_ex [OF demo_write_one]] by blast
  from gateway_put_committed [OF r put_world_inv(1) refl]
  have "pol_write_quorum demo_policy1 \<le> int (length (pr_replicas res)) \<and> pr_checksum res = sha256 [1, 2, 3] \<and> stored w' = view w'"
    by auto
  then show ?thesis using r by (simp add: demo_policy1_def)
qed

theorem gateway_delete_outcome_witness:
  "\<exists>w'. session_scope (delete_object (demo_client [''http://n1'']) ''a'') (demo_world demo_copying ()) = (Inr (''a'', 1), w') \<and>
    stored w' = deleted_to OS_DELETED 1 (replicas demo_copying) demo_copying"
proof -
  let ?run = "session_scope (delete_object (demo_client [''http://n1'']) ''a'') (demo_world demo_copying ())"
  have "fst ?run = Inr (''a'', 1)"
    unfolding delete_object_def delete_replicas_def delete_one_def demo_client_simps by code_simp
  then obtain w' where r: "?run = (Inr (''a'', 1), w')" by (metis prod.collapse)
  have "lookup_by o_name ''a'' (objects demo_copying) = Some (demo_object\<lparr>o_current_version_id := Some 10\<rparr>)" by code_simp
  moreover have "list_all (\<lambda>r. case get_version_row demo_copying (r_version_id r) of Some v \<Rightarrow> v_object_id v = 1 | None \<Rightarrow> False) (replicas demo_copying)" by code_simp
  then have "filter (belongs demo_copying 1) (replicas demo_copying) = replicas demo_copying"
    by (auto simp: filter_id_conv belongs_def list_all_iff split: option.splits)
  ultimately show ?thesis using gateway_delete_outcome [OF r] demo_copying_inv r by (simp add: demo_world_def Let_def demo_object_def)
qed

end
