(* ===== verification/Gateway_Api.thy ===== *)
theory Gateway_Api
  imports Gateway
begin

text \<open>
  \<^verbatim>\<open>gateway/api.py\<close> and \<^verbatim>\<open>gateway/admin_service.py\<close>: the routes of the gateway over
  the object service, and the administrative service behind its key. A reply is a status with the data
  of the body, or a status with an error code; \<open>RequestInvalid\<close> is the framework's own answer to a body
  that does not fit the request model. An exception that no clause of a route catches is the action's
  exception (the framework's 500). Request identifiers and message texts are left out.
\<close>

section \<open>Replies\<close>

datatype 'a reply = Reply int 'a | ErrorReply int error_code | RequestInvalid

fun reply_status :: "'a reply \<Rightarrow> int" where
  "reply_status (Reply st _) = st"
| "reply_status (ErrorReply st _) = st"
| "reply_status RequestInvalid = 422"

definition error_response :: "vault_error \<Rightarrow> 'a reply" where
  "error_response x = ErrorReply (status_code_of x) (error_code_of x)"

definition invalid_request_response :: "'a reply" where
  "invalid_request_response = ErrorReply 422 INVALID_REQUEST"

text \<open>The two shapes of \<open>except\<close> clauses the routes share.\<close>

definition vault_errors :: "('n, 'a reply) act \<Rightarrow> ('n, 'a reply) act" where
  "vault_errors m = catchA m (\<lambda>e. case e of VaultE x \<Rightarrow> retA (error_response x) | _ \<Rightarrow> raiseA e)"

definition request_errors :: "('n, 'a reply) act \<Rightarrow> ('n, 'a reply) act" where
  "request_errors m = catchA m (\<lambda>e. case e of
       VaultE x \<Rightarrow> retA (error_response x)
     | ValueError \<Rightarrow> retA invalid_request_response
     | _ \<Rightarrow> raiseA e)"

definition reply_with :: "int \<Rightarrow> ('n, 'a) act \<Rightarrow> ('n, 'a reply) act" where
  "reply_with st m = bindA (session_scope m) (\<lambda>x. retA (Reply st x))"

section \<open>Objects and nodes\<close>

definition route_list_objects :: "('n, object_summary list reply) act" where
  "route_list_objects = reply_with 200 list_object_summaries"

definition route_object_metadata :: "string \<Rightarrow> ('n, (object_row \<times> (int \<times> uuid) option) reply) act" where
  "route_object_metadata name = request_errors (reply_with 200 (object_metadata name))"

definition route_object_versions :: "string \<Rightarrow> ('n, (version_row \<times> nat \<times> replica_row list) list reply) act" where
  "route_object_versions name = request_errors (reply_with 200 (object_versions name))"

text \<open>A stream of bytes with its \<^verbatim>\<open>Content-Length\<close>, version and checksum headers.\<close>

record object_stream =
  og_length :: int
  og_version_id :: uuid
  og_number :: int
  og_checksum :: string
  og_body :: payload

definition network_error :: "exn \<Rightarrow> bool" where
  "network_error e \<longleftrightarrow> is_client_error e \<or> e = HttpError"

text \<open>
  \<open>body()\<close>: the nodes are tried in turn until one has sent a chunk. The generator runs after the route
  has returned, so that its exception ends the stream and reaches no \<open>except\<close> clause.
\<close>

fun stream_body :: "'n client \<Rightarrow> string \<Rightarrow> string \<Rightarrow> string list \<Rightarrow> (exn, 'n, payload) action" where
  "stream_body c ob v [] = retA (Payload [] None)"
| "stream_body c ob v (address # rest) =
     bindA (tryA (c_open c address)) (\<lambda>opened.
     case opened of
       Inl e \<Rightarrow> retA (Payload [] (Some e))
     | Inr _ \<Rightarrow>
         bindA (tryA (c_stream c address ob v)) (\<lambda>response.
         let (emitted, ending) = (case response of Inl e \<Rightarrow> ([], Some e) | Inr p \<Rightarrow> (chunks p, abort p)) in
         case ending of
           None \<Rightarrow> retA (Payload emitted None)
         | Some e \<Rightarrow>
             if network_error e \<and> \<not> (emitted \<noteq> [] \<or> rest = []) then stream_body c ob v rest
             else retA (Payload emitted (Some e))))"

definition select_target :: "'n client \<Rightarrow> string \<Rightarrow> ('n, object_row \<times> version_row \<times> node_row list) act" where
  "select_target c name =
     bindA (read_targets name) (\<lambda>(ob, v, targets).
     bindA (preflight_read_target c (uuid_str (o_id ob)) (uuid_str (v_id v)) targets) (\<lambda>(selected, remaining).
     retA (ob, v, selected # remaining)))"

text \<open>
  The rows leave the block of the session, and the response is built from them afterwards: with a
  session that is rolled back and closed at the end of the block, as in the application, the first
  header that is read raises.
\<close>

definition route_get_object :: "session_factory \<Rightarrow> 'n client \<Rightarrow> string \<Rightarrow> ('n, object_stream reply) act" where
  "route_get_object factory c name =
     catchA
       (bindA (with_session factory (select_target c name)) (\<lambda>(obj, version, descriptors).
        bindA (read_after factory (obj, version)) (\<lambda>(ob, v).
        bindA (net_call (stream_body c (uuid_str (o_id ob)) (uuid_str (v_id v)) (map n_address descriptors))) (\<lambda>body.
        retA (Reply 200 \<lparr>og_length = v_size v, og_version_id = v_id v, og_number = v_number v, og_checksum = v_checksum v, og_body = body\<rparr>)))))
       (\<lambda>e. case e of
          VaultE x \<Rightarrow> retA (error_response x)
        | ValueError \<Rightarrow> retA invalid_request_response
        | _ \<Rightarrow> if network_error e then retA (ErrorReply 503 NODE_UNAVAILABLE) else raiseA e)"

definition route_head_object :: "string \<Rightarrow> ('n, (int \<times> uuid \<times> int \<times> string) option reply) act" where
  "route_head_object name = request_errors
     (bindA (session_scope (gateway_head name)) (\<lambda>(ob, version). case version of
        None \<Rightarrow> retA (Reply 404 None)
      | Some v \<Rightarrow> retA (Reply 200 (Some (v_size v, v_id v, v_number v, v_checksum v)))))"

definition route_list_nodes :: "('n, (node_row \<times> int) list reply) act" where
  "route_list_nodes = reply_with 200 (bindA gateway_list_nodes (\<lambda>ns. retA (map (\<lambda>n. (n, free_bytes n)) ns)))"

definition route_get_node :: "string \<Rightarrow> ('n, (node_row \<times> int) reply) act" where
  "route_get_node node_id = request_errors (reply_with 200 (bindA (gateway_get_node node_id) (\<lambda>n. retA (n, free_bytes n))))"

definition route_health :: "('n, gateway_health reply) act" where
  "route_health = reply_with 200 gateway_health_report"

text \<open>The declared length is checked before the body is read.\<close>

definition check_content_length :: "int \<Rightarrow> string option \<Rightarrow> 'a reply option" where
  "check_content_length max_upload_bytes content_length =
     (case content_length of
        None \<Rightarrow> None
      | Some raw \<Rightarrow> (case int_of_string raw of
          None \<Rightarrow> Some invalid_request_response
        | Some declared \<Rightarrow>
            if declared < 0 then Some invalid_request_response
            else if max_upload_bytes < declared then Some (error_response (PayloadTooLarge max_upload_bytes))
            else None))"

definition route_put_object ::
  "'n client \<Rightarrow> replication_policy \<Rightarrow> int \<Rightarrow> string \<Rightarrow> string option \<Rightarrow> payload \<Rightarrow> int option \<Rightarrow> ('n, put_result reply) act" where
  "route_put_object c policy max_upload_bytes name content_length body expected =
     (case check_content_length max_upload_bytes content_length of
        Some r \<Rightarrow> retA r
      | None \<Rightarrow> request_errors (reply_with 201 (put_object c policy max_upload_bytes name body expected)))"

definition route_delete_object :: "'n client \<Rightarrow> string \<Rightarrow> ('n, unit reply) act" where
  "route_delete_object c name = request_errors (bindA (session_scope (delete_object c name)) (\<lambda>_. retA (Reply 204 ())))"

section \<open>The administrative service\<close>

record repair_request =
  rq_version_id :: uuid
  rq_source :: "string option"
  rq_target :: "string option"
  rq_reason :: string

record integrity_request =
  iq_node_id :: "string option"
  iq_version_id :: "uuid option"

record rebalance_request =
  bq_version_id :: uuid
  bq_source :: string
  bq_target :: string

definition repair_request_ok :: "repair_request \<Rightarrow> bool" where
  "repair_request_ok q \<longleftrightarrow> rq_source q \<noteq> Some [] \<and> rq_target q \<noteq> Some [] \<and> rq_reason q \<noteq> []"

definition integrity_request_ok :: "integrity_request \<Rightarrow> bool" where
  "integrity_request_ok q \<longleftrightarrow> iq_node_id q \<noteq> Some []"

definition rebalance_request_ok :: "rebalance_request \<Rightarrow> bool" where
  "rebalance_request_ok q \<longleftrightarrow> bq_source q \<noteq> [] \<and> bq_target q \<noteq> []"

definition create_repair :: "'n enqueue \<Rightarrow> int \<Rightarrow> repair_request \<Rightarrow> ('n, repair_job \<times> string) act" where
  "create_repair q default_factor req =
     bindA (case (rq_source req, rq_target req) of
         (Some source, Some target) \<Rightarrow>
           bindA (repair_create_job (rq_version_id req) source target (rq_reason req)) (\<lambda>j. retA (Some j))
       | (None, None) \<Rightarrow> schedule_for_version default_factor (rq_version_id req) None (rq_reason req) None
       | _ \<Rightarrow> raiseA ValueError) (\<lambda>job.
     case job of
       None \<Rightarrow> raiseA (VaultE InvalidState)
     | Some j \<Rightarrow> bindA (net_call (q (RepairVersion (rq_version_id req) (rp_id j)))) (\<lambda>task. retA (j, task)))"

definition newest :: "('j \<Rightarrow> time) \<Rightarrow> 'j list \<Rightarrow> 'j list" where
  "newest created_at jobs = take 100 (sort_key (\<lambda>j. - created_at j) jobs)"

definition list_repairs :: "('n, repair_job list) act" where
  "list_repairs = query (\<lambda>d. newest rp_created_at (repair_jobs d))"

definition get_repair :: "uuid \<Rightarrow> ('n, repair_job) act" where
  "get_repair i = bindA (query (\<lambda>d. get_repair_row d i)) (\<lambda>found.
     case found of None \<Rightarrow> raiseA (VaultE (ObjectNotFound (TextId (uuid_str i)))) | Some j \<Rightarrow> retA j)"

definition create_integrity :: "'n enqueue \<Rightarrow> integrity_request \<Rightarrow> ('n, integrity_job \<times> string) act" where
  "create_integrity q req =
     bindA (integrity_create_job (iq_node_id req) (iq_version_id req)) (\<lambda>j.
     bindA (net_call (q (RunIntegrityCheck (ig_id j)))) (\<lambda>task. retA (j, task)))"

definition list_integrity :: "('n, integrity_job list) act" where
  "list_integrity = query (\<lambda>d. newest ig_created_at (integrity_jobs d))"

definition get_integrity :: "uuid \<Rightarrow> ('n, integrity_job) act" where
  "get_integrity i = bindA (query (\<lambda>d. get_integrity_row d i)) (\<lambda>found.
     case found of None \<Rightarrow> raiseA (VaultE (ObjectNotFound (TextId (uuid_str i)))) | Some j \<Rightarrow> retA j)"

definition create_rebalance :: "'n enqueue \<Rightarrow> rebalance_request \<Rightarrow> ('n, rebalance_job \<times> string) act" where
  "create_rebalance q req =
     bindA (rebalance_create_job (bq_version_id req) (bq_source req) (bq_target req)) (\<lambda>j.
     bindA (query (\<lambda>d. replica_on d (bq_version_id req) (bq_source req))) (\<lambda>replica.
     case replica of
       None \<Rightarrow> raiseA (VaultE (ObjectNotFound
         (TextId (''Replica for version '' @ uuid_str (bq_version_id req) @ '' on '' @ bq_source req))))
     | Some r \<Rightarrow> bindA (net_call (q (MigrateReplica (r_id r) (bq_target req) (rb_id j)))) (\<lambda>task. retA (j, task))))"

definition list_rebalances :: "('n, rebalance_job list) act" where
  "list_rebalances = query (\<lambda>d. newest rb_created_at (rebalance_jobs d))"

definition get_rebalance :: "uuid \<Rightarrow> ('n, rebalance_job) act" where
  "get_rebalance i = bindA (query (\<lambda>d. get_rebalance_row d i)) (\<lambda>found.
     case found of None \<Rightarrow> raiseA (VaultE (ObjectNotFound (TextId (uuid_str i)))) | Some j \<Rightarrow> retA j)"

section \<open>The administrative routes\<close>

text \<open>
  \<open>hmac.compare_digest\<close> compares text of ASCII characters and raises on any other. The configured key
  and the header that was sent are parameters.
\<close>

definition ascii :: "string \<Rightarrow> bool" where
  "ascii s \<longleftrightarrow> (\<forall>ch\<in>set s. (of_char ch :: nat) < 128)"

definition admin_auth :: "string \<Rightarrow> string \<Rightarrow> exn + bool" where
  "admin_auth env_key supplied =
     (let configured = strip env_key in
      if configured = [] \<or> supplied = [] then Inr False
      else if ascii supplied \<and> ascii configured then Inr (supplied = configured)
      else Inl TypeError)"

definition admin_only :: "string \<Rightarrow> string \<Rightarrow> ('n, 'a reply) act \<Rightarrow> ('n, 'a reply) act" where
  "admin_only env_key supplied m =
     bindA (from_result (admin_auth env_key supplied)) (\<lambda>ok. if ok then m else retA (error_response Unauthorized))"

definition admin_list_repairs :: "string \<Rightarrow> string \<Rightarrow> ('n, repair_job list reply) act" where
  "admin_list_repairs k s = admin_only k s (reply_with 200 list_repairs)"

definition admin_list_integrity :: "string \<Rightarrow> string \<Rightarrow> ('n, integrity_job list reply) act" where
  "admin_list_integrity k s = admin_only k s (reply_with 200 list_integrity)"

definition admin_list_rebalances :: "string \<Rightarrow> string \<Rightarrow> ('n, rebalance_job list reply) act" where
  "admin_list_rebalances k s = admin_only k s (reply_with 200 list_rebalances)"

definition admin_get_repair :: "string \<Rightarrow> string \<Rightarrow> uuid \<Rightarrow> ('n, repair_job reply) act" where
  "admin_get_repair k s i = admin_only k s (vault_errors (reply_with 200 (get_repair i)))"

definition admin_get_integrity :: "string \<Rightarrow> string \<Rightarrow> uuid \<Rightarrow> ('n, integrity_job reply) act" where
  "admin_get_integrity k s i = admin_only k s (vault_errors (reply_with 200 (get_integrity i)))"

definition admin_get_rebalance :: "string \<Rightarrow> string \<Rightarrow> uuid \<Rightarrow> ('n, rebalance_job reply) act" where
  "admin_get_rebalance k s i = admin_only k s (vault_errors (reply_with 200 (get_rebalance i)))"

text \<open>The body is validated before the handler runs, and so before the key is looked at.\<close>

definition admin_create_repair :: "'n enqueue \<Rightarrow> int \<Rightarrow> string \<Rightarrow> string \<Rightarrow> repair_request \<Rightarrow> ('n, (repair_job \<times> string) reply) act" where
  "admin_create_repair q default_factor k s req =
     (if \<not> repair_request_ok req then retA RequestInvalid
      else admin_only k s (request_errors (reply_with 202 (create_repair q default_factor req))))"

definition admin_create_integrity :: "'n enqueue \<Rightarrow> string \<Rightarrow> string \<Rightarrow> integrity_request \<Rightarrow> ('n, (integrity_job \<times> string) reply) act" where
  "admin_create_integrity q k s req =
     (if \<not> integrity_request_ok req then retA RequestInvalid
      else admin_only k s (vault_errors (reply_with 202 (create_integrity q req))))"

definition admin_create_rebalance :: "'n enqueue \<Rightarrow> string \<Rightarrow> string \<Rightarrow> rebalance_request \<Rightarrow> ('n, (rebalance_job \<times> string) reply) act" where
  "admin_create_rebalance q k s req =
     (if \<not> rebalance_request_ok req then retA RequestInvalid
      else admin_only k s (request_errors (reply_with 202 (create_rebalance q req))))"

section \<open>Reading back what was written\<close>

lemma held_open:
  assumes "node_holds key t w a ob v data"
  shows "c_open (node_client cluster_transport key t) a w = (Inr (), w)"
  using assms by (auto simp: node_holds_def node_client_def with_client_def bindA_def lift_run retA_def)

lemma held_bytes_served:
  assumes ok: "cluster_ok w" and held: "node_holds key t w a ob v data"
  shows "\<exists>blocks w'. c_stream (node_client cluster_transport key t) a ob v w = (Inr (Payload blocks None), w') \<and> concat blocks = data"
proof -
  obtain cf i e where cf: "client_init key t a = Inr cf" "wi_net w (cf_address cf) = Some (i, e)" "intact e (ob, v) data"
    using held by (auto simp: node_holds_def)
  have "io_works e" "0 < en_chunk_size e" using ok cf(2) by (auto simp: cluster_ok_def engine_ok_def)
  from stream_on_cluster [OF cf(2,3) this client_init_policy [OF cf(1)]] show ?thesis
    by (simp add: node_client_def with_client_def bindA_def cf(1) lift_run)
qed

lemma held_head:
  assumes ok: "cluster_ok w" and held: "node_holds key t w a ob v data" and digits: "length (nat_digits (length data)) \<le> 4300"
  shows "\<exists>w'. c_head (node_client cluster_transport key t) a ob v w = (Inr (int (length data)), w') \<and> cluster_ok w' \<and> node_holds key t w' a ob v data"
proof -
  obtain cf i e where cf: "client_init key t a = Inr cf" "wi_net w (cf_address cf) = Some (i, e)" "intact e (ob, v) data"
    using held by (auto simp: node_holds_def)
  have "io_works e" "0 < en_chunk_size e" using ok cf(2) by (auto simp: cluster_ok_def engine_ok_def)
  from head_on_cluster [OF cf(2,3) this client_init_policy [OF cf(1)] digits] obtain w'
    where run: "c_head (node_client cluster_transport key t) a ob v w = (Inr (int (length data)), w')"
    by (auto simp: node_client_def with_client_def bindA_def cf(1) lift_run)
  have "keeps (\<lambda>w. cluster_ok w \<and> node_holds key t w a ob v data) (c_head (node_client cluster_transport key t) a ob v)"
    by (rule grown_keeps(2)) (rule client_calls_grown)
  from keepsD [OF this _ run] ok held run show ?thesis by blast
qed

lemma held_preflight:
  assumes "cluster_ok (net w)" "node_holds key t (net w) (n_address n) ob v data" "length (nat_digits (length data)) \<le> 4300"
  shows "\<exists>s. preflight_read_target (node_client cluster_transport key t) ob v (n # ns) w = (Inr (n, n # ns), w\<lparr>net := s\<rparr>) \<and>
    cluster_ok s \<and> node_holds key t s (n_address n) ob v data"
proof -
  obtain s where "c_head (node_client cluster_transport key t) (n_address n) ob v (net w) = (Inr (int (length data)), s)" "cluster_ok s" "node_holds key t s (n_address n) ob v data"
    using held_head [OF assms] by blast
  then show ?thesis using held_open [OF assms(2)] by (intro exI [of _ s]) (simp add: thenA_def bindA_def net_call_def tryA_def retA_def)
qed

lemma held_stream_body:
  assumes "cluster_ok s" "node_holds key t s a ob v data"
  shows "\<exists>blocks s'. stream_body (node_client cluster_transport key t) ob v (a # as) s = (Inr (Payload blocks None), s') \<and> concat blocks = data"
  using held_bytes_served [OF assms] held_open [OF assms(2)] by (auto simp: bindA_def tryA_def retA_def)

lemma read_targets_run:
  assumes "normalize_object_name name = Inr nm" "lookup_by o_name nm (objects (view w)) = Some ob" "o_state ob = OS_ACTIVE"
    "o_current_version_id ob = Some i" "get_version_row (view w) i = Some v" "v_state v = VS_COMMITTED" "target_nodes (v_id v) (view w) \<noteq> []"
  shows "read_targets name w = (Inr (ob, v, target_nodes (v_id v) (view w)), w\<lparr>in_tx := True\<rparr>)"
  using assms by (simp add: read_targets_def gateway_head_def get_live_object_def current_version_def gateway_get_object_run bindA_def query_def retA_def)

lemma put_backed:
  assumes put: "put_object (node_client cluster_transport key t) policy max_bytes name body expected w = (Inr res, w')"
    and inv: "db_inv (view w)" and ok: "cluster_ok (net w)" and dat: "data = concat (chunks body)"
  shows "cluster_ok (net w')" "i \<in> set (pr_replicas res) \<Longrightarrow> \<exists>n x. n \<in> set (nodes (view w)) \<and> n_id n = i \<and>
      node_holds key t (net w') (n_address n) (uuid_str (pr_object_id res)) (uuid_str (pr_version_id res)) x \<and> sha256 x = sha256 data \<and> length x = length data"
proof -
  obtain nm st ob created w1 vi v w2 rr w3 x where s: "normalize_object_name name = Inr nm" "stage_upload max_bytes body = Inr st"
    "find_or_create nm w = (Inr (ob, created), w1)"
    "create_version vi (o_id ob) (su_size st) (su_checksum st) expected (view w1) = Inr (v, view w2)" "net w2 = net w1"
    "replicate_version (node_client cluster_transport key t) policy (v_id v) (retA (staged_payload st)) None None expected w2 = (Inr rr, w3)"
    "x = (case get_version_row (view w3) (v_id v) of None \<Rightarrow> v | Some x \<Rightarrow> x)"
    "res = \<lparr>pr_object_id = o_id ob, pr_name = o_name ob, pr_version_id = v_id x, pr_number = v_number x,
        pr_size = v_size x, pr_checksum = v_checksum x, pr_replicas = rr_healthy rr,
        pr_factor = pol_factor policy, pr_write_quorum = pol_write_quorum policy\<rparr>"
    "w' = w3\<lparr>stored := view w3, in_tx := False\<rparr>"
    by (rule put_stages [OF put])
  have nm: "normalize_object_name nm = Inr nm" using s(1) by (auto simp: normalize_object_name_eq split: if_splits)
  note st = stage_upload_InrD [OF s(2)] and f = found_object [OF s(3) inv nm] and v = create_version_InrD [OF s(4)]
  have "cluster.local_payload (retA (staged_payload st))" by (simp add: cluster.local_payload_def retA_def)
  from cluster.replicate_backed [OF this _ create_version_inv [OF s(4) f(1)] v(8) s(6)] ok f(6) s(5)
  have held: "cluster_ok (net w3)" "\<forall>i\<in>set (rr_healthy rr). \<exists>n\<in>set (nodes (view w2)). n_id n = i \<and> cluster.backed key t (net w3) (n_address n) v" by simp_all
  have vx: "v_id x = v_id v" using s(7) by (auto split: option.splits dest: lookup_by_SomeD)
  show "cluster_ok (net w')" using held(1) s(9) by simp
  assume "i \<in> set (pr_replicas res)"
  then obtain n y where "n \<in> set (nodes (view w2))" "n_id n = i" "node_holds key t (net w3) (n_address n) (uuid_str (v_object_id v)) (uuid_str (v_id v)) y"
    "lower (sha256 y) = lower (v_checksum v)" "int (length y) = v_size v"
    using held(2) s(8) by (fastforce simp: cluster.backed_def)
  moreover have "v_checksum v = sha256 data" "v_size v = int (length data)" using st v(3,4) dat by (simp_all add: lower_sha256)
  ultimately show "\<exists>n x. n \<in> set (nodes (view w)) \<and> n_id n = i \<and>
      node_holds key t (net w') (n_address n) (uuid_str (pr_object_id res)) (uuid_str (pr_version_id res)) x \<and> sha256 x = sha256 data \<and> length x = length data"
    using f(5) v(1,2) s(8,9) vx by (auto simp: lower_sha256)
qed

text \<open>The nodes the gateway reads a fresh upload from.\<close>

lemma put_targets:
  assumes put: "put_object c policy max_bytes name body expected w = (Inr res, w')" and inv: "db_inv (view w)" "db_inv (view w')"
    and on: "\<forall>i\<in>set (pr_replicas res). \<exists>r. replica_on (view w') (pr_version_id res) i = Some r \<and> r_status r = RS_HEALTHY"
  shows "target_nodes (pr_version_id res) (view w') \<noteq> []" "n \<in> set (target_nodes (pr_version_id res) (view w')) \<Longrightarrow> n \<in> set (nodes (view w)) \<and> n_id n \<in> set (pr_replicas res)"
proof -
  note p = put_replicas [OF put inv(1)]
  obtain i where i: "i \<in> set (pr_replicas res)" using p(2) by (cases "pr_replicas res") auto
  obtain n where n: "n \<in> set (nodes (view w))" "n_status n = NS_HEALTHY" "n_id n = i" using p(3) i by auto
  obtain r where "replica_on (view w') (pr_version_id res) i = Some r" "r_status r = RS_HEALTHY" using on i by blast
  then have "r \<in> set (replicas (view w'))" "r_version_id r = pr_version_id res" "r_node_id r = i" "r_status r = RS_HEALTHY"
    by (auto simp: replica_on_def dest: lookup_by_SomeD)
  then have "n \<in> set (target_nodes (pr_version_id res) (view w'))" using n p(1) by (auto simp: target_nodes_def)
  then show "target_nodes (pr_version_id res) (view w') \<noteq> []" by auto
  show "n \<in> set (target_nodes (pr_version_id res) (view w')) \<Longrightarrow> n \<in> set (nodes (view w)) \<and> n_id n \<in> set (pr_replicas res)" for n
    using p(1) p(4) by (fastforce simp: target_nodes_def)
qed

lemma request_errors_Reply: "request_errors m w = (Inr (Reply st x), w') \<Longrightarrow> m w = (Inr (Reply st x), w')"
  by (auto simp: request_errors_def retA_def raiseA_def error_response_def invalid_request_response_def
      split: exn.splits elim!: catchA_InrE)

lemma session_scope_run:
  "session_scope m w = (r, w') \<longleftrightarrow> (\<exists>w1. m (w\<lparr>view := stored w, in_tx := False\<rparr>) = (r, w1) \<and> w' = w1\<lparr>view := stored w1, in_tx := False\<rparr>)"
  by (auto simp: session_scope_def rollback_def split: prod.splits)

lemma route_put_created:
  assumes "route_put_object c policy max_bytes name cl body expected w = (Inr (Reply 201 res), w')"
  obtains w1 where "put_object c policy max_bytes name body expected (w\<lparr>view := stored w, in_tx := False\<rparr>) = (Inr res, w1)"
    "w' = w1\<lparr>view := stored w1, in_tx := False\<rparr>"
proof -
  have "request_errors (reply_with 201 (put_object c policy max_bytes name body expected)) w = (Inr (Reply 201 res), w')"
    using assms by (auto simp: route_put_object_def check_content_length_def retA_def error_response_def invalid_request_response_def split: option.splits if_splits)
  then have "session_scope (put_object c policy max_bytes name body expected) w = (Inr res, w')"
    by (auto simp: reply_with_def retA_def dest!: request_errors_Reply elim!: bindA_InrE)
  then show thesis using that by (auto simp: session_scope_run)
qed

lemma held_select:
  assumes tables: "normalize_object_name name = Inr nm" "lookup_by o_name nm (objects (view w)) = Some ob" "o_state ob = OS_ACTIVE"
      "o_current_version_id ob = Some i" "get_version_row (view w) i = Some v" "v_state v = VS_COMMITTED" "target_nodes (v_id v) (view w) = n # ns"
    and held: "cluster_ok (net w)" "node_holds key t (net w) (n_address n) (uuid_str (o_id ob)) (uuid_str (v_id v)) data" "length (nat_digits (length data)) \<le> 4300"
  shows "\<exists>s. select_target (node_client cluster_transport key t) name w = (Inr (ob, v, n # n # ns), w\<lparr>in_tx := True, net := s\<rparr>) \<and>
    cluster_ok s \<and> node_holds key t s (n_address n) (uuid_str (o_id ob)) (uuid_str (v_id v)) data"
proof -
  let ?c = "node_client cluster_transport key t"
  have targets: "read_targets name w = (Inr (ob, v, n # ns), w\<lparr>in_tx := True\<rparr>)"
    using read_targets_run [of name nm w ob i v] tables by simp
  obtain s where pre: "preflight_read_target ?c (uuid_str (o_id ob)) (uuid_str (v_id v)) (n # ns) (w\<lparr>in_tx := True\<rparr>) = (Inr (n, n # ns), w\<lparr>in_tx := True, net := s\<rparr>)"
    and s: "cluster_ok s" "node_holds key t s (n_address n) (uuid_str (o_id ob)) (uuid_str (v_id v)) data"
    using held_preflight [of "w\<lparr>in_tx := True\<rparr>" key t n "uuid_str (o_id ob)" "uuid_str (v_id v)" data ns] held by auto
  then show ?thesis using targets by (intro exI [of _ s]) (simp add: select_target_def bindA_def retA_def del: preflight_read_target.simps)
qed

lemma get_open:
  assumes "select_target (node_client cluster_transport key t) name w = (Inr (ob, v, n # n # ns), w1)"
    and "cluster_ok (net w1)" "node_holds key t (net w1) (n_address n) (uuid_str (o_id ob)) (uuid_str (v_id v)) data"
  shows "\<exists>blocks w'. route_get_object OpenSession (node_client cluster_transport key t) name w =
      (Inr (Reply 200 \<lparr>og_length = v_size v, og_version_id = v_id v, og_number = v_number v, og_checksum = v_checksum v, og_body = Payload blocks None\<rparr>), w') \<and>
    concat blocks = data"
proof -
  let ?c = "node_client cluster_transport key t"
  obtain blocks s' where "stream_body ?c (uuid_str (o_id ob)) (uuid_str (v_id v)) (n_address n # n_address n # map n_address ns) (net w1) = (Inr (Payload blocks None), s')"
    "concat blocks = data" using held_stream_body [OF assms(2,3)] by blast
  then show ?thesis
    by (simp add: route_get_object_def catchA_def bindA_def assms(1) net_call_def retA_def del: stream_body.simps)
qed

text \<open>With the session factory of the application a download never succeeds.\<close>

lemma wired_get_raises:
  assumes "select_target c name (w\<lparr>view := stored w, in_tx := False\<rparr>) = (Inr x, w1)"
  shows "fst (route_get_object SessionScope c name w) = Inl DetachedInstanceError"
proof -
  have "session_scope (select_target c name) w = (Inr x, w1\<lparr>view := stored w1, in_tx := False\<rparr>)"
    using assms by (auto simp: session_scope_run)
  then show ?thesis by (cases x) (simp add: route_get_object_def catchA_def bindA_def raiseA_def network_error_def)
qed

lemma wired_get_never_answers: "fst (route_get_object SessionScope c name w) \<noteq> Inr (Reply st g)"
proof (cases "select_target c name (w\<lparr>view := stored w, in_tx := False\<rparr>)")
  case (Pair r w1)
  show ?thesis
  proof (cases r)
    case (Inr x)
    then show ?thesis using wired_get_raises [of c name w x w1] Pair by simp
  next
    case (Inl e)
    then have "session_scope (select_target c name) w = (Inl e, w1\<lparr>view := stored w1, in_tx := False\<rparr>)"
      using Pair by (auto simp: session_scope_run)
    then show ?thesis
      by (simp add: route_get_object_def catchA_def bindA_def retA_def raiseA_def error_response_def invalid_request_response_def split: exn.split)
  qed
qed

text \<open>
  C1. What was uploaded is there to be downloaded, and the wired download fails. When the gateway answers a PUT on
  a cluster of storage nodes behind a loss-free transport with 201, a GET of the same name over a session that stays open, as
  the tests set it up, is answered with 200; its headers carry the version, the SHA-256 and the length of the
  uploaded bytes, and the body ends normally and has that SHA-256 and that length. With the session
  factory that \<^verbatim>\<open>gateway/app.py\<close> passes to the router, \<open>session_scope\<close>, the same GET selects the replica and
  then raises \<open>DetachedInstanceError\<close>, since the rows have been expired and detached.
\<close>

theorem gateway_put_get:
  assumes put: "route_put_object (node_client cluster_transport key t) policy max_bytes name cl body expected w = (Inr (Reply 201 res), w')"
    and inv: "db_inv (stored w)" and ok: "cluster_ok (net w)"
    and data: "data = concat (chunks body)" "length (nat_digits (length data)) \<le> 4300"
  shows "(\<exists>g w''. route_get_object OpenSession (node_client cluster_transport key t) name w' = (Inr (Reply 200 g), w'') \<and>
    og_version_id g = pr_version_id res \<and> og_number g = pr_number res \<and> og_checksum g = sha256 data \<and> og_length g = int (length data) \<and>
    abort (og_body g) = None \<and> sha256 (concat (chunks (og_body g))) = sha256 data \<and> length (concat (chunks (og_body g))) = length data) \<and>
   fst (route_get_object SessionScope (node_client cluster_transport key t) name w') = Inl DetachedInstanceError"
proof -
  let ?c = "node_client cluster_transport key t" and ?w = "w\<lparr>view := stored w, in_tx := False\<rparr>"
  obtain w1 where run: "put_object ?c policy max_bytes name body expected ?w = (Inr res, w1)" and w': "w' = w1\<lparr>view := stored w1, in_tx := False\<rparr>"
    by (rule route_put_created [OF put])
  have inv0: "db_inv (view ?w)" and ok0: "cluster_ok (net ?w)" using inv ok by simp_all
  obtain nm ob v where d: "normalize_object_name name = Inr nm" "stored w1 = view w1" "db_inv (view w1)"
    "lookup_by o_name nm (objects (view w1)) = Some ob" "o_state ob = OS_ACTIVE" "o_current_version_id ob = Some (v_id v)"
    "get_version_row (view w1) (v_id v) = Some v" "v_state v = VS_COMMITTED" "v_checksum v = sha256 data" "v_size v = int (length data)"
    "pr_object_id res = o_id ob" "pr_version_id res = v_id v" "pr_number res = v_number v"
    "\<forall>i\<in>set (pr_replicas res). \<exists>r. replica_on (view w1) (v_id v) i = Some r \<and> r_status r = RS_HEALTHY"
    using put_durable [OF run inv0 data(1)] by auto
  note targets = put_targets [OF run inv0 d(3)]
  obtain n ns where n: "target_nodes (v_id v) (view w1) = n # ns" using targets(1) d(12,14) by (cases "target_nodes (v_id v) (view w1)") auto
  have mem: "n \<in> set (nodes (stored w))" "n_id n \<in> set (pr_replicas res)" using targets(2) [of n] d(12,14) n by auto
  obtain m x where m: "m \<in> set (nodes (stored w))" "n_id m = n_id n" "node_holds key t (net w1) (n_address m) (uuid_str (o_id ob)) (uuid_str (v_id v)) x"
    "sha256 x = sha256 data" "length x = length data"
    using put_backed(2) [OF run inv0 ok0 data(1) mem(2)] d(11,12) by auto
  have "m = n" using m(1,2) mem(1) db_inv_distinct(4) [OF inv] by (auto simp: distinct_map dest: inj_onD)
  then have holds: "node_holds key t (net w1) (n_address n) (uuid_str (o_id ob)) (uuid_str (v_id v)) x" using m(3) by simp
  have "cluster_ok (net w1)" by (rule put_backed(1) [OF run inv0 ok0 data(1)])
  then obtain s where sel: "select_target ?c name w' = (Inr (ob, v, n # n # ns), w'\<lparr>in_tx := True, net := s\<rparr>)" "cluster_ok s"
      "node_holds key t s (n_address n) (uuid_str (o_id ob)) (uuid_str (v_id v)) x"
    using held_select [of name nm w' ob "v_id v" v n ns key t x] d(1,2,4-8) n holds data(2) m(5) w' by auto
  obtain blocks w'' where "route_get_object OpenSession ?c name w' =
      (Inr (Reply 200 \<lparr>og_length = v_size v, og_version_id = v_id v, og_number = v_number v, og_checksum = v_checksum v, og_body = Payload blocks None\<rparr>), w'')"
    "concat blocks = x"
    using get_open [OF sel(1), of x] sel(2,3) by auto
  moreover have "w'\<lparr>view := stored w', in_tx := False\<rparr> = w'" using w' by simp
  ultimately show ?thesis using d(9,10,12,13) m(4,5) wired_get_raises [of ?c name w'] sel(1) by auto
qed

theorem gateway_put_get_witness:
  "\<exists>res w' g w''. route_put_object (node_client cluster_transport '' secret '' 30) demo_policy1 8 ''a'' (Some ''3'') (Payload [[1, 2, 3]] None) (Some 0) (put_world demo_wire) =
      (Inr (Reply 201 res), w') \<and>
    route_get_object OpenSession (node_client cluster_transport '' secret '' 30) ''a'' w' = (Inr (Reply 200 g), w'') \<and> length (concat (chunks (og_body g))) = 3 \<and>
    sha256 (concat (chunks (og_body g))) = sha256 [1, 2, 3]"
proof -
  let ?c = "node_client cluster_transport '' secret '' 30" and ?w = "put_world demo_wire"
  obtain res w1 where put: "put_object ?c demo_policy1 8 ''a'' (Payload [[1, 2, 3]] None) (Some 0) ?w = (Inr res, w1)"
    using demo_put [OF someI_ex [OF demo_write_one]] by blast
  have "?w\<lparr>view := stored ?w, in_tx := False\<rparr> = ?w" by (simp add: put_world_def demo_world_def)
  then have "session_scope (put_object ?c demo_policy1 8 ''a'' (Payload [[1, 2, 3]] None) (Some 0)) ?w = (Inr res, w1\<lparr>view := stored w1, in_tx := False\<rparr>)"
    using put by (auto simp: session_scope_run)
  moreover have "check_content_length 8 (Some ''3'') = (None :: put_result reply option)" by code_simp
  ultimately have r: "route_put_object ?c demo_policy1 8 ''a'' (Some ''3'') (Payload [[1, 2, 3]] None) (Some 0) ?w =
      (Inr (Reply 201 res), w1\<lparr>view := stored w1, in_tx := False\<rparr>)"
    by (simp add: route_put_object_def request_errors_def reply_with_def catchA_def bindA_def retA_def)
  have "db_inv (stored ?w)" using put_world_inv(1,3) by metis
  moreover have "cluster_ok (net ?w)" using demo_engine_ok(1) by (simp add: put_world_def demo_world_def demo_wire_def cluster_ok_def demo_engine_def)
  moreover have "length (nat_digits (Suc (Suc (Suc 0)))) \<le> 4300" by code_simp
  ultimately obtain g w'' where "route_get_object OpenSession ?c ''a'' (w1\<lparr>view := stored w1, in_tx := False\<rparr>) = (Inr (Reply 200 g), w'')"
    "sha256 (concat (chunks (og_body g))) = sha256 [1, 2, 3]" "length (concat (chunks (og_body g))) = 3"
    using gateway_put_get [OF r _ _ refl] by (auto simp: numeral_3_eq_3)
  then show ?thesis using r by blast
qed

section \<open>The administrative key\<close>

lemma admin_only_run:
  "admin_only k s m w = (case admin_auth k s of Inl e \<Rightarrow> (Inl e, w) | Inr True \<Rightarrow> m w | Inr False \<Rightarrow> (Inr (ErrorReply 401 UNAUTHORIZED), w))"
  by (simp add: admin_only_def from_result_run retA_def error_response_def split: sum.split bool.split)

lemma admin_auth_True: "admin_auth k s = Inr True \<longleftrightarrow> strip k \<noteq> [] \<and> s = strip k \<and> ascii s"
  by (auto simp: admin_auth_def Let_def split: if_splits)

definition refused :: "(exn + 'a reply) \<times> 'n world \<Rightarrow> 'n world \<Rightarrow> bool" where
  "refused out w \<longleftrightarrow> snd out = w \<and> fst out \<in> {Inr RequestInvalid, Inr (ErrorReply 401 UNAUTHORIZED), Inl TypeError}"

lemma refused_invalid: "refused (retA RequestInvalid w) w"
  by (simp add: refused_def retA_def)

lemma admin_only_refused: "admin_auth k s \<noteq> Inr True \<Longrightarrow> refused (admin_only k s m w) w"
  by (auto simp: refused_def admin_only_run admin_auth_def Let_def split: if_splits)

text \<open>
  C13. The administrative interface is closed without its key: unless the request carries exactly the
  configured key, which must not be blank, every administrative route refuses, and neither the metadata,
  nor the job queue, nor the network is touched. A key with a character outside ASCII is refused too, by
  an exception.
\<close>

theorem admin_requires_key:
  assumes "\<not> (strip env_key \<noteq> [] \<and> supplied = strip env_key \<and> ascii supplied)"
  shows "refused (admin_create_repair q factor env_key supplied rq w) w \<and> refused (admin_create_integrity q env_key supplied iq w) w \<and>
    refused (admin_create_rebalance q env_key supplied bq w) w \<and>
    refused (admin_list_repairs env_key supplied w) w \<and> refused (admin_list_integrity env_key supplied w) w \<and>
    refused (admin_list_rebalances env_key supplied w) w \<and>
    refused (admin_get_repair env_key supplied i w) w \<and> refused (admin_get_integrity env_key supplied i w) w \<and>
    refused (admin_get_rebalance env_key supplied i w) w"
proof -
  have no: "admin_auth env_key supplied \<noteq> Inr True" using assms admin_auth_True by blast
  show ?thesis
    unfolding admin_create_repair_def admin_create_integrity_def admin_create_rebalance_def admin_list_repairs_def admin_list_integrity_def
      admin_list_rebalances_def admin_get_repair_def admin_get_integrity_def admin_get_rebalance_def
    by (simp add: admin_only_refused [OF no] refused_invalid)
qed

definition demo_enqueue :: "message \<Rightarrow> (exn, unit, string) action" where
  "demo_enqueue m = retA ''task''"

theorem admin_requires_key_witness:
  "refused (admin_create_integrity demo_enqueue '' key '' ''guess'' \<lparr>iq_node_id = None, iq_version_id = None\<rparr> (demo_world demo_copying ())) (demo_world demo_copying ()) \<and>
   fst (admin_create_integrity demo_enqueue '' key '' ''guess'' \<lparr>iq_node_id = None, iq_version_id = None\<rparr> (demo_world demo_copying ())) = Inr (ErrorReply 401 UNAUTHORIZED)"
proof -
  have "\<not> (strip '' key '' \<noteq> [] \<and> ''guess'' = strip '' key '' \<and> ascii ''guess'')" by code_simp
  note closed = admin_requires_key [OF this]
  have "admin_auth '' key '' ''guess'' = Inr False" by code_simp
  then have "fst (admin_create_integrity demo_enqueue '' key '' ''guess'' \<lparr>iq_node_id = None, iq_version_id = None\<rparr> (demo_world demo_copying ())) =
      Inr (ErrorReply 401 UNAUTHORIZED)"
    by (simp add: admin_create_integrity_def integrity_request_ok_def admin_only_run)
  then show ?thesis using closed by blast
qed

section \<open>Queued jobs are durable\<close>

definition synced :: "'n world \<Rightarrow> bool" where
  "synced w \<longleftrightarrow> view w = stored w"

lemma synced_quiet [keeps_rules]:
  "keeps synced new_uuid" "keeps synced now" "keeps synced (query f)" "keeps synced (live f)" "keeps synced (net_call m)" "keeps synced (from_result r)"
  "keeps synced (add_commit ins)"
  by (auto simp: keeps_def synced_def session_defs split: prod.split sum.split)

text \<open>An action of a session without pending changes that keeps it so and returns rows that are durable.\<close>

definition yields :: "('a \<Rightarrow> db \<Rightarrow> bool) \<Rightarrow> ('n, 'a) act \<Rightarrow> bool" where
  "yields R m \<longleftrightarrow> hoare synced m (\<lambda>x w. synced w \<and> R x (stored w)) (\<lambda>_. synced)"

lemma yields_bind: "keeps synced m \<Longrightarrow> (\<And>x. yields R (f x)) \<Longrightarrow> yields R (bindA m f)"
  unfolding yields_def by (rule hoare_frame_bind)

lemma yields_then: "keeps synced m \<Longrightarrow> yields R n \<Longrightarrow> yields R (thenA m n)"
  unfolding yields_def by (rule hoare_frame_then)

lemma yields_raise: "yields R (raiseA e)"
  unfolding yields_def by (rule hoare_frame_raise)

lemma yields_if: "(b \<Longrightarrow> yields R m) \<Longrightarrow> (\<not> b \<Longrightarrow> yields R n) \<Longrightarrow> yields R (if b then m else n)"
  by simp

lemma yields_option:
  "(x = None \<Longrightarrow> yields R m) \<Longrightarrow> (\<And>y. x = Some y \<Longrightarrow> yields R (f y)) \<Longrightarrow> yields R (case x of None \<Rightarrow> m | Some y \<Rightarrow> f y)"
  by (cases x) simp_all

lemma yields_list:
  "(x = [] \<Longrightarrow> yields R m) \<Longrightarrow> (\<And>y ys. x = y # ys \<Longrightarrow> yields R (f y ys)) \<Longrightarrow> yields R (case x of [] \<Rightarrow> m | y # ys \<Rightarrow> f y ys)"
  by (cases x) simp_all

lemma yields_ret: "(\<And>d. R x d) \<Longrightarrow> yields R (retA x)"
  by (simp add: yields_def hoare_def retA_def)

text \<open>Looking a row up and returning it, and what is done with a row that was returned.\<close>

lemma yields_existing:
  assumes "\<And>d j. f d = Some j \<Longrightarrow> R (g j) d" "yields R m"
  shows "yields R (bindA (query f) (\<lambda>x. case x of None \<Rightarrow> m | Some j \<Rightarrow> retA (g j)))"
proof -
  have "yields R m \<Longrightarrow> synced w \<Longrightarrow> synced (w\<lparr>in_tx := True\<rparr>)" for w :: "'a world" by (simp add: synced_def)
  then show ?thesis using assms
    by (auto simp: yields_def hoare_def bindA_query synced_def retA_def split: option.split)
qed

lemma yields_after:
  assumes "yields R m" "\<And>x. hoare (\<lambda>w. synced w \<and> R x (stored w)) (f x) (\<lambda>y w. synced w \<and> S y (stored w)) (\<lambda>_. synced)"
  shows "yields S (bindA m f)"
  using assms unfolding yields_def by (rule hoare_bindA)

lemma yields_return: "yields R m \<Longrightarrow> (\<And>x d. R x d \<Longrightarrow> S (f x) d) \<Longrightarrow> yields S (bindA m (\<lambda>x. retA (f x)))"
  by (erule yields_after) (simp add: hoare_def retA_def)

lemma yields_insert:
  "yields (\<lambda>j d. j \<in> set (repair_jobs d)) (add_commit (insert_repair j))" "yields (\<lambda>j d. j \<in> set (rebalance_jobs d)) (add_commit (insert_rebalance k))"
  "yields (\<lambda>j d. j \<in> set (integrity_jobs d)) (add_commit (insert_integrity l))"
  by (auto simp: yields_def hoare_def add_commit_def synced_def insert_repair_def insert_rebalance_def insert_integrity_def split: if_splits)

lemmas yields_rules = yields_existing yields_bind yields_then yields_raise yields_if yields_option yields_list yields_insert

lemma find_in: "find P xs = Some x \<Longrightarrow> x \<in> set xs"
  by (auto simp: find_Some_iff)

lemma integrity_job_durable: "yields (\<lambda>j d. j \<in> set (integrity_jobs d)) (integrity_create_job n v)"
  unfolding integrity_create_job_def require_node_def repair_version_row_def by (intro yields_rules keeps_rules)

lemma repair_job_durable: "yields (\<lambda>j d. j \<in> set (repair_jobs d)) (repair_create_job v s t reason)"
proof -
  have "yields (\<lambda>j d. j \<in> set (repair_jobs d)) (repair_new_job v s t reason)"
    unfolding repair_new_job_def
    by (rule yields_existing [where g = "\<lambda>j. j"]) (auto simp: active_repair_def dest: find_in intro!: yields_bind yields_raise yields_insert keeps_rules)
  then show ?thesis unfolding repair_create_job_def by (intro yields_if yields_bind yields_option yields_raise keeps_rules)
qed

lemma rebalance_job_durable: "yields (\<lambda>j d. j \<in> set (rebalance_jobs d)) (rebalance_create_job v s t)"
proof -
  have existing: "yields (\<lambda>j d. j \<in> set (rebalance_jobs d)) (bindA (query (active_rebalance v t)) (\<lambda>active. case active of Some j \<Rightarrow> retA j
     | None \<Rightarrow> bindA new_uuid (\<lambda>i. bindA now (\<lambda>created. add_commit (insert_rebalance (new_rebalance_job i created v s t))))))"
    by (rule yields_existing [where g = "\<lambda>j. j"])
      (auto simp: active_rebalance_def first_of_def intro!: yields_bind yields_insert keeps_rules split: list.splits dest!: arg_cong [where f = set])
  show ?thesis
    unfolding rebalance_create_job_def rebalance_version_def require_node_def
    by (intro existing yields_if yields_bind yields_then yields_option yields_raise keeps_rules)
qed

lemma scheduled_job_durable:
  "yields (\<lambda>x d. case x of None \<Rightarrow> True | Some j \<Rightarrow> j \<in> set (repair_jobs d)) (schedule_for_version factor v rf reason preferred)"
proof -
  have existing: "yields (\<lambda>x d. case x of None \<Rightarrow> True | Some j \<Rightarrow> j \<in> set (repair_jobs d)) (bindA (query (active_repair v t)) (\<lambda>existing. case existing of
            Some j \<Rightarrow> retA (Some j) | None \<Rightarrow> bindA (repair_create_job v s t reason) (\<lambda>j. retA (Some j))))" for s t
    by (rule yields_existing [where g = Some])
      (auto simp: active_repair_def dest: find_in intro!: yields_return [OF repair_job_durable])
  show ?thesis
    unfolding schedule_for_version_def repair_version_row_def target_for_version_def Let_def
    by (intro existing yields_if yields_bind yields_option yields_list yields_raise keeps_rules yields_ret keeps_Let) simp
qed

lemma queue_after:
  "hoare (\<lambda>w. synced w \<and> R j (stored w)) (bindA (net_call m) (\<lambda>task. retA (j, task))) (\<lambda>y w. synced w \<and> R (fst y) (stored w)) (\<lambda>_. synced)"
  by (auto simp: hoare_def bindA_def net_call_def retA_def synced_def split: prod.split sum.split)

lemma yields_queue: "yields R m \<Longrightarrow> yields (\<lambda>y. R (fst y)) (bindA m (\<lambda>j. bindA (net_call (f j)) (\<lambda>task. retA (j, task))))"
  by (erule yields_after) (rule queue_after)

lemma create_repair_durable: "yields (\<lambda>y d. fst y \<in> set (repair_jobs d)) (create_repair q factor req)"
proof -
  have job: "yields (\<lambda>x d. case x of None \<Rightarrow> True | Some j \<Rightarrow> j \<in> set (repair_jobs d))
     (case (rq_source req, rq_target req) of
         (Some source, Some target) \<Rightarrow> bindA (repair_create_job (rq_version_id req) source target (rq_reason req)) (\<lambda>j. retA (Some j))
       | (None, None) \<Rightarrow> schedule_for_version factor (rq_version_id req) None (rq_reason req) None
       | _ \<Rightarrow> raiseA ValueError)"
    by (cases "rq_source req"; cases "rq_target req") (simp_all add: scheduled_job_durable yields_raise yields_return [OF repair_job_durable])
  have queue: "hoare (\<lambda>w. synced w \<and> (case x of None \<Rightarrow> True | Some j \<Rightarrow> j \<in> set (repair_jobs (stored w))))
     (case x of None \<Rightarrow> raiseA (VaultE InvalidState) | Some j \<Rightarrow> bindA (net_call (q (RepairVersion (rq_version_id req) (rp_id j)))) (\<lambda>task. retA (j, task)))
     (\<lambda>y w. synced w \<and> fst y \<in> set (repair_jobs (stored w))) (\<lambda>_. synced)" for x
  proof (cases x)
    case (Some j)
    then show ?thesis using queue_after [where R = "\<lambda>j d. j \<in> set (repair_jobs d)"] by simp
  qed (simp add: hoare_def raiseA_def)
  show ?thesis unfolding create_repair_def by (rule yields_after [OF job]) (rule queue)
qed

lemma create_rebalance_durable: "yields (\<lambda>y d. fst y \<in> set (rebalance_jobs d)) (create_rebalance q req)"
proof -
  have "hoare (\<lambda>w. synced w \<and> j \<in> set (rebalance_jobs (stored w)))
     (bindA (query f) (\<lambda>replica. case replica of None \<Rightarrow> raiseA e
       | Some r \<Rightarrow> bindA (net_call (g r)) (\<lambda>task. retA (j, task))))
     (\<lambda>y w. synced w \<and> fst y \<in> set (rebalance_jobs (stored w))) (\<lambda>_. synced)" for j f e and g :: "replica_row \<Rightarrow> (exn, 'a, string) action"
    by (auto simp: hoare_def query_def synced_def raiseA_def bindA_def net_call_def retA_def split: option.split prod.split sum.split)
  then show ?thesis unfolding create_rebalance_def by (intro yields_after [OF rebalance_job_durable])
qed

lemma create_integrity_durable: "yields (\<lambda>y d. fst y \<in> set (integrity_jobs d)) (create_integrity q req)"
  unfolding create_integrity_def by (rule yields_queue [OF integrity_job_durable])

lemma yields_scope:
  assumes "yields R m" "session_scope m w = (Inr y, w')"
  shows "R y (stored w')"
proof -
  obtain w1 where "m (w\<lparr>view := stored w, in_tx := False\<rparr>) = (Inr y, w1)" "stored w' = stored w1" using assms(2) by (auto simp: session_scope_run)
  then show ?thesis using hoareD_Inr [OF assms(1) [unfolded yields_def], of "w\<lparr>view := stored w, in_tx := False\<rparr>"] by (simp add: synced_def)
qed

text \<open>
  C40. A job that is reported as queued is durable. When an administrative request answers with a job and the
  identifier of the queued task, the row of the job is in the durable tables: it was committed, by this
  request or an earlier one.
\<close>

theorem admin_jobs_durable:
  "(session_scope (create_repair q factor rq) w = (Inr (j, task), w') \<longrightarrow> j \<in> set (repair_jobs (stored w'))) \<and>
   (session_scope (create_integrity q iq) w = (Inr (i, task), w') \<longrightarrow> i \<in> set (integrity_jobs (stored w'))) \<and>
   (session_scope (create_rebalance q bq) w = (Inr (k, task), w') \<longrightarrow> k \<in> set (rebalance_jobs (stored w')))"
  using yields_scope [OF create_repair_durable] yields_scope [OF create_integrity_durable] yields_scope [OF create_rebalance_durable] by fastforce

definition demo_admin_check :: "(exn + integrity_job \<times> string) \<times> unit world" where
  "demo_admin_check = session_scope (create_integrity demo_enqueue \<lparr>iq_node_id = None, iq_version_id = None\<rparr>) (demo_world demo_copying ())"

theorem admin_jobs_durable_witness:
  "\<exists>i w'. demo_admin_check = (Inr (i, ''task''), w') \<and> i \<in> set (integrity_jobs (stored w'))"
proof -
  have "(case fst demo_admin_check of Inr (i, t) \<Rightarrow> t = ''task'' | Inl _ \<Rightarrow> False)" by code_simp
  then obtain i where "fst demo_admin_check = Inr (i, ''task'')" by (auto split: sum.splits)
  then obtain w' where r: "demo_admin_check = (Inr (i, ''task''), w')" by (metis prod.collapse)
  then show ?thesis using admin_jobs_durable [THEN conjunct2, THEN conjunct1, THEN mp, OF r [unfolded demo_admin_check_def]] by blast
qed

end
