(* ===== verification/Rate_Limit.thy ===== *)
theory Rate_Limit
  imports Vault_Common
begin

text \<open>
  The sliding-window limiter of \<^verbatim>\<open>common/rate_limit.py\<close>. The dictionary of deques is an
  association list in insertion order (the eviction rule depends on that order), time
  stamps are reals, and the lock makes every call of \<open>allow\<close> one atomic step.
\<close>

record rate_limiter =
  rl_limit :: int
  rl_window_seconds :: real
  rl_max_clients :: int
  rl_events :: "(string \<times> real list) list"

definition rate_limiter_init :: "int \<Rightarrow> real \<Rightarrow> int \<Rightarrow> exn + rate_limiter" where
  "rate_limiter_init limit window clients =
     (if limit < 0 then Inl ValueError
      else if window \<le> 0 then Inl ValueError
      else if clients < 1 then Inl ValueError
      else Inr \<lparr>rl_limit = limit, rl_window_seconds = window, rl_max_clients = clients,
                rl_events = []\<rparr>)"

definition evict_one_empty_client :: "(string \<times> real list) list \<Rightarrow> (string \<times> real list) list" where
  "evict_one_empty_client evs =
     (case find (\<lambda>(k, es). es = []) evs of
        Some (k, _) \<Rightarrow> filter (\<lambda>(k', _). k' \<noteq> k) evs
      | None \<Rightarrow> tl evs)"

definition setdefault :: "string \<Rightarrow> (string \<times> real list) list \<Rightarrow> (string \<times> real list) list" where
  "setdefault k evs = (if k \<in> fst ` set evs then evs else evs @ [(k, [])])"

definition set_events ::
  "string \<Rightarrow> real list \<Rightarrow> (string \<times> real list) list \<Rightarrow> (string \<times> real list) list" where
  "set_events k es evs = map (\<lambda>(k', es'). if k' = k then (k', es) else (k', es')) evs"

definition allow ::
  "string \<Rightarrow> real \<Rightarrow> rate_limiter \<Rightarrow> exn + (bool \<times> int) \<times> rate_limiter" where
  "allow client_key now rl =
     (if client_key = [] then Inl ValueError
      else if rl_limit rl = 0 then Inr ((True, 0), rl)
      else
        (let cutoff = now - rl_window_seconds rl;
             tab = setdefault client_key (rl_events rl);
             events = dropWhile (\<lambda>t. t \<le> cutoff) (the (map_of tab client_key))
         in if rl_limit rl \<le> int (length events)
            then Inr ((False, max 1 \<lceil>rl_window_seconds rl - (now - hd events)\<rceil>),
                      rl\<lparr>rl_events := set_events client_key events tab\<rparr>)
            else
              (let tab' = set_events client_key (events @ [now]) tab
               in Inr ((True, 0),
                       rl\<lparr>rl_events := (if rl_max_clients rl < int (length tab')
                                        then evict_one_empty_client tab' else tab')\<rparr>))))"

definition rl_wf :: "rate_limiter \<Rightarrow> bool" where
  "rl_wf rl \<longleftrightarrow> 0 \<le> rl_limit rl \<and> 0 < rl_window_seconds rl \<and> 1 \<le> rl_max_clients rl \<and>
     distinct (map fst (rl_events rl)) \<and> int (length (rl_events rl)) \<le> rl_max_clients rl \<and>
     (0 < rl_limit rl \<longrightarrow> (\<forall>(k, es)\<in>set (rl_events rl). int (length es) \<le> rl_limit rl))"

definition client_events :: "string \<Rightarrow> rate_limiter \<Rightarrow> real list" where
  "client_events k rl = (case map_of (rl_events rl) k of None \<Rightarrow> [] | Some es \<Rightarrow> es)"

text \<open>A sequence of calls and the history of the accepted ones.\<close>

definition allow_step ::
  "string \<times> real \<Rightarrow> (string \<times> real) list \<times> rate_limiter \<Rightarrow> (string \<times> real) list \<times> rate_limiter" where
  "allow_step c st =
     (case allow (fst c) (snd c) (snd st) of
        Inl _ \<Rightarrow> st
      | Inr ((ok, _), rl') \<Rightarrow> (if ok then fst st @ [c] else fst st, rl'))"

definition accepted :: "(string \<times> real) list \<Rightarrow> rate_limiter \<Rightarrow> (string \<times> real) list" where
  "accepted calls rl = fst (fold allow_step calls ([], rl))"

definition in_window :: "string \<Rightarrow> real \<Rightarrow> real \<Rightarrow> (string \<times> real) list \<Rightarrow> nat" where
  "in_window k w t h = length (filter (\<lambda>(k', u). k' = k \<and> t - w < u \<and> u \<le> t) h)"

lemma rate_limiter_init_wf: "rate_limiter_init l w c = Inr rl \<Longrightarrow> rl_wf rl"
  by (auto simp: rate_limiter_init_def rl_wf_def split: if_splits)

lemma fst_set_events [simp]: "map fst (set_events k es evs) = map fst evs"
  by (auto simp: set_events_def)

lemma keys_set_events [simp]: "fst ` set (set_events k es evs) = fst ` set evs"
  using fst_set_events [of k es evs] by (metis list.set_map)

lemma length_set_events [simp]: "length (set_events k es evs) = length evs"
  by (simp add: set_events_def)

lemma map_of_set_events:
  "map_of (set_events k es evs) k' =
     (if k' = k then map_option (\<lambda>_. es) (map_of evs k) else map_of evs k')"
  by (induction evs) (auto simp: set_events_def)

lemma set_set_events:
  "x \<in> set (set_events k es evs) \<Longrightarrow> x = (k, es) \<or> x \<in> set evs"
  by (auto simp: set_events_def split: if_splits)

lemma map_of_setdefault:
  "map_of (setdefault k evs) k' =
     (if k' = k then Some (case map_of evs k of None \<Rightarrow> [] | Some es \<Rightarrow> es) else map_of evs k')"
proof (cases "map_of evs k")
  case None
  then have "setdefault k evs = evs @ [(k, [])]"
    by (auto simp: setdefault_def dest!: map_of_eq_None_iff [THEN iffD1])
  with None show ?thesis by (simp add: map_add_def split: option.split)
next
  case (Some es)
  then have "k \<in> fst ` set evs" by (metis map_of_eq_None_iff option.distinct(1))
  with Some show ?thesis by (simp add: setdefault_def)
qed

lemma distinct_setdefault: "distinct (map fst evs) \<Longrightarrow> distinct (map fst (setdefault k evs))"
  by (auto simp: setdefault_def)

lemma length_setdefault: "length (setdefault k evs) \<le> Suc (length evs)"
  by (simp add: setdefault_def)

lemma evict_length:
  assumes "evs \<noteq> []"
  shows "length (evict_one_empty_client evs) < length evs"
proof (cases "find (\<lambda>(k, es). es = []) evs")
  case None
  with assms show ?thesis by (simp add: evict_one_empty_client_def)
next
  case (Some kes)
  then have "kes \<in> set evs" by (metis find_Some_iff nth_mem)
  then have "length (filter (\<lambda>(k', _). k' \<noteq> fst kes) evs) < length evs"
    by (intro length_filter_less [of kes]) (auto simp: split_beta)
  with Some show ?thesis by (auto simp: evict_one_empty_client_def split_beta)
qed

lemma evict_subset: "set (evict_one_empty_client evs) \<subseteq> set evs"
  by (cases evs) (auto simp: evict_one_empty_client_def split: option.splits)

lemma evict_distinct:
  "distinct (map fst evs) \<Longrightarrow> distinct (map fst (evict_one_empty_client evs))"
  by (auto simp: evict_one_empty_client_def distinct_map_filter map_tl distinct_tl
      split: option.splits)

text \<open>The two outcomes of a call with a positive limit.\<close>

lemma allow_cases:
  assumes "allow k now rl = Inr ((ok, ra), rl')" "0 < rl_limit rl"
  defines "es \<equiv> dropWhile (\<lambda>t. t \<le> now - rl_window_seconds rl) (client_events k rl)"
    and "tab \<equiv> setdefault k (rl_events rl)"
  obtains (denied) "\<not> ok" "rl_limit rl \<le> int (length es)"
      "tab = rl_events rl" "rl' = rl\<lparr>rl_events := set_events k es tab\<rparr>"
    | (granted) "ok" "int (length es) < rl_limit rl"
      "rl' = rl\<lparr>rl_events := (if rl_max_clients rl < int (length tab)
          then evict_one_empty_client (set_events k (es @ [now]) tab)
          else set_events k (es @ [now]) tab)\<rparr>"
proof -
  have "the (map_of tab k) = client_events k rl"
    by (simp add: tab_def map_of_setdefault client_events_def)
  then have eq: "allow k now rl =
    (if k = [] then Inl ValueError
     else if rl_limit rl \<le> int (length es)
     then Inr ((False, max 1 \<lceil>rl_window_seconds rl - (now - hd es)\<rceil>), rl\<lparr>rl_events := set_events k es tab\<rparr>)
     else Inr ((True, 0), rl\<lparr>rl_events := (if rl_max_clients rl < int (length tab)
          then evict_one_empty_client (set_events k (es @ [now]) tab)
          else set_events k (es @ [now]) tab)\<rparr>))"
    using assms(2) by (simp add: allow_def Let_def es_def tab_def)
  have tab: "tab = rl_events rl" if "es \<noteq> []"
  proof -
    from that have "client_events k rl \<noteq> []" by (auto simp: es_def)
    then have "k \<in> fst ` set (rl_events rl)"
      by (auto simp: client_events_def rev_image_eqI split: option.splits dest!: map_of_SomeD)
    then show ?thesis by (simp add: tab_def setdefault_def)
  qed
  show thesis
  proof (cases "rl_limit rl \<le> int (length es)")
    case True
    then have "es \<noteq> []" using assms(2) by auto
    with True eq assms(1) tab show ?thesis by (intro denied) (auto split: if_splits)
  next
    case False
    with eq assms(1) show ?thesis by (intro granted) (auto split: if_splits)
  qed
qed

lemma client_events_le:
  assumes "rl_wf rl" "0 < rl_limit rl"
  shows "int (length (client_events k rl)) \<le> rl_limit rl"
  using assms by (fastforce simp: rl_wf_def client_events_def split: option.splits dest!: map_of_SomeD)

lemma allow_wf:
  assumes "rl_wf rl" "allow k now rl = Inr (r, rl')"
  shows "rl_wf rl'"
proof (cases "rl_limit rl = 0")
  case True
  with assms show ?thesis by (auto simp: allow_def split: if_splits)
next
  case False
  then have pos: "0 < rl_limit rl" using assms(1) by (simp add: rl_wf_def)
  obtain ok ra where r: "r = (ok, ra)" by (cases r)
  let ?es = "dropWhile (\<lambda>t. t \<le> now - rl_window_seconds rl) (client_events k rl)"
  let ?tab = "setdefault k (rl_events rl)"
  have es: "int (length ?es) \<le> rl_limit rl"
    using client_events_le [OF assms(1) pos, of k] length_dropWhile_le
    by (metis (no_types, lifting) dual_order.trans of_nat_mono)
  from assms(2) [unfolded r] pos show ?thesis
  proof (cases rule: allow_cases)
    case denied
    then show ?thesis using assms(1) es by (fastforce simp: rl_wf_def dest!: set_set_events)
  next
    case granted
    let ?tab' = "set_events k (?es @ [now]) ?tab"
    let ?fin = "if rl_max_clients rl < int (length ?tab) then evict_one_empty_client ?tab' else ?tab'"
    have "\<forall>(k, es)\<in>set ?tab'. int (length es) \<le> rl_limit rl"
      using assms(1) pos granted(2)
      by (fastforce simp: rl_wf_def setdefault_def dest!: set_set_events split: if_splits)
    moreover have "set ?fin \<subseteq> set ?tab'" using evict_subset by auto
    moreover have "distinct (map fst ?fin)"
      using assms(1) by (simp add: evict_distinct distinct_setdefault rl_wf_def)
    moreover have "?tab' \<noteq> []" by (auto simp: set_events_def setdefault_def)
    then have "int (length ?fin) \<le> rl_max_clients rl"
      using evict_length [of ?tab'] length_setdefault [of k "rl_events rl"] assms(1)
      by (auto simp: rl_wf_def)
    ultimately show ?thesis using assms(1) granted(3) by (auto simp: rl_wf_def)
  qed
qed

text \<open>
  One step of the limiter keeps the table well formed: at most \<open>max_clients\<close> clients
  are remembered, each with at most \<open>limit\<close> time stamps, whatever the keys and times are.
\<close>

theorem allow_keeps_wf:
  assumes "rl_wf rl" "allow k now rl = Inr (r, rl')"
  shows "rl_wf rl'"
  using assms by (rule allow_wf)

subsection \<open>The window is respected\<close>

definition acc :: "string \<Rightarrow> (string \<times> real) list \<Rightarrow> real list" where
  "acc k h = map snd (filter (\<lambda>c. fst c = k) h)"

lemma in_window_acc: "in_window k w t h = length (filter (\<lambda>u. t - w < u \<and> u \<le> t) (acc k h))"
  by (induction h) (auto simp: in_window_def acc_def)

lemma acc_snoc: "acc k (h @ [c]) = (if fst c = k then acc k h @ [snd c] else acc k h)"
  by (simp add: acc_def)

text \<open>
  The state of a run at time \<open>now\<close>: what the deque of a client has dropped from its
  accepted calls is older than the window, and no window holds too many calls.
\<close>

definition run_inv :: "string set \<Rightarrow> real \<Rightarrow> (string \<times> real) list \<times> rate_limiter \<Rightarrow> bool" where
  "run_inv K now st \<longleftrightarrow> (let h = fst st; rl = snd st in
     rl_wf rl \<and> fst ` set (rl_events rl) \<subseteq> K \<and>
     (\<forall>k. \<exists>pre. acc k h = pre @ client_events k rl \<and>
        (\<forall>u\<in>set pre. u \<le> now - rl_window_seconds rl)) \<and>
     (\<forall>k t. int (in_window k (rl_window_seconds rl) t h) \<le> rl_limit rl))"

lemma window_step:
  assumes "acc k h = pre @ es" "\<forall>u\<in>set pre. u \<le> now - w" "int (length es) < lm"
    "\<And>t. int (in_window k w t h) \<le> lm"
  shows "int (in_window k w t (h @ [(k, now)])) \<le> lm"
proof (cases "now \<le> t")
  case True
  have "filter (\<lambda>u. t - w < u \<and> u \<le> t) pre = []"
    using assms(2) True by (fastforce simp: filter_empty_conv)
  moreover have "length (filter (\<lambda>u. t - w < u \<and> u \<le> t) (es @ [now])) \<le> length (es @ [now])"
    by (rule length_filter_le)
  ultimately show ?thesis using assms(1,3) by (auto simp: in_window_acc acc_snoc)
next
  case False
  then show ?thesis using assms(4) [of t] by (auto simp: in_window_acc acc_snoc)
qed

lemma in_window_other: "k' \<noteq> k \<Longrightarrow> in_window k' w t (h @ [(k, now)]) = in_window k' w t h"
  by (simp add: in_window_def)

lemma run_inv_mono: "run_inv K now st \<Longrightarrow> now \<le> now' \<Longrightarrow> run_inv K now' st"
proof -
  assume inv: "run_inv K now st" and le: "now \<le> now'"
  have "\<exists>pre. acc k (fst st) = pre @ client_events k (snd st) \<and>
      (\<forall>u\<in>set pre. u \<le> now' - rl_window_seconds (snd st))" for k
  proof -
    from inv obtain pre where "acc k (fst st) = pre @ client_events k (snd st)"
      and "\<forall>u\<in>set pre. u \<le> now - rl_window_seconds (snd st)"
      unfolding run_inv_def Let_def by blast
    with le show ?thesis by (intro exI [of _ pre]) force
  qed
  with inv show ?thesis by (simp add: run_inv_def Let_def)
qed

lemma dropWhile_split:
  "\<exists>d. xs = d @ dropWhile P xs \<and> (\<forall>u\<in>set d. P u)"
  by (rule exI [of _ "takeWhile P xs"]) (auto dest: set_takeWhileD)

lemma client_events_set:
  "client_events k' (rl\<lparr>rl_events := set_events k es (setdefault k evs)\<rparr>) =
     (if k' = k then es else client_events k' (rl\<lparr>rl_events := evs\<rparr>))"
  by (simp add: client_events_def map_of_set_events map_of_setdefault)

lemma allow_step_inv:
  assumes inv: "run_inv K now st" and fin: "finite K" "int (card K) \<le> rl_max_clients (snd st)"
    and pos: "0 < rl_limit (snd st)" and c: "fst c \<in> K" "now \<le> snd c"
  shows "run_inv K (snd c) (allow_step c st) \<and>
    rl_limit (snd (allow_step c st)) = rl_limit (snd st) \<and>
    rl_window_seconds (snd (allow_step c st)) = rl_window_seconds (snd st) \<and>
    rl_max_clients (snd (allow_step c st)) = rl_max_clients (snd st)"
proof -
  obtain k t where ct: "c = (k, t)" by (cases c)
  obtain h rl where st: "st = (h, rl)" by (cases st)
  let ?w = "rl_window_seconds rl"
  let ?es = "dropWhile (\<lambda>u. u \<le> t - ?w) (client_events k rl)"
  let ?tab = "setdefault k (rl_events rl)"
  have inv': "run_inv K t (h, rl)" using run_inv_mono [OF inv] c ct st by simp
  then have wf: "rl_wf rl" and sub: "fst ` set (rl_events rl) \<subseteq> K"
    and win: "\<And>k t. int (in_window k ?w t h) \<le> rl_limit rl"
    by (auto simp: run_inv_def)
  have pre: "\<exists>pre. acc k' h = pre @ client_events k' rl \<and> (\<forall>u\<in>set pre. u \<le> t - ?w)" for k'
    using inv' by (auto simp: run_inv_def)
  obtain p where p: "acc k h = p @ ?es" "\<forall>u\<in>set p. u \<le> t - ?w"
  proof -
    from pre [of k] obtain q where q: "acc k h = q @ client_events k rl" "\<forall>u\<in>set q. u \<le> t - ?w"
      by blast
    obtain d where "client_events k rl = d @ ?es" "\<forall>u\<in>set d. u \<le> t - ?w"
      using dropWhile_split [of "client_events k rl" "\<lambda>u. u \<le> t - ?w"] by blast
    with q that [of "q @ d"] show thesis by auto
  qed
  show ?thesis
  proof (cases "allow k t rl")
    case (Inl e)
    then show ?thesis using inv' by (simp add: allow_step_def ct st)
  next
    case (Inr x)
    obtain ok ra rl' where x: "x = ((ok, ra), rl')" by (metis prod.exhaust)
    have al: "allow k t rl = Inr ((ok, ra), rl')" using Inr x by simp
    have wf': "rl_wf rl'" using allow_wf [OF wf al] .
    have keys: "fst ` set ?tab \<subseteq> K" using sub c ct by (auto simp: setdefault_def)
    from al pos [unfolded st, simplified] show ?thesis
    proof (cases rule: allow_cases)
      case denied
      have "\<exists>pre. acc k' h = pre @ client_events k' rl' \<and> (\<forall>u\<in>set pre. u \<le> t - ?w)" for k'
        using pre [of k'] p unfolding denied(4) by (auto simp: client_events_set)
      moreover have "fst ` set (rl_events rl') \<subseteq> K"
        using keys unfolding denied(4) by simp
      ultimately have "run_inv K t (h, rl')"
        using win wf' denied(4) by (simp add: run_inv_def)
      with denied al show ?thesis by (simp add: allow_step_def ct st)
    next
      case granted
      have "length ?tab = card (fst ` set ?tab)"
        using wf distinct_setdefault [of "rl_events rl" k]
        by (metis distinct_card length_map list.set_map rl_wf_def)
      also have "\<dots> \<le> card K" using keys fin(1) by (rule card_mono [rotated])
      finally have small: "\<not> rl_max_clients rl < int (length ?tab)" using fin(2) st by simp
      with granted have rl': "rl' = rl\<lparr>rl_events := set_events k (?es @ [t]) ?tab\<rparr>" by simp
      have "\<exists>pre. acc k' (h @ [(k, t)]) = pre @ client_events k' rl' \<and> (\<forall>u\<in>set pre. u \<le> t - ?w)" for k'
        using pre [of k'] p unfolding rl' by (auto simp: client_events_set acc_snoc)
      moreover have "fst ` set (rl_events rl') \<subseteq> K"
        using keys unfolding rl' by simp
      moreover have "int (in_window k' ?w u (h @ [(k, t)])) \<le> rl_limit rl" for k' u
        using window_step [OF p granted(2) win] in_window_other [of k' k ?w u h t] win [of k' u]
        by (cases "k' = k") auto
      ultimately have "run_inv K t (h @ [(k, t)], rl')"
        using wf' rl' by (simp add: run_inv_def)
      with granted al rl' show ?thesis by (simp add: allow_step_def ct st)
    qed
  qed
qed

lemma run_allow_inv:
  assumes "run_inv K now st" "finite K" "int (card K) \<le> rl_max_clients (snd st)"
    "0 < rl_limit (snd st)" "fst ` set calls \<subseteq> K" "sorted (now # map snd calls)"
  shows "\<exists>now'. run_inv K now' (fold allow_step calls st) \<and>
    rl_limit (snd (fold allow_step calls st)) = rl_limit (snd st) \<and>
    rl_window_seconds (snd (fold allow_step calls st)) = rl_window_seconds (snd st)"
  using assms
proof (induction calls arbitrary: st now)
  case Nil
  then show ?case by auto
next
  case (Cons c cs)
  have s: "run_inv K (snd c) (allow_step c st)"
      "rl_limit (snd (allow_step c st)) = rl_limit (snd st)"
      "rl_window_seconds (snd (allow_step c st)) = rl_window_seconds (snd st)"
      "rl_max_clients (snd (allow_step c st)) = rl_max_clients (snd st)"
    using allow_step_inv [OF Cons.prems(1-4)] Cons.prems(5,6) by auto
  show ?case using Cons.IH [OF s(1) Cons.prems(2)] Cons.prems s(2-4) by auto
qed

lemma eviction_forgets_calls:
  "\<exists>rl. rate_limiter_init 1 60 1 = Inr rl \<and>
     in_window ''a'' 60 2 (accepted [(''a'', 0), (''b'', 1), (''a'', 2)] rl) = 2"
proof -
  let ?rl = "\<lambda>es. \<lparr>rl_limit = 1, rl_window_seconds = 60, rl_max_clients = 1, rl_events = es\<rparr>"
  have "allow ''a'' 0 (?rl []) = Inr ((True, 0), ?rl [(''a'', [0])])"
    "allow ''b'' 1 (?rl [(''a'', [0])]) = Inr ((True, 0), ?rl [(''b'', [1])])"
    "allow ''a'' 2 (?rl [(''b'', [1])]) = Inr ((True, 0), ?rl [(''a'', [2])])"
    by (simp_all add: allow_def setdefault_def set_events_def evict_one_empty_client_def)
  then show ?thesis by (simp add: rate_limiter_init_def accepted_def allow_step_def in_window_def)
qed

text \<open>
  C31. The limiter does what its name says: with a positive limit, over any sequence of calls with
  non-decreasing time stamps, made by no more distinct clients than \<open>max_clients\<close>, every half-open window
  of \<open>window_seconds\<close> holds at most \<open>limit\<close> accepted calls of any one client. (A limit of 0 switches the
  limiter off; with more clients than \<open>max_clients\<close> an eviction can forget the calls of a client, see
  \<open>eviction_forgets_calls\<close>.)
\<close>

theorem sliding_window:
  assumes "rate_limiter_init limit window clients = Inr rl" "0 < limit"
    and "sorted (map snd calls)" "int (card (fst ` set calls)) \<le> clients"
  shows "int (in_window k window t (accepted calls rl)) \<le> limit"
proof (cases calls)
  case Nil
  with assms show ?thesis by (simp add: accepted_def in_window_def)
next
  case (Cons c cs)
  have rl: "rl = \<lparr>rl_limit = limit, rl_window_seconds = window, rl_max_clients = clients, rl_events = []\<rparr>"
    and wf: "rl_wf rl"
    using assms(1) rate_limiter_init_wf by (auto simp: rate_limiter_init_def split: if_splits)
  have "run_inv (fst ` set calls) (snd c) ([], rl)"
    using wf assms(2) by (simp add: run_inv_def rl acc_def client_events_def in_window_def)
  then have "\<exists>now'. run_inv (fst ` set calls) now' (fold allow_step calls ([], rl)) \<and>
      rl_limit (snd (fold allow_step calls ([], rl))) = limit \<and>
      rl_window_seconds (snd (fold allow_step calls ([], rl))) = window"
    using run_allow_inv [of "fst ` set calls" "snd c" "([], rl)" calls] assms(2-4) Cons
    by (simp add: rl)
  then show ?thesis by (auto simp: accepted_def run_inv_def Let_def)
qed

theorem sliding_window_witness:
  "int (in_window ''a'' 10 12 (accepted [(''a'', 1), (''a'', 5), (''b'', 6), (''a'', 7), (''a'', 12)]
      \<lparr>rl_limit = 2, rl_window_seconds = 10, rl_max_clients = 3, rl_events = []\<rparr>)) \<le> 2"
  by (rule sliding_window [where clients = 3]) (simp_all add: rate_limiter_init_def card_insert_if)

theorem allow_keeps_wf_witness:
  "rl_wf \<lparr>rl_limit = 1, rl_window_seconds = 10, rl_max_clients = 1, rl_events = [(''b'', [4])]\<rparr>"
  by (rule allow_keeps_wf
      [of "\<lparr>rl_limit = 1, rl_window_seconds = 10, rl_max_clients = 1, rl_events = [(''a'', [3])]\<rparr>"
          "''b''" 4 "(True, 0)"])
    (simp_all add: rl_wf_def allow_def setdefault_def set_events_def evict_one_empty_client_def)

end
