(* ===== verification/Gateway_App.thy ===== *)
theory Gateway_App
  imports Gateway_Api Rate_Limit
begin

text \<open>
  \<^verbatim>\<open>gateway/app.py\<close>: start-up of the gateway, which registers the configured storage nodes,
  and the middleware in front of its routes, with the integer settings of
  \<^verbatim>\<open>common/settings.py\<close> that decide the replication policy. Environment variables are
  optional strings.
\<close>

section \<open>Settings\<close>

definition env_int :: "string option \<Rightarrow> int \<Rightarrow> int \<Rightarrow> exn + int" where
  "env_int raw dflt minimum =
     bindE (case raw of
         None \<Rightarrow> Inr dflt
       | Some s \<Rightarrow> if strip s = [] then Inr dflt
           else (case int_of_string s of None \<Rightarrow> Inl ValueError | Some n \<Rightarrow> Inr n)) (\<lambda>value.
     if value < minimum then Inl ValueError else Inr value)"

definition quorums_from_env :: "string option \<Rightarrow> string option \<Rightarrow> string option \<Rightarrow> int \<Rightarrow> int \<Rightarrow> int \<Rightarrow> exn + int \<times> int \<times> int" where
  "quorums_from_env env_factor env_write env_read default_factor default_write default_read =
     bindE (env_int env_factor default_factor 1) (\<lambda>factor.
     bindE (env_int env_write default_write 1) (\<lambda>write_quorum.
     bindE (env_int env_read default_read 1) (\<lambda>read_quorum.
     if factor < write_quorum \<or> factor < read_quorum then Inl ValueError
     else Inr (factor, write_quorum, read_quorum))))"

section \<open>Start-up\<close>

fun split_char :: "char \<Rightarrow> string \<Rightarrow> string list" where
  "split_char c [] = [[]]"
| "split_char c (x # xs) =
     (if x = c then [] # split_char c xs
      else (case split_char c xs of [] \<Rightarrow> [[x]] | y # ys \<Rightarrow> (x # y) # ys))"

definition default_storage_nodes :: string where
  "default_storage_nodes = ''node-01=http://localhost:9001,node-02=http://localhost:9002,node-03=http://localhost:9003,node-04=http://localhost:9004''"

definition parse_node :: "string \<Rightarrow> (string \<times> string) list" where
  "parse_node raw_item =
     (let item = strip raw_item in
      if item = [] \<or> CHR ''='' \<notin> set item then []
      else let node_id = strip (takeWhile (\<lambda>c. c \<noteq> CHR ''='') item);
               address = strip (tl (dropWhile (\<lambda>c. c \<noteq> CHR ''='') item)) in
        if node_id \<noteq> [] \<and> address \<noteq> [] then [(node_id, rstrip_slash address)] else [])"

definition parse_storage_nodes :: "string option \<Rightarrow> (string \<times> string) list" where
  "parse_storage_nodes env =
     concat (map parse_node (split_char CHR '','' (case env of None \<Rightarrow> default_storage_nodes | Some raw \<Rightarrow> raw)))"

text \<open>
  \<open>asyncio.gather\<close> runs both requests and raises the exception that comes first in time; \<open>stats_first\<close> says
  of an address whether that is the one of \<open>stats()\<close> when both fail.
\<close>

definition verify_storage_node ::
  "'n client \<Rightarrow> (string \<Rightarrow> bool) \<Rightarrow> string \<Rightarrow> string \<Rightarrow> (exn, 'n, (string \<times> string \<times> int) option) action" where
  "verify_storage_node c stats_first node_id address =
     thenA (c_open c address)
     (bindA (tryA (c_health c address)) (\<lambda>h.
      bindA (tryA (c_stats c address)) (\<lambda>s.
      let failed = (\<lambda>e. if is_client_error e then retA None else raiseA e) in
      case (h, s) of
        (Inr nh, Inr ns) \<Rightarrow>
          retA (if nh_node_id nh \<noteq> node_id \<or> lower (nh_status nh) \<noteq> ''healthy'' then None
                else Some (node_id, address, st_capacity ns))
      | (Inl e, Inr _) \<Rightarrow> failed e
      | (Inr _, Inl e) \<Rightarrow> failed e
      | (Inl e, Inl e') \<Rightarrow> failed (if stats_first address then e' else e))))"

text \<open>One of the verifications that \<open>asyncio.gather\<close> starts, as a step of the start-up.\<close>

definition verification :: "'n client \<Rightarrow> (string \<Rightarrow> bool) \<Rightarrow> string \<times> string \<Rightarrow> ('n, exn + (string \<times> string \<times> int) option) act" where
  "verification c stats_first x = net_call (tryA (verify_storage_node c stats_first (fst x) (snd x)))"

definition verified_by_id :: "(string \<times> string \<times> int) option list \<Rightarrow> (string \<times> (string \<times> int)) list" where
  "verified_by_id verified = rev (concat (map (\<lambda>v. case v of None \<Rightarrow> [] | Some (i, a, cap) \<Rightarrow> [(i, (a, cap))]) verified))"

text \<open>A later entry of the dictionary replaces an earlier one of the same node. \<open>register_node\<close>
  draws no identifier when it is given one, so its first argument is not read.\<close>

definition register_configured :: "int \<Rightarrow> (string \<times> (string \<times> int)) list \<Rightarrow> string \<times> string \<Rightarrow> ('n, unit) act" where
  "register_configured configured_capacity verified x = (case x of (node_id, address) \<Rightarrow>
     bindA (query (\<lambda>d. lookup_by n_address address (nodes d))) (\<lambda>existing.
     if existing \<noteq> None then retA ()
     else
       let found = map_of verified node_id in
       thenA (transaction (register_node 0 (Some node_id) address
           (case found of None \<Rightarrow> configured_capacity | Some (_, capacity) \<Rightarrow> capacity)
           (if found = None then NS_JOINING else NS_HEALTHY)))
         (retA ())))"

definition node_capacity :: "string option \<Rightarrow> exn + int" where
  "node_capacity env = (case env of None \<Rightarrow> Inr (10 * 1024 ^ 3)
     | Some raw \<Rightarrow> (case int_of_string raw of None \<Rightarrow> Inl ValueError | Some n \<Rightarrow> Inr n))"

definition bootstrap_nodes :: "'n client \<Rightarrow> (string \<Rightarrow> bool) \<Rightarrow> string option \<Rightarrow> string option \<Rightarrow> ('n, unit) act" where
  "bootstrap_nodes c stats_first env_capacity env_nodes =
     bindA (from_result (node_capacity env_capacity)) (\<lambda>configured_capacity.
     let configured_nodes = parse_storage_nodes env_nodes in
     bindA (forA (verification c stats_first) configured_nodes) (\<lambda>outs.
     bindA (from_result (gather_results outs)) (\<lambda>verified.
     session_scope (thenA (forA (register_configured configured_capacity (verified_by_id verified)) configured_nodes) commit))))"

section \<open>Middleware\<close>

definition starts_with :: "string \<Rightarrow> string \<Rightarrow> bool" where
  "starts_with p s \<longleftrightarrow> take (length p) s = p"

definition cors_origins :: "string option \<Rightarrow> string list" where
  "cors_origins env = filter (\<lambda>s. s \<noteq> []) (map strip (split_char CHR '',''
     (case env of None \<Rightarrow> ''http://localhost:5173,http://127.0.0.1:5173'' | Some raw \<Rightarrow> raw)))"

datatype gate = Forwarded | RateLimited int

definition rate_limit_requests :: "string \<Rightarrow> string option \<Rightarrow> real \<Rightarrow> rate_limiter \<Rightarrow> exn + gate \<times> rate_limiter" where
  "rate_limit_requests path host t rl =
     (if starts_with ''/api/v1/'' path \<and> path \<noteq> ''/api/v1/health''
      then bindE (allow (case host of None \<Rightarrow> ''unknown'' | Some h \<Rightarrow> h) t rl) (\<lambda>((allowed, retry_after), rl').
        Inr (if allowed then Forwarded else RateLimited retry_after, rl'))
      else Inr (Forwarded, rl))"

definition set_default :: "string \<times> string \<Rightarrow> (string \<times> string) list \<Rightarrow> (string \<times> string) list" where
  "set_default kv headers = (if lower (fst kv) \<in> fst ` set headers then headers else headers @ [(lower (fst kv), snd kv)])"

definition default_headers :: "(string \<times> string) list" where
  "default_headers =
     [(''X-Content-Type-Options'', ''nosniff''), (''X-Frame-Options'', ''DENY''), (''Referrer-Policy'', ''no-referrer''),
      (''Cache-Control'', ''no-store''),
      (''Content-Security-Policy'', ''default-src '' @ [CHR 0x27] @ ''none'' @ [CHR 0x27] @ ''; frame-ancestors '' @ [CHR 0x27] @ ''none'' @ [CHR 0x27] @
         ''; base-uri '' @ [CHR 0x27] @ ''none'' @ [CHR 0x27]),
      (''Permissions-Policy'', ''accelerometer=(), camera=(), geolocation=(), microphone=(), payment=(), usb=()''),
      (''X-Permitted-Cross-Domain-Policies'', ''none'')]"

definition security_headers :: "(string \<times> string) list \<Rightarrow> (string \<times> string) list" where
  "security_headers headers = fold set_default default_headers headers"

section \<open>What start-up registers\<close>

lemma forA_split:
  assumes "forA f xs s = (Inr ys, t)" "y \<in> set ys"
  obtains pre x post zs u v where "xs = pre @ x # post" "forA f pre s = (Inr zs, u)" "f x u = (Inr y, v)"
  using assms
proof (induction xs arbitrary: s ys thesis)
  case (Cons x xs)
  from Cons.prems(2) obtain z zs u where step: "f x s = (Inr z, u)" "forA f xs u = (Inr zs, t)" "ys = z # zs"
    by (rule forA_ConsE)
  show ?case
  proof (cases "y = z")
    case True
    then show ?thesis using Cons.prems(1)[of "[]" x xs "[]" s u] step by (simp add: retA_def)
  next
    case False
    then have "y \<in> set zs" using Cons.prems(3) step(3) by simp
    then obtain pre x' post zs' u' v where "xs = pre @ x' # post" "forA f pre u = (Inr zs', u')" "f x' u' = (Inr y, v)"
      using Cons.IH[OF _ step(2)] by blast
    then show ?thesis using Cons.prems(1)[of "x # pre" x' post "z # zs'" u' v] step(1)
      by (simp add: bindA_def retA_def)
  qed
qed (simp add: retA_def)

text \<open>In network state \<open>s\<close> the node at an address presents itself as a healthy node with this identity and capacity.\<close>

definition announces :: "'n client \<Rightarrow> string \<Rightarrow> int \<Rightarrow> string \<Rightarrow> 'n \<Rightarrow> bool" where
  "announces c i cap a s \<longleftrightarrow> (\<exists>s1 s2 s3 nh ns. c_open c a s = (Inr (), s1) \<and> c_health c a s1 = (Inr nh, s2) \<and>
     c_stats c a s2 = (Inr ns, s3) \<and> nh_node_id nh = i \<and> lower (nh_status nh) = ''healthy'' \<and> cap = st_capacity ns)"

lemma verify_storage_node_announces:
  assumes "verify_storage_node c stats_first i a s = (Inr (Some (j, b, cap)), t)"
  shows "j = i \<and> b = a \<and> announces c i cap a s"
  using assms unfolding verify_storage_node_def announces_def
  by (auto simp: Let_def thenA_def bindA_def tryA_def retA_def raiseA_def split: prod.splits sum.splits if_splits)

lemma verified_by_id_SomeD:
  "map_of (verified_by_id vs) i = Some (a, cap) \<Longrightarrow> Some (i, a, cap) \<in> set vs"
  by (drule map_of_SomeD) (auto simp: verified_by_id_def split: option.splits)

lemma verified_announces:
  assumes "forA (verification c stats_first) xs w = (Inr (map Inr vs), w1)" "map_of (verified_by_id vs) i = Some (a, cap)"
  shows "\<exists>pre post. xs = pre @ (i, a) # post \<and> announces c i cap a (net (snd (forA (verification c stats_first) pre w)))"
proof -
  have "Inr (Some (i, a, cap)) \<in> set (map Inr vs)" using verified_by_id_SomeD[OF assms(2)] by simp
  from forA_split[OF assms(1) this] obtain pre x post zs u v where
    x: "xs = pre @ x # post" "forA (verification c stats_first) pre w = (Inr zs, u)"
       "verification c stats_first x u = (Inr (Inr (Some (i, a, cap))), v)" by blast
  have "x = (i, a) \<and> announces c i cap a (net u)"
    using x(3) verify_storage_node_announces[of c stats_first "fst x" "snd x" "net u" i a cap]
    by (cases x) (auto simp: verification_def net_call_def tryA_def split: prod.splits)
  then show ?thesis using x(1,2) by auto
qed

text \<open>The row that start-up creates for a configured node.\<close>

definition configured_row :: "int \<Rightarrow> (string \<times> (string \<times> int)) list \<Rightarrow> (string \<times> string) list \<Rightarrow> node_row \<Rightarrow> bool" where
  "configured_row cap verified xs n \<longleftrightarrow> (\<exists>(i, a) \<in> set xs. n_id n = strip i \<and> n_address n = rstrip_slash (strip a) \<and>
     n_used n = 0 \<and> n_last_heartbeat_at n = None \<and>
     (case map_of verified i of None \<Rightarrow> n_status n = NS_JOINING \<and> n_capacity n = cap
      | Some (_, capacity) \<Rightarrow> n_status n = NS_HEALTHY \<and> n_capacity n = capacity))"

definition only_adds :: "(node_row \<Rightarrow> bool) \<Rightarrow> db \<Rightarrow> db \<Rightarrow> bool" where
  "only_adds P d d' \<longleftrightarrow> (\<exists>new. d' = d\<lparr>nodes := nodes d @ new\<rparr> \<and> (\<forall>n \<in> set new. P n)) \<and> (db_inv d \<longrightarrow> db_inv d')"

lemma only_adds_refl [simp]: "only_adds P d d"
  unfolding only_adds_def by (auto intro!: exI[of _ "[]"])

lemma only_adds_trans:
  assumes "only_adds P d0 d1" "only_adds P d1 d2"
  shows "only_adds P d0 d2"
proof -
  obtain n1 n2 where "d1 = d0\<lparr>nodes := nodes d0 @ n1\<rparr>" "d2 = d1\<lparr>nodes := nodes d1 @ n2\<rparr>"
    "\<forall>n \<in> set n1. P n" "\<forall>n \<in> set n2. P n"
    using assms by (auto simp: only_adds_def)
  then have "d2 = d0\<lparr>nodes := nodes d0 @ (n1 @ n2)\<rparr> \<and> (\<forall>n \<in> set (n1 @ n2). P n)" by auto
  then show ?thesis using assms unfolding only_adds_def by blast
qed

lemma register_node_adds:
  assumes "register_node u (Some i) a cap st d = Inr (n, d')"
    and new: "P \<lparr>n_id = strip i, n_address = rstrip_slash (strip a), n_status = st, n_capacity = cap, n_used = 0,
                 n_last_heartbeat_at = None\<rparr>"
  shows "only_adds P d d' \<and> (\<exists>n \<in> set (nodes d'). n_address n = rstrip_slash (strip a))"
proof (cases "lookup_by n_address (rstrip_slash (strip a)) (nodes d)")
  case None
  have "db_inv d \<longrightarrow> db_inv d'" using register_node_inv[OF assms(1)] by blast
  then show ?thesis using None assms
    by (auto simp: register_node_def only_adds_def Let_def split: if_splits intro!: exI[of _ "[n]"])
next
  case (Some e)
  then show ?thesis using assms lookup_by_SomeD[OF Some]
    by (auto simp: register_node_def Let_def split: if_splits)
qed

lemma register_configured_adds:
  assumes "register_configured cap verified (i, a) w = (r, w')" "(i, a) \<in> set xs"
  shows "stored w' = stored w \<and> in_tx w' \<and> only_adds (configured_row cap verified xs) (view w) (view w') \<and>
    (r = Inr () \<longrightarrow> (\<exists>n \<in> set (nodes (view w')). n_address n \<in> {a, rstrip_slash (strip a)}))"
proof (cases "lookup_by n_address a (nodes (view w))")
  case (Some e)
  then show ?thesis using assms(1) lookup_by_SomeD[OF Some]
    by (auto simp: register_configured_def run_simps)
next
  case None
  let ?found = "map_of verified i"
  let ?cap = "case ?found of None \<Rightarrow> cap | Some (_, capacity) \<Rightarrow> capacity"
  let ?st = "if ?found = None then NS_JOINING else NS_HEALTHY"
  show ?thesis
  proof (cases "register_node 0 (Some i) a ?cap ?st (view w)")
    case (Inl e)
    then show ?thesis using None assms(1)
      by (auto simp: register_configured_def Let_def run_simps thenA_def bindA_def query_def transaction_def)
  next
    case (Inr x)
    obtain n d' where ok: "register_node 0 (Some i) a ?cap ?st (view w) = Inr (n, d')" using Inr by (cases x) simp
    have "only_adds (configured_row cap verified xs) (view w) d' \<and> (\<exists>n \<in> set (nodes d'). n_address n = rstrip_slash (strip a))"
      using register_node_adds[OF ok, of "configured_row cap verified xs"] assms(2)
      by (force simp: configured_row_def split: option.splits)
    moreover have "w' = w\<lparr>in_tx := True, view := d'\<rparr>" using None ok assms(1)
      by (auto simp: register_configured_def Let_def thenA_def bindA_def query_def transaction_def retA_def)
    ultimately show ?thesis by auto
  qed
qed

lemma only_adds_nodes: "only_adds P d d' \<Longrightarrow> set (nodes d) \<subseteq> set (nodes d')"
  by (auto simp: only_adds_def)

lemma register_all_adds:
  assumes "forA (register_configured cap verified) ys w = (r, w')" "set ys \<subseteq> set xs"
  shows "stored w' = stored w \<and> only_adds (configured_row cap verified xs) (view w) (view w') \<and>
    (\<not> isl r \<longrightarrow> (\<forall>(i, a) \<in> set ys. \<exists>n \<in> set (nodes (view w')). n_address n \<in> {a, rstrip_slash (strip a)}))"
  using assms
proof (induction ys arbitrary: w r w')
  case (Cons y ys)
  obtain i a where y: "y = (i, a)" by (cases y)
  have "(i, a) \<in> set xs" using Cons.prems(2) y by simp
  obtain r1 w1 where one: "register_configured cap verified (i, a) w = (r1, w1)" by fastforce
  note first = register_configured_adds[OF one \<open>(i, a) \<in> set xs\<close>]
  show ?case
  proof (cases r1)
    case (Inl e)
    then show ?thesis using Cons.prems(1) first by (auto simp: y bindA_def one)
  next
    case (Inr u)
    obtain r2 w2 where rest: "forA (register_configured cap verified) ys w1 = (r2, w2)" by fastforce
    have fin: "w' = w2" "isl r = isl r2" using Cons.prems(1) Inr rest
      by (auto simp: y bindA_def one retA_def split: sum.splits)
    have "set ys \<subseteq> set xs" using Cons.prems(2) by simp
    note more = Cons.IH[OF rest this]
    have adds: "only_adds (configured_row cap verified xs) (view w) (view w2)"
      using first more only_adds_trans by blast
    have "set (nodes (view w1)) \<subseteq> set (nodes (view w2))" using more only_adds_nodes by blast
    then have "\<exists>n \<in> set (nodes (view w2)). n_address n \<in> {a, rstrip_slash (strip a)}" using first Inr by auto
    then show ?thesis unfolding fin y using adds first more by simp
  qed
qed (simp add: retA_def)

lemma session_commit_run:
  assumes "session_scope (thenA m commit) w = (r, w')" "m (w\<lparr>view := stored w, in_tx := False\<rparr>) = (r1, w1)"
  shows "(case r1 of Inl e \<Rightarrow> r = Inl e \<and> stored w' = stored w1 | Inr _ \<Rightarrow> r = Inr () \<and> stored w' = view w1)"
  using assms by (auto simp: session_scope_def thenA_def bindA_def commit_def rollback_def split: sum.splits)

lemma verification_tables: "forA (verification c stats_first) xs w = (r, w1) \<Longrightarrow> stored w1 = stored w"
  using keepsD[of "tables_are (view w) (stored w)" "forA (verification c stats_first) xs" w r w1]
  by (simp add: tables_are_def verification_def keeps_rules)

lemma bootstrap_nodes_cases:
  assumes "bootstrap_nodes c stats_first env_capacity env_nodes w = (r, w')"
  obtains (refused) "isl r" "stored w' = stored w"
  | (registered) cap vs w1 where "node_capacity env_capacity = Inr cap"
      "forA (verification c stats_first) (parse_storage_nodes env_nodes) w = (Inr (map Inr vs), w1)"
      "\<not> isl r" "only_adds (configured_row cap (verified_by_id vs) (parse_storage_nodes env_nodes)) (stored w) (stored w')"
      "\<forall>(i, a) \<in> set (parse_storage_nodes env_nodes). \<exists>n \<in> set (nodes (stored w')). n_address n \<in> {a, rstrip_slash (strip a)}"
proof (cases "node_capacity env_capacity")
  case (Inl e)
  then show ?thesis using assms refused by (auto simp: bootstrap_nodes_def run_simps)
next
  case (Inr cap)
  let ?xs = "parse_storage_nodes env_nodes"
  obtain r1 w1 where outs: "forA (verification c stats_first) ?xs w = (r1, w1)" by fastforce
  note kept = verification_tables[OF outs]
  show ?thesis
  proof (cases "\<exists>vs. r1 = Inr (map Inr vs)")
    case False
    then have "isl r \<and> w' = w1" using assms Inr outs gather_results_Inr
      by (auto simp: bootstrap_nodes_def from_result_run Let_def bindA_def from_result_def split: sum.splits)
    then show ?thesis using refused kept by simp
  next
    case True
    then obtain vs where vs: "r1 = Inr (map Inr vs)" by blast
    have gathered: "gather_results (map Inr vs) = Inr vs"
      by (simp add: gather_results_def filter_empty_conv comp_def split: list.split)
    let ?m = "forA (register_configured cap (verified_by_id vs)) ?xs"
    have run: "session_scope (thenA ?m commit) w1 = (r, w')"
      using assms Inr outs vs gathered
      by (simp add: bootstrap_nodes_def from_result_run Let_def bindA_def from_result_def)
    obtain r2 w2 where m: "?m (w1\<lparr>view := stored w1, in_tx := False\<rparr>) = (r2, w2)" by fastforce
    note res = register_all_adds[OF m subset_refl] and fin = session_commit_run[OF run m]
    show ?thesis
    proof (cases r2)
      case (Inl e)
      then show ?thesis using res fin refused kept by simp
    next
      case (Inr ys)
      then have "\<not> isl r" "stored w' = view w2" using fin by simp_all
      then show ?thesis using registered[OF \<open>node_capacity env_capacity = Inr cap\<close> outs[unfolded vs]] res kept Inr by simp
    qed
  qed
qed

text \<open>
  C14. Start-up of the gateway (\<open>_bootstrap_nodes\<close>) changes only the node table and only by adding rows,
  and keeps the invariant of the metadata. It is all or nothing: when it raises, nothing is added; when it
  returns, every configured address has a row. A row it adds belongs to a configured node; it is
  JOINING with the configured capacity, or HEALTHY, and then a configured address of that node was contacted
  during this start-up and answered with that identity, the status healthy and the capacity recorded.
\<close>

theorem bootstrap_nodes_sound:
  assumes "bootstrap_nodes c stats_first env_capacity env_nodes w = (r, w')"
  shows "\<exists>new. stored w' = (stored w)\<lparr>nodes := nodes (stored w) @ new\<rparr> \<and>
    (db_inv (stored w) \<longrightarrow> db_inv (stored w')) \<and>
    (isl r \<longrightarrow> new = []) \<and>
    (\<not> isl r \<longrightarrow> (\<forall>(i, a) \<in> set (parse_storage_nodes env_nodes).
       \<exists>n \<in> set (nodes (stored w')). n_address n \<in> {a, rstrip_slash (strip a)})) \<and>
    (\<forall>n \<in> set new. \<exists>(i, a) \<in> set (parse_storage_nodes env_nodes).
       n_id n = strip i \<and> n_address n = rstrip_slash (strip a) \<and>
       (n_status n = NS_JOINING \<and> node_capacity env_capacity = Inr (n_capacity n) \<or>
        n_status n = NS_HEALTHY \<and> (\<exists>pre b post. parse_storage_nodes env_nodes = pre @ (i, b) # post \<and>
          announces c i (n_capacity n) b (net (snd (forA (verification c stats_first) pre w))))))"
    (is "\<exists>new. _ new \<and> _ \<and> _ new \<and> _ \<and> (\<forall>n \<in> set new. ?row n)")
  using assms
proof (cases rule: bootstrap_nodes_cases)
  case refused
  then show ?thesis by (intro exI[of _ "[]"]) simp
next
  case (registered cap vs w1)
  then obtain new where new: "stored w' = (stored w)\<lparr>nodes := nodes (stored w) @ new\<rparr>"
      "\<forall>n \<in> set new. configured_row cap (verified_by_id vs) (parse_storage_nodes env_nodes) n"
    by (auto simp: only_adds_def)
  have "\<forall>n \<in> set new. ?row n"
    using new(2) verified_announces[OF registered(2)] registered(1)
    by (fastforce simp: configured_row_def split: option.splits)
  moreover have "db_inv (stored w) \<longrightarrow> db_inv (stored w')" using registered(4) by (simp add: only_adds_def)
  ultimately show ?thesis using new(1) registered(3,5) by blast
qed

text \<open>A network in which only the node at \<^verbatim>\<open>http://n1\<close> answers.\<close>

definition boot_client :: "unit client" where
  "boot_client = (demo_client [])\<lparr>
     c_health := (\<lambda>a. if a = ''http://n1'' then retA \<lparr>nh_status = ''Healthy'', nh_node_id = ''n1''\<rparr>
        else raiseA (ClientE StorageNodeUnavailableError)),
     c_stats := (\<lambda>a. if a = ''http://n1'' then retA \<lparr>st_node_id = ''n1'', st_capacity = 100, st_used = 0, st_free = 100\<rparr>
        else raiseA (ClientE StorageNodeUnavailableError))\<rparr>"

lemma boot_client_simps:
  "c_open boot_client = (\<lambda>a. retA ())"
  "c_health boot_client = (\<lambda>a. if a = ''http://n1'' then retA \<lparr>nh_status = ''Healthy'', nh_node_id = ''n1''\<rparr>
     else raiseA (ClientE StorageNodeUnavailableError))"
  "c_stats boot_client = (\<lambda>a. if a = ''http://n1'' then retA \<lparr>st_node_id = ''n1'', st_capacity = 100, st_used = 0, st_free = 100\<rparr>
     else raiseA (ClientE StorageNodeUnavailableError))"
  by (simp_all add: boot_client_def demo_client_simps)

lemma boot_settings:
  "parse_storage_nodes (Some '' n1 = http://n1/,n2=http://n2,n3'') = [(''n1'', ''http://n1''), (''n2'', ''http://n2'')]"
  "node_capacity (Some ''500'') = Inr 500"
  by code_simp+

lemma boot_verified:
  "forA (verification boot_client stats_first) [(''n1'', ''http://n1''), (''n2'', ''http://n2'')] w =
     (Inr [Inr (Some (''n1'', ''http://n1'', 100)), Inr None], w)"
proof -
  have "lower ''Healthy'' = ''healthy''" by code_simp
  then show ?thesis
    by (simp add: verification_def verify_storage_node_def Let_def boot_client_simps net_call_def thenA_def bindA_def tryA_def retA_def raiseA_def)
qed

lemma boot_registered:
  "session_scope (thenA (forA (register_configured 500 (verified_by_id [Some (''n1'', ''http://n1'', 100), None]))
       [(''n1'', ''http://n1''), (''n2'', ''http://n2'')]) commit) (demo_world empty_db s) =
     (Inr (), demo_world (empty_db\<lparr>nodes := [demo_node\<lparr>n_last_heartbeat_at := None\<rparr>,
       \<lparr>n_id = ''n2'', n_address = ''http://n2'', n_status = NS_JOINING, n_capacity = 500, n_used = 0, n_last_heartbeat_at = None\<rparr>]\<rparr>) s)"
proof -
  have "strip ''n1'' = ''n1'' \<and> strip ''n2'' = ''n2'' \<and> strip ''http://n1'' = ''http://n1'' \<and> strip ''http://n2'' = ''http://n2'' \<and>
    rstrip_slash ''http://n1'' = ''http://n1'' \<and> rstrip_slash ''http://n2'' = ''http://n2''" by code_simp
  then show ?thesis
    by (simp add: register_configured_def register_node_def verified_by_id_def session_scope_def rollback_def commit_def thenA_def bindA_def
        query_def transaction_def retA_def demo_world_def empty_db_def demo_node_def lookup_by_def Let_def)
qed

theorem bootstrap_nodes_sound_witness:
  "\<exists>w'. bootstrap_nodes boot_client (\<lambda>_. False) (Some ''500'') (Some '' n1 = http://n1/,n2=http://n2,n3'') (demo_world empty_db ()) = (Inr (), w') \<and>
    map (\<lambda>n. (n_id n, n_status n, n_capacity n)) (nodes (stored w')) = [(''n1'', NS_HEALTHY, 100), (''n2'', NS_JOINING, 500)] \<and>
    db_inv (stored w')"
proof -
  have "gather_results [Inr (Some (''n1'', ''http://n1'', 100)), Inr None] = Inr [Some (''n1'', ''http://n1'', 100 :: int), None]"
    by (simp add: gather_results_def)
  then have run: "bootstrap_nodes boot_client (\<lambda>_. False) (Some ''500'') (Some '' n1 = http://n1/,n2=http://n2,n3'') w =
      session_scope (thenA (forA (register_configured 500 (verified_by_id [Some (''n1'', ''http://n1'', 100), None]))
        [(''n1'', ''http://n1''), (''n2'', ''http://n2'')]) commit) w" for w
    unfolding bootstrap_nodes_def boot_settings by (simp add: Let_def bindA_def from_result_def boot_verified del: forA.simps)
  obtain w' where r: "bootstrap_nodes boot_client (\<lambda>_. False) (Some ''500'') (Some '' n1 = http://n1/,n2=http://n2,n3'') (demo_world empty_db ()) = (Inr (), w')"
      "map (\<lambda>n. (n_id n, n_status n, n_capacity n)) (nodes (stored w')) = [(''n1'', NS_HEALTHY, 100), (''n2'', NS_JOINING, 500)]"
    unfolding run boot_registered by (simp add: demo_world_def demo_node_def)
  have before: "db_inv (stored (demo_world empty_db ()))" using db_inv_empty by (simp add: demo_world_def)
  have "db_inv (stored (demo_world empty_db ())) \<longrightarrow> db_inv (stored w')"
    using bootstrap_nodes_sound [OF r(1)] by (elim exE conjE)
  from mp [OF this before] show ?thesis by (intro exI [of _ w'] conjI r)
qed

section \<open>Settings and middleware\<close>

lemma env_int_bounds: "env_int raw dflt minimum = Inr n \<Longrightarrow> minimum \<le> n"
  by (auto simp: env_int_def bindE_def split: option.splits sum.splits if_splits)

text \<open>Quorums accepted from the environment make a replication policy.\<close>

lemma quorums_from_env_policy:
  assumes "quorums_from_env f w r df dw dr = Inr (factor, write_quorum, read_quorum)"
  shows "replication_policy_init factor write_quorum read_quorum =
    Inr \<lparr>pol_factor = factor, pol_write_quorum = write_quorum, pol_read_quorum = read_quorum\<rparr>"
  using assms env_int_bounds[of f df 1] env_int_bounds[of w dw 1] env_int_bounds[of r dr 1]
  by (auto simp: quorums_from_env_def replication_policy_init_def bindE_def split: sum.splits if_splits)

text \<open>The middleware passes every request outside the API and every health request without counting it, and forwards
  a counted request only when the limiter accepts it.\<close>

lemma rate_limit_requests_exempt:
  "\<not> starts_with ''/api/v1/'' path \<or> path = ''/api/v1/health'' \<Longrightarrow> rate_limit_requests path host t rl = Inr (Forwarded, rl)"
  by (auto simp: rate_limit_requests_def)

lemma rate_limit_requests_counted:
  assumes "starts_with ''/api/v1/'' path" "path \<noteq> ''/api/v1/health''"
    "rate_limit_requests path host t rl = Inr (g, rl')"
  shows "allow (case host of None \<Rightarrow> ''unknown'' | Some h \<Rightarrow> h) t rl =
    Inr ((g = Forwarded, case g of Forwarded \<Rightarrow> 0 | RateLimited retry_after \<Rightarrow> retry_after), rl')"
  using assms by (auto simp: rate_limit_requests_def bindE_def allow_def Let_def split: sum.splits if_splits)

text \<open>The security headers are on every response, and a header that the response has already keeps its value.\<close>

lemma set_default_keys: "fst ` set (set_default kv h) = insert (lower (fst kv)) (fst ` set h)"
  by (auto simp: set_default_def)

lemma fold_set_default:
  "fst ` set (fold set_default kvs h) = lower ` fst ` set kvs \<union> fst ` set h \<and> (\<exists>more. fold set_default kvs h = h @ more)"
proof (induction kvs arbitrary: h)
  case (Cons kv kvs)
  obtain more where "set_default kv h = h @ more" unfolding set_default_def by (cases "lower (fst kv) \<in> fst ` set h") auto
  then show ?case using Cons.IH[of "set_default kv h"] set_default_keys[of kv h] by auto
qed simp

lemma security_headers_present:
  "lower ` fst ` set default_headers \<subseteq> fst ` set (security_headers h)"
  "map_of h k = Some v \<Longrightarrow> map_of (security_headers h) k = Some v"
proof -
  show "lower ` fst ` set default_headers \<subseteq> fst ` set (security_headers h)"
    using fold_set_default[of default_headers h] by (auto simp: security_headers_def)
  obtain more where "security_headers h = h @ more"
    using fold_set_default[of default_headers h] by (auto simp: security_headers_def)
  then show "map_of h k = Some v \<Longrightarrow> map_of (security_headers h) k = Some v" by simp
qed

end
