(* ===== verification/Spec2Isabelle.thy ===== *)
theory Spec2Isabelle
  imports Gateway_App
begin

text \<open>
  A verification development of the vault, a replicated, versioned object store. A gateway accepts
  objects; metadata in a relational database says which versions exist and where their replicas
  are; storage nodes keep the bytes; managers replicate, repair, move and check replicas; workers
  run the managers periodically.

  \<^bold>\<open>Theories and the source they model.\<close>

  \<^item> \<^verbatim>\<open>Vault_Prelude\<close>: lists with keys, results, actions (state passing with
    exceptions), the calculus of what actions keep (\<open>keeps\<close>, \<open>raises_keep\<close>, \<open>returns_keep\<close>).
  \<^item> \<^verbatim>\<open>Vault_Common\<close>: \<^verbatim>\<open>common/constants.py, errors.py, validation.py, ids.py\<close>, the
    exceptions and the life cycles.
  \<^item> \<^verbatim>\<open>Rate_Limit\<close>: \<^verbatim>\<open>common/rate_limit.py\<close>, the sliding window.
  \<^item> \<^verbatim>\<open>Metadata_Model\<close>, \<^verbatim>\<open>Metadata_Manager\<close>, \<^verbatim>\<open>Metadata_Spec\<close>:
    \<^verbatim>\<open>metadata/models.py\<close> and \<^verbatim>\<open>metadata/manager.py\<close>: rows as records, the tables as lists, the
    database invariant \<open>db_inv\<close>, each operation as a function from tables to an exception or new tables,
    and the abstract specification the operations refine.
  \<^item> \<^verbatim>\<open>Db_Session\<close>: \<^verbatim>\<open>metadata/database.py\<close>: the session, with what it sees (\<open>view\<close>) and what is
    committed (\<open>stored\<close>), savepoints against own transactions, and the session scope. Clocks and
    identifiers are feeds of the world; the network is a type parameter.
  \<^item> \<^verbatim>\<open>Placement\<close>, \<^verbatim>\<open>Storage_Client\<close>, \<^verbatim>\<open>Replication\<close>, \<^verbatim>\<open>Repair\<close>,
    \<^verbatim>\<open>Rebalance\<close>, \<^verbatim>\<open>Integrity\<close>, \<^verbatim>\<open>Recovery\<close>, \<^verbatim>\<open>Health\<close>, \<^verbatim>\<open>Worker\<close>:
    the managers of the directories of the same names, over an arbitrary storage client.
  \<^item> \<^verbatim>\<open>Sha256\<close>, \<^verbatim>\<open>Storage_Engine\<close>, \<^verbatim>\<open>Engine_Layout\<close>, \<^verbatim>\<open>Engine_Spec\<close>:
    \<^verbatim>\<open>storage/storage_engine.py\<close> and \<^verbatim>\<open>storage/checksum.py\<close>: SHA-256, the engine's files and
    accounting, the interleaving of its locked sections, the contract of a write-once store.
  \<^item> \<^verbatim>\<open>Node_Server\<close>, \<^verbatim>\<open>Node_Client\<close>: \<^verbatim>\<open>storage/node_server.py\<close> and
    \<^verbatim>\<open>replication/node_client.py\<close>: the routes on an engine, the client on a transport, and a
    cluster in which addresses lead to servers.
  \<^item> \<^verbatim>\<open>Durability\<close> and this theory: the control plane on the cluster.
  \<^item> \<^verbatim>\<open>Gateway\<close>: \<^verbatim>\<open>gateway/service.py\<close>: listings, the staged upload with the clean-up of
    a failed one, deletion, the choice of a replica to read.
  \<^item> \<^verbatim>\<open>Gateway_Api\<close>: \<^verbatim>\<open>gateway/api.py\<close> and \<^verbatim>\<open>gateway/admin_service.py\<close>: every route
    as an action that answers a reply, the streamed body, the admin key, the administrative jobs.
  \<^item> \<^verbatim>\<open>Gateway_App\<close>: \<^verbatim>\<open>gateway/app.py\<close> and the quorum settings of \<^verbatim>\<open>common/settings.py\<close>:
    start-up with the configured storage nodes, and the middleware.

  \<^bold>\<open>Interfaces.\<close> \<open>job_discipline\<close> (attempts of durable jobs; met by repair, rebalance and
  integrity jobs), \<open>keyed_store\<close> (a write-once store; met by the storage engine), \<open>verified_storage\<close> (what
  a measurement shows; met by the node client on the cluster).

  \<^bold>\<open>What is shown.\<close> Metadata: the invariant, refinement, exclusive commits, life cycles. Managers:
  quorum and failure of replication, termination and effect of repair, source-preserving moves,
  recovery and integrity verdicts, bounded attempts, and which effects are not durable. Engine: round
  trip, completion, failure, capacity under every interleaving, soundness of verification. Client:
  bounded retries, well-formed results, the round trip over the wire. Gateway: an upload is durable with
  its quorum or leaves no trace in the metadata, the outcome of a deletion, administration only with the
  key, start-up that admits only nodes which identified themselves. Whole system: the nodes a replication
  reports healthy serve bytes with the recorded checksum and size; after a PUT through the HTTP route the
  route of GET finds bytes with the checksum and length of what was put, and returns them when its session
  stays open, while with the session factory of the application it raises (\<open>wired_get_never_answers\<close>).

  \<^bold>\<open>Where the code does not do what it means to.\<close> Beside the download: \<open>repair_running_overcounts\<close>,
  \<open>repair_same_node_never_succeeds\<close>, \<open>eviction_forgets_calls\<close>, \<open>upload_named_version_uncounted\<close>,
  \<open>staging_named_version_lost\<close>, \<open>delete_before_accounting_leaks\<close>, \<open>verify_undecodable_raises\<close>,
  \<open>broken_metadata_unmeasurable\<close>, \<open>drain_removal_not_durable\<close>, \<open>health_round_not_durable\<close>.

  \<^bold>\<open>Bounds and fuel.\<close> \<open>repair_loop\<close> has fuel; \<open>repair_until_healthy_terminates\<close> shows that the number of
  missing replicas, plus one, is enough. \<open>run_forever\<close> of the health scheduler runs up to its stop
  event, a parameter. The request loop counts the attempts the policy allows. Every other loop is
  structural recursion over a list.

  \<^bold>\<open>Modelling choices.\<close> Strings range over the code points 0 to 255. Time is an integer, pauses and
  time-outs are rationals. Concurrent writes of one replication run in list order; requests to one
  engine interleave at its locks. File-system calls succeed or fail by a feed, so every failure is
  covered. Row locks are implied by the order of transactions. The HTTP library and the network are a
  parameter of the client, the transport; the theorems about a whole cluster instantiate it with
  \<open>cluster_transport\<close>, which delivers every request to the server at its address and every answer unchanged.
  Rows are values: what SQLAlchemy expires and detaches when a session ends is modelled where the code reads
  a row after that (\<open>read_after\<close>).

  \<^bold>\<open>Not modelled.\<close> Message texts, logging and request identifiers in headers; settings that are
  floats or free text, and FastAPI, Celery and SQLAlchemy set-up, which only configure libraries (the
  values the code uses are parameters); the route that shows the settings; migrations (the tables they
  create are modelled); the frontend, in another language.
\<close>

section \<open>From the metadata to the bytes\<close>

text \<open>
  A node serves a version: a client that asks for it receives a stream that ends normally and whose
  bytes have the checksum and the size of the version.
\<close>

definition serves_version :: "string \<Rightarrow> rat \<Rightarrow> cluster wire \<Rightarrow> string \<Rightarrow> version_row \<Rightarrow> bool" where
  "serves_version key t w a v \<longleftrightarrow>
     (case fst (c_stream (node_client cluster_transport key t) a (uuid_str (v_object_id v)) (uuid_str (v_id v)) w) of
        Inr (Payload blocks None) \<Rightarrow> lower (sha256 (concat blocks)) = lower (v_checksum v) \<and> int (length (concat blocks)) = v_size v
      | _ \<Rightarrow> False)"

lemma backed_served:
  assumes "cluster_ok w" "cluster.backed key t w a v"
  shows "serves_version key t w a v"
  using assms held_bytes_served [OF assms(1)] unfolding cluster.backed_def serves_version_def by fastforce

text \<open>
  C4. A committed version really is on its replicas. When the replication of an uploaded version
  returns, every node it calls healthy serves the version: the bytes a client then reads from the node
  have the SHA-256 and the size recorded in the metadata, even when the node had refused the upload
  because it already had a copy, and whatever the other nodes did.
\<close>

theorem replicated_version_served:
  assumes "db_inv (view w)" "cluster_ok (net w)" "get_version_row (view w) vid = Some v" "\<forall>s. snd (pf s) = s"
    "replicate_version (node_client cluster_transport key t) p vid pf rf wq e w = (Inr res, w')"
  shows "cluster_ok (net w') \<and>
    (\<forall>i\<in>set (rr_healthy res). \<exists>n\<in>set (nodes (view w)). n_id n = i \<and> serves_version key t (net w') (n_address n) v)"
  using cluster.replicate_backed [OF _ assms(2,1,3,5)] assms(4) backed_served
  unfolding cluster.local_payload_def by blast

theorem replicated_version_served_witness:
  "\<exists>res w'. replicate_version (node_client cluster_transport '' secret '' 30) \<lparr>pol_factor = 1, pol_write_quorum = 1, pol_read_quorum = 1\<rparr> 11
     (retA (Payload [[1, 2, 3]] None)) None None (Some 0) (demo_world (sealed_db (sha256 [1, 2, 3])) demo_wire) = (Inr res, w') \<and>
     rr_healthy res = [''n1''] \<and>
     (\<exists>n\<in>set (nodes (sealed_db (sha256 [1, 2, 3]))). n_id n = ''n1'' \<and>
       serves_version '' secret '' 30 (net w') (n_address n) ((demo_version 11 1)\<lparr>v_checksum := sha256 [1, 2, 3]\<rparr>))"
proof -
  let ?w = "demo_world (sealed_db (sha256 [1, 2, 3])) demo_wire"
  obtain t where t: "write_one (node_client cluster_transport '' secret '' 30) (retA (Payload [[1, 2, 3]] None))
      ((demo_version 11 1)\<lparr>v_checksum := sha256 [1, 2, 3]\<rparr>) demo_node demo_wire =
      (Inr \<lparr>wr_node_id = ''n1'', wr_status = RS_HEALTHY, wr_verified = True, wr_error = None, wr_checksum = Some (sha256 [1, 2, 3]), wr_size = Some 3\<rparr>, t)"
    using demo_write_one by blast
  have "\<exists>res w'. replicate_version (node_client cluster_transport '' secret '' 30) \<lparr>pol_factor = 1, pol_write_quorum = 1, pol_read_quorum = 1\<rparr> 11
     (retA (Payload [[1, 2, 3]] None)) None None (Some 0) ?w = (Inr res, w') \<and> rr_healthy res = [''n1'']"
    using t by (intro sealed_replicates [where t = t]) (simp_all add: demo_world_def sha256_shape)
  then obtain res w' where run: "replicate_version (node_client cluster_transport '' secret '' 30) \<lparr>pol_factor = 1, pol_write_quorum = 1, pol_read_quorum = 1\<rparr> 11
     (retA (Payload [[1, 2, 3]] None)) None None (Some 0) ?w = (Inr res, w')" "rr_healthy res = [''n1'']" by blast
  have "db_inv (view ?w)" using sealed_inv [OF sha256_shape] by (simp add: demo_world_def)
  moreover have "cluster_ok (net ?w)" using demo_engine_ok(1) by (simp add: demo_world_def demo_wire_def cluster_ok_def demo_engine_def)
  moreover have "get_version_row (view ?w) 11 = Some ((demo_version 11 1)\<lparr>v_checksum := sha256 [1, 2, 3]\<rparr>)"
    by (simp add: demo_world_def sealed_db_def lookup_by_def demo_version_def)
  moreover have "\<forall>s. snd (retA (Payload [[1, 2, 3]] None) s) = s" by (simp add: retA_def)
  ultimately show ?thesis using replicated_version_served [OF _ _ _ _ run(1)] run by (fastforce simp: demo_world_def)
qed

text \<open>
  A repaired replica really holds the version: when a repair run returns, the target node serves
  the version with the checksum and the size recorded in the metadata.
\<close>

lemma repaired_version_served:
  assumes "db_inv (view w)" "cluster_ok (net w)" "get_repair_row (view w) i = Some j" "\<not> job_over m (rp_status j) (rp_attempts j)"
    "repair_run_job (node_client cluster_transport key t) m i w = (Inr res, w')"
  shows "\<exists>v n. get_version_row (view w) (rp_version_id j) = Some v \<and> get_node_row (view w) (rp_target j) = Some n \<and>
    serves_version key t (net w') (n_address n) v"
  using cluster.repair_backed [OF assms(2,5,3,4,1)] backed_served by blast

end
